(* ===== verification/Prelude.thy ===== *)
theory Prelude
  imports Complex_Main "HOL-Library.List_Lexorder"
begin

text \<open>
  The shared layer of the development: Python text as code points, the result type of
  fallible operations with its sequencing operator, and the relational algebra on tables
  (a table is a list of rows; \<open>update_where\<close>, \<open>delete_where\<close> and \<open>select_where\<close> are the SQL
  UPDATE, DELETE and SELECT the code issues).  The named collections gather the rules the
  component theories rely on:
  \<^item> \<open>result_simps\<close>: when a sequence of fallible steps succeeds, and what it returns;
  \<^item> \<open>table_simps\<close>: what UPDATE and DELETE do to the rows, keys and projections of a table;
  \<^item> \<open>refs_intros\<close>: which inserts, updates and cascading deletes keep a foreign key valid.
\<close>

named_theorems result_simps
named_theorems table_simps
named_theorems refs_intros

section \<open>Python text\<close>

text \<open>
  A Python \<open>str\<close> is a sequence of Unicode code points.  \<open>ascii\<close> turns an HOL literal into
  one, so that the source's own constants can be written as they are in the source.
\<close>

type_synonym pystr = "nat list"

definition ascii :: "string \<Rightarrow> pystr" where
  "ascii cs = map of_char cs"

lemma ascii_Nil [simp]: "ascii [] = []"
  by (simp add: ascii_def)

lemma ascii_Cons [simp]: "ascii (c # cs) = of_char c # ascii cs"
  by (simp add: ascii_def)

lemma ascii_append: "ascii (xs @ ys) = ascii xs @ ascii ys"
  by (simp add: ascii_def)

lemma inj_ascii: "inj ascii"
  unfolding ascii_def by (intro inj_mapI) (simp add: inj_def)

lemma ascii_inject [simp]: "ascii a = ascii b \<longleftrightarrow> a = b"
  using inj_ascii by (simp add: inj_eq)

text \<open>\<open>str.isspace\<close>: the Unicode characters Python strips.\<close>

definition is_space :: "nat \<Rightarrow> bool" where
  "is_space c \<longleftrightarrow> (9 \<le> c \<and> c \<le> 13) \<or> (28 \<le> c \<and> c \<le> 32) \<or> c = 133 \<or> c = 160
     \<or> c = 5760 \<or> (8192 \<le> c \<and> c \<le> 8202) \<or> c = 8232 \<or> c = 8233 \<or> c = 8239
     \<or> c = 8287 \<or> c = 12288"

definition lstrip :: "pystr \<Rightarrow> pystr" where
  "lstrip s = dropWhile is_space s"

definition strip :: "pystr \<Rightarrow> pystr" where
  "strip s = rev (lstrip (rev (lstrip s)))"

text \<open>\<open>needle in s\<close>.\<close>

definition contains :: "pystr \<Rightarrow> pystr \<Rightarrow> bool" where
  "contains needle s \<longleftrightarrow>
     list_ex (\<lambda>i. take (length needle) (drop i s) = needle) [0..<Suc (length s)]"

text \<open>\<open>len(s.encode("utf-8"))\<close>, which is also Postgres' \<open>octet_length\<close> of the stored text.\<close>

definition utf8_width :: "nat \<Rightarrow> nat" where
  "utf8_width c = (if c < 128 then 1 else if c < 2048 then 2 else if c < 65536 then 3 else 4)"

definition utf8_len :: "pystr \<Rightarrow> nat" where
  "utf8_len s = sum_list (map utf8_width s)"

lemma utf8_len_Nil [simp]: "utf8_len [] = 0"
  by (simp add: utf8_len_def)

text \<open>Decimal rendering of a number, as an f-string or \<open>str(n)\<close> does it.\<close>

fun dec_digits :: "nat \<Rightarrow> pystr" where
  "dec_digits n = (if n < 10 then [48 + n] else dec_digits (n div 10) @ [48 + n mod 10])"

declare dec_digits.simps [simp del]

lemma strip_subseq_set: "set (strip s) \<subseteq> set s"
  by (auto simp: strip_def lstrip_def dest!: set_dropWhileD)

lemma lstrip_suffix: "\<exists>pre. s = pre @ lstrip s \<and> (\<forall>c\<in>set pre. is_space c)"
  by (metis lstrip_def set_takeWhileD takeWhile_dropWhile_id)

lemma strip_infix:
  "\<exists>pre post. s = pre @ strip s @ post \<and> (\<forall>c\<in>set pre. is_space c) \<and> (\<forall>c\<in>set post. is_space c)"
proof -
  obtain pre where pre: "s = pre @ lstrip s" "\<forall>c\<in>set pre. is_space c"
    using lstrip_suffix by blast
  obtain post where post: "rev (lstrip s) = post @ lstrip (rev (lstrip s))" "\<forall>c\<in>set post. is_space c"
    using lstrip_suffix by blast
  from post(1) have "lstrip s = strip s @ rev post"
    unfolding strip_def by (metis rev_append rev_rev_ident)
  with pre post show ?thesis by (metis set_rev)
qed

section \<open>Fallible results\<close>

text \<open>
  An operation that may raise returns \<open>Inl e\<close> (the exception) or \<open>Inr x\<close>.  \<open>andthen\<close>
  runs the next statement only when the previous one returned, as an exception leaving a
  Python block does.
\<close>

definition andthen :: "'e + 'a \<Rightarrow> ('a \<Rightarrow> 'e + 'b) \<Rightarrow> 'e + 'b" where
  "andthen m f = (case m of Inl e \<Rightarrow> Inl e | Inr x \<Rightarrow> f x)"

definition check :: "bool \<Rightarrow> 'e \<Rightarrow> 'e + unit" where
  "check b e = (if b then Inr () else Inl e)"

definition or_raise :: "'a option \<Rightarrow> 'e \<Rightarrow> 'e + 'a" where
  "or_raise x e = (case x of None \<Rightarrow> Inl e | Some y \<Rightarrow> Inr y)"

lemma andthen_simps [simp]: "andthen (Inl e) f = Inl e" "andthen (Inr x) f = f x"
  by (simp_all add: andthen_def)

lemma andthen_Inr [result_simps]: "andthen m f = Inr y \<longleftrightarrow> (\<exists>x. m = Inr x \<and> f x = Inr y)"
  by (cases m) simp_all

lemma andthen_Inl [result_simps]:
  "andthen m f = Inl e \<longleftrightarrow> m = Inl e \<or> (\<exists>x. m = Inr x \<and> f x = Inl e)"
  by (cases m) auto

lemma check_Inr [result_simps]: "check b e = Inr u \<longleftrightarrow> b"
  by (simp add: check_def)

lemma check_Inl [result_simps]: "check b e = Inl e' \<longleftrightarrow> \<not> b \<and> e' = e"
  by (auto simp: check_def)

lemma check_simps [simp]: "check True e = Inr ()" "check False e = Inl e"
  by (simp_all add: check_def)

lemma or_raise_Inr [result_simps]: "or_raise x e = Inr y \<longleftrightarrow> x = Some y"
  by (auto simp: or_raise_def split: option.splits)

lemma or_raise_Inl [result_simps]: "or_raise x e = Inl e' \<longleftrightarrow> x = None \<and> e' = e"
  by (auto simp: or_raise_def split: option.splits)

lemma or_raise_simps [simp]: "or_raise None e = Inl e" "or_raise (Some y) e = Inr y"
  by (simp_all add: or_raise_def)

section \<open>Tables\<close>

definition select_where :: "('r \<Rightarrow> bool) \<Rightarrow> 'r list \<Rightarrow> 'r list" where
  "select_where P rows = filter P rows"

definition update_where :: "('r \<Rightarrow> bool) \<Rightarrow> ('r \<Rightarrow> 'r) \<Rightarrow> 'r list \<Rightarrow> 'r list" where
  "update_where P f rows = map (\<lambda>r. if P r then f r else r) rows"

definition delete_where :: "('r \<Rightarrow> bool) \<Rightarrow> 'r list \<Rightarrow> 'r list" where
  "delete_where P rows = filter (\<lambda>r. \<not> P r) rows"

definition exists_where :: "('r \<Rightarrow> bool) \<Rightarrow> 'r list \<Rightarrow> bool" where
  "exists_where P rows \<longleftrightarrow> list_ex P rows"

lemma exists_where_iff [table_simps]: "exists_where P rows \<longleftrightarrow> (\<exists>r\<in>set rows. P r)"
  by (simp add: exists_where_def list_ex_iff)

lemma exists_where_simps [simp]:
  "exists_where P [] \<longleftrightarrow> False" "exists_where P (r # rows) \<longleftrightarrow> P r \<or> exists_where P rows"
  by (simp_all add: exists_where_def)

lemma update_where_simps [simp]:
  "update_where P f [] = []"
  "update_where P f (r # rows) = (if P r then f r else r) # update_where P f rows"
  by (simp_all add: update_where_def)

lemma delete_where_simps [simp]:
  "delete_where P [] = []"
  "delete_where P (r # rows) = (if P r then delete_where P rows else r # delete_where P rows)"
  by (simp_all add: delete_where_def)

lemma select_where_simps [simp]:
  "select_where P [] = []"
  "select_where P (r # rows) = (if P r then r # select_where P rows else select_where P rows)"
  by (simp_all add: select_where_def)

lemma set_select_where [table_simps]: "set (select_where P rows) = {r \<in> set rows. P r}"
  by (auto simp: select_where_def)

lemma set_delete_where [table_simps]: "set (delete_where P rows) = {r \<in> set rows. \<not> P r}"
  by (auto simp: delete_where_def)

lemma set_update_where [table_simps]:
  "set (update_where P f rows) = (\<lambda>q. if P q then f q else q) ` set rows"
  by (auto simp: update_where_def)

lemma exists_update_where:
  "(\<And>r. Q (f r) \<longleftrightarrow> Q r) \<Longrightarrow> exists_where Q (update_where P f rows) \<longleftrightarrow> exists_where Q rows"
  by (induction rows) auto

lemma length_update_where [simp]: "length (update_where P f rows) = length rows"
  by (simp add: update_where_def)

lemma map_update_where [table_simps]:
  assumes "\<And>r. P r \<Longrightarrow> k (f r) = k r"
  shows "map k (update_where P f rows) = map k rows"
  using assms by (auto simp: update_where_def)

lemma select_append [table_simps]:
  "select_where P (xs @ ys) = select_where P xs @ select_where P ys"
  by (simp add: select_where_def)

lemma delete_append [table_simps]:
  "delete_where P (xs @ ys) = delete_where P xs @ delete_where P ys"
  by (simp add: delete_where_def)

text \<open>What one tenant selects is untouched by updates and deletes on other rows.\<close>

lemma select_update_disjoint:
  assumes "\<And>r. r \<in> set rows \<Longrightarrow> P r \<Longrightarrow> \<not> Q r \<and> \<not> Q (f r)"
  shows "select_where Q (update_where P f rows) = select_where Q rows"
  using assms by (induction rows) auto

lemma select_update_all:
  assumes "\<And>r. r \<in> set rows \<Longrightarrow> Q r \<Longrightarrow> P r" and "\<And>r. Q (f r) = Q r"
  shows "select_where Q (update_where P f rows) = map f (select_where Q rows)"
  using assms(1) by (induction rows) (auto simp: assms(2))

lemma select_delete_disjoint:
  assumes "\<And>r. r \<in> set rows \<Longrightarrow> P r \<Longrightarrow> \<not> Q r"
  shows "select_where Q (delete_where P rows) = select_where Q rows"
  using assms by (induction rows) auto

lemma select_delete_others:
  "v \<notin> G \<Longrightarrow> select_where (\<lambda>x. k x = v) (delete_where (\<lambda>x. k x \<in> G) xs) = select_where (\<lambda>x. k x = v) xs"
  by (rule select_delete_disjoint) auto

lemma select_select:
  "(\<And>x. P x \<Longrightarrow> Q x) \<Longrightarrow> select_where P (select_where Q xs) = select_where P xs"
  by (induction xs) auto

text \<open>An inner join: the pairs of rows that satisfy the ON and WHERE conditions.\<close>

definition join_where :: "('a \<Rightarrow> 'b \<Rightarrow> bool) \<Rightarrow> 'a list \<Rightarrow> 'b list \<Rightarrow> ('a \<times> 'b) list" where
  "join_where P xs ys = concat (map (\<lambda>x. map (Pair x) (filter (P x) ys)) xs)"

lemma set_join_where [table_simps]:
  "set (join_where P xs ys) = {(x, y). x \<in> set xs \<and> y \<in> set ys \<and> P x y}"
  by (auto simp: join_where_def)

lemma join_where_Cons:
  "join_where P (x # xs) ys = map (Pair x) (filter (P x) ys) @ join_where P xs ys"
  by (simp add: join_where_def)

lemma join_select:
  assumes "\<And>x y. x \<in> set xs \<Longrightarrow> y \<in> set ys \<Longrightarrow> P x y \<Longrightarrow> Q x \<and> R y"
  shows "join_where P (select_where Q xs) (select_where R ys) = join_where P xs ys"
  using assms
proof (induction xs)
  case (Cons x xs)
  have "filter (P x) (select_where R ys) = filter (P x) ys"
    using Cons.prems by (auto simp: select_where_def intro!: filter_cong)
  moreover have "\<not> Q x \<Longrightarrow> filter (P x) ys = []"
    using Cons.prems by (auto simp: filter_empty_conv)
  moreover have "join_where P (select_where Q xs) (select_where R ys) = join_where P xs ys"
    by (rule Cons.IH) (use Cons.prems in \<open>metis list.set_intros(2)\<close>)
  ultimately show ?case by (simp add: join_where_Cons)
qed (simp add: join_where_def)

text \<open>\<open>sep.join(parts)\<close>, and Postgres' \<open>string_agg\<close>.\<close>

fun join_text :: "pystr \<Rightarrow> pystr list \<Rightarrow> pystr" where
  "join_text sep [] = []"
| "join_text sep [x] = x"
| "join_text sep (x # y # xs) = x @ sep @ join_text sep (y # xs)"

lemma distinct_delete_where [table_simps]:
  "distinct (map k rows) \<Longrightarrow> distinct (map k (delete_where P rows))"
  by (simp add: delete_where_def distinct_map_filter)

lemma distinct_select_where [table_simps]:
  "distinct (map k rows) \<Longrightarrow> distinct (map k (select_where P rows))"
  by (simp add: select_where_def distinct_map_filter)

lemma distinct_key_eq:
  "distinct (map k rows) \<Longrightarrow> r \<in> set rows \<Longrightarrow> q \<in> set rows \<Longrightarrow> k r = k q \<Longrightarrow> r = q"
  by (auto simp: distinct_map dest: inj_onD)

lemma find_SomeD: "find P rows = Some r \<Longrightarrow> r \<in> set rows \<and> P r"
  by (auto simp: find_Some_iff)

lemma find_None [table_simps]: "find P rows = None \<longleftrightarrow> (\<forall>r\<in>set rows. \<not> P r)"
  by (auto simp: find_None_iff)

lemma find_unique:
  assumes "distinct (map k rows)" and "r \<in> set rows" and "P r" and "\<And>q. q \<in> set rows \<Longrightarrow> P q \<Longrightarrow> k q = k r"
  shows "find P rows = Some r"
proof -
  obtain q where "find P rows = Some q"
    using assms(2,3) by (metis find_None not_None_eq)
  with assms show ?thesis
    by (metis distinct_key_eq find_SomeD)
qed

lemma sort_key_Nil [simp]: "sort_key f xs = [] \<longleftrightarrow> xs = []"
  by (metis length_0_conv length_sort)

section \<open>Foreign keys\<close>

text \<open>
  \<open>refs f xs g ys\<close>: the column \<open>f\<close> of the table \<open>xs\<close> references the key \<open>g\<close> of \<open>ys\<close>;
  \<open>refs_opt\<close> is the same for a nullable column.
\<close>

definition refs :: "('x \<Rightarrow> 'k) \<Rightarrow> 'x list \<Rightarrow> ('y \<Rightarrow> 'k) \<Rightarrow> 'y list \<Rightarrow> bool" where
  "refs f xs g ys \<longleftrightarrow> (\<forall>x\<in>set xs. f x \<in> g ` set ys)"

definition refs_opt :: "('x \<Rightarrow> 'k option) \<Rightarrow> 'x list \<Rightarrow> ('y \<Rightarrow> 'k) \<Rightarrow> 'y list \<Rightarrow> bool" where
  "refs_opt f xs g ys \<longleftrightarrow> (\<forall>x\<in>set xs. \<forall>k. f x = Some k \<longrightarrow> k \<in> g ` set ys)"

lemma refs_Nil [simp, refs_intros]: "refs f [] g ys"
  by (simp add: refs_def)

lemma refs_opt_Nil [simp, refs_intros]: "refs_opt f [] g ys"
  by (simp add: refs_opt_def)

lemma refs_append_iff [table_simps]:
  "refs f (xs @ zs) g ys \<longleftrightarrow> refs f xs g ys \<and> refs f zs g ys"
  by (auto simp: refs_def)

lemma refs_opt_append_iff [table_simps]:
  "refs_opt f (xs @ zs) g ys \<longleftrightarrow> refs_opt f xs g ys \<and> refs_opt f zs g ys"
  by (auto simp: refs_opt_def)

lemma refs_single [table_simps]: "refs f [x] g ys \<longleftrightarrow> f x \<in> g ` set ys"
  by (simp add: refs_def)

lemma refs_opt_single [table_simps]:
  "refs_opt f [x] g ys \<longleftrightarrow> (\<forall>k. f x = Some k \<longrightarrow> k \<in> g ` set ys)"
  by (simp add: refs_opt_def)

lemma refsD: "refs f xs g ys \<Longrightarrow> x \<in> set xs \<Longrightarrow> \<exists>y\<in>set ys. g y = f x"
  by (force simp: refs_def)

lemma key_survives:
  "k \<in> g ` set ys \<Longrightarrow> k \<notin> g ` set (select_where P ys) \<Longrightarrow> k \<in> g ` set (delete_where P ys)"
  by (auto simp: table_simps)

lemma refs_delete_parent [refs_intros]:
  "refs f xs g ys \<Longrightarrow>
     refs f (delete_where (\<lambda>x. f x \<in> set (map g (select_where P ys))) xs) g (delete_where P ys)"
  by (auto simp: refs_def table_simps)

lemma refs_opt_null_parent [refs_intros]:
  assumes "refs_opt f xs g ys" and "\<And>x. f (upd x) = None"
  shows "refs_opt f (update_where (\<lambda>x. \<exists>k\<in>set (map g (select_where P ys)). f x = Some k) upd xs)
           g (delete_where P ys)"
  using assms by (fastforce simp: refs_opt_def table_simps image_iff split: if_splits)

lemma refs_delete_child [refs_intros]: "refs f xs g ys \<Longrightarrow> refs f (delete_where Q xs) g ys"
  by (simp add: refs_def table_simps)

lemma refs_opt_delete_child [refs_intros]:
  "refs_opt f xs g ys \<Longrightarrow> refs_opt f (delete_where Q xs) g ys"
  by (auto simp: refs_opt_def table_simps)

lemma refs_append_parent [refs_intros]: "refs f xs g ys \<Longrightarrow> refs f xs g (ys @ zs)"
  by (auto simp: refs_def)

lemma refs_opt_append_parent [refs_intros]: "refs_opt f xs g ys \<Longrightarrow> refs_opt f xs g (ys @ zs)"
  by (auto simp: refs_opt_def)

lemma refs_append_child [refs_intros]:
  "refs f xs g ys \<Longrightarrow> refs f zs g ys \<Longrightarrow> refs f (xs @ zs) g ys"
  by (auto simp: refs_def)

lemma refs_opt_append_child [refs_intros]:
  "refs_opt f xs g ys \<Longrightarrow> refs_opt f zs g ys \<Longrightarrow> refs_opt f (xs @ zs) g ys"
  by (auto simp: refs_opt_def)

lemma refs_update_child [refs_intros]:
  "refs f xs g ys \<Longrightarrow> (\<And>x. f (u x) = f x) \<Longrightarrow> refs f (update_where P u xs) g ys"
  by (auto simp: refs_def table_simps)

lemma refs_opt_update_child [refs_intros]:
  "refs_opt f xs g ys \<Longrightarrow> (\<And>x. f (u x) = f x) \<Longrightarrow> refs_opt f (update_where P u xs) g ys"
  by (auto simp: refs_opt_def table_simps split: if_splits)

lemma image_update_where:
  "(\<And>y. g (u y) = g y) \<Longrightarrow> g ` set (update_where P u ys) = g ` set ys"
proof -
  assume "\<And>y. g (u y) = g y"
  then have "map g (update_where P u ys) = map g ys" by (simp add: map_update_where)
  then show ?thesis by (metis set_map)
qed

lemma refs_update_parent [refs_intros]:
  "refs f xs g ys \<Longrightarrow> (\<And>y. g (u y) = g y) \<Longrightarrow> refs f xs g (update_where P u ys)"
  by (simp add: refs_def image_update_where)

text \<open>Deleting rows on both sides keeps the key when every dropped parent drops its children.\<close>

lemma refs_delete_both:
  assumes "refs f xs g ys"
    and "\<And>x y. x \<in> set xs \<Longrightarrow> y \<in> set ys \<Longrightarrow> \<not> Q x \<Longrightarrow> g y = f x \<Longrightarrow> \<not> P y"
  shows "refs f (delete_where Q xs) g (delete_where P ys)"
  unfolding refs_def
proof
  fix x assume "x \<in> set (delete_where Q xs)"
  then have x: "x \<in> set xs" "\<not> Q x" by (simp_all add: table_simps)
  then obtain y where y: "y \<in> set ys" "g y = f x" using assms(1) refsD by metis
  with x assms(2) have "y \<in> set (delete_where P ys)" by (simp add: table_simps)
  with y(2) show "f x \<in> g ` set (delete_where P ys)" by (metis imageI)
qed

lemma refs_opt_update_both:
  assumes "refs_opt f xs g ys"
    and "\<And>x k. x \<in> set xs \<Longrightarrow> f (if Q x then u x else x) = Some k \<Longrightarrow> f x = Some k"
    and "\<And>x y k. x \<in> set xs \<Longrightarrow> y \<in> set ys \<Longrightarrow> f (if Q x then u x else x) = Some (g y) \<Longrightarrow> \<not> P y"
  shows "refs_opt f (update_where Q u xs) g (delete_where P ys)"
  unfolding refs_opt_def
proof (intro ballI allI impI)
  fix x' k assume "x' \<in> set (update_where Q u xs)" and k: "f x' = Some k"
  then obtain x where x: "x \<in> set xs" "x' = (if Q x then u x else x)" by (auto simp: table_simps)
  with k assms(2) have "f x = Some k" by blast
  with x assms(1) obtain y where y: "y \<in> set ys" "g y = k" unfolding refs_opt_def by force
  with x k assms(3) have "y \<in> set (delete_where P ys)" by (simp add: table_simps)
  with y(2) show "k \<in> g ` set (delete_where P ys)" by (metis imageI)
qed

end
