(* ===== verification/Errors.thy ===== *)
theory Errors
  imports Prelude
begin

text \<open>
  The exceptions of \<open>errors.py\<close>, the database errors psycopg raises, and the mapping of
  both to HTTP status codes at the API edge (\<open>deps.py\<close>).  A domain error carries its
  message, because some of the contracts of the data layer are about which messages a
  caller can tell apart.
\<close>

datatype sql_error = UniqueViolation | ForeignKeyViolation | CheckViolation | InvalidText | DataException

datatype exc =
    DomainError pystr
  | Conflict pystr
  | NotFound pystr
  | Forbidden pystr
  | AuthError pystr
  | QuotaExceeded pystr
  | DbError sql_error
  | ValueError pystr
  | KeyError pystr
  | ExternalError pystr

fun is_domain_error :: "exc \<Rightarrow> bool" where
  "is_domain_error (DbError _) = False"
| "is_domain_error (ValueError _) = False"
| "is_domain_error (KeyError _) = False"
| "is_domain_error (ExternalError _) = False"
| "is_domain_error _ = True"

text \<open>
  \<open>_STATUS\<close> with the handler's default of 400 for a bare domain error.  An exception that is
  not a \<open>DomainError\<close> has no handler, so the server answers 500.
\<close>

fun http_status :: "exc \<Rightarrow> nat" where
  "http_status (AuthError _) = 401"
| "http_status (Forbidden _) = 403"
| "http_status (NotFound _) = 404"
| "http_status (Conflict _) = 409"
| "http_status (QuotaExceeded _) = 413"
| "http_status (DomainError _) = 400"
| "http_status (DbError _) = 500"
| "http_status (ValueError _) = 500"
| "http_status (KeyError _) = 500"
| "http_status (ExternalError _) = 500"

lemma http_status_client_error: "is_domain_error e \<longleftrightarrow> http_status e < 500"
  by (cases e) simp_all

text \<open>
  A statement that raises in the database: \<open>db_raise\<close> lets the error through, and
  \<open>on_unique\<close> is \<open>except psycopg.errors.UniqueViolation\<close> turning it into a domain error.
\<close>

definition db_raise :: "sql_error + 'a \<Rightarrow> exc + 'a" where
  "db_raise m = (case m of Inl e \<Rightarrow> Inl (DbError e) | Inr x \<Rightarrow> Inr x)"

fun on_unique :: "exc \<Rightarrow> sql_error + 'a \<Rightarrow> exc + 'a" where
  "on_unique e (Inl UniqueViolation) = Inl e"
| "on_unique e (Inl e') = Inl (DbError e')"
| "on_unique e (Inr x) = Inr x"

lemma db_raise_Inr [result_simps]: "db_raise m = Inr x \<longleftrightarrow> m = Inr x"
  by (cases m) (simp_all add: db_raise_def)

lemma db_raise_simps [simp]: "db_raise (Inr x) = Inr x" "db_raise (Inl e) = Inl (DbError e)"
  by (simp_all add: db_raise_def)

lemma on_unique_Inr [result_simps]: "on_unique e m = Inr x \<longleftrightarrow> m = Inr x"
  by (cases "(e, m)" rule: on_unique.cases) auto

end
