(* ===== verification/Auth.thy ===== *)
theory Auth
  imports Errors
begin

text \<open>
  \<open>auth.py\<close>: role ranks, password hashing and session tokens.  The cryptographic primitives
  (sha256, base64, bcrypt) and the token generator are parameters: \<open>sha256\<close> stands for
  \<open>hashlib.sha256(s.encode()).digest()\<close>, \<open>sha256_hex\<close> for its \<open>hexdigest()\<close>, and
  \<open>checkpw\<close> for \<open>bcrypt.checkpw\<close>, which answers \<open>None\<close> where it raises \<open>ValueError\<close> on a
  malformed hash.
\<close>

section \<open>Roles\<close>

definition r_owner :: pystr where "r_owner = ascii ''owner''"
definition r_admin :: pystr where "r_admin = ascii ''admin''"
definition r_member :: pystr where "r_member = ascii ''member''"

lemma role_names_distinct [simp]:
  "r_owner \<noteq> r_admin" "r_admin \<noteq> r_owner" "r_owner \<noteq> r_member"
  "r_member \<noteq> r_owner" "r_admin \<noteq> r_member" "r_member \<noteq> r_admin"
  by (simp_all add: r_owner_def r_admin_def r_member_def)

definition ROLE_RANK :: "pystr \<Rightarrow> nat option" where
  "ROLE_RANK r = (if r = r_member then Some 1 else if r = r_admin then Some 2
                  else if r = r_owner then Some 3 else None)"

definition rank_or :: "nat \<Rightarrow> pystr \<Rightarrow> nat" where
  "rank_or d r = (case ROLE_RANK r of None \<Rightarrow> d | Some n \<Rightarrow> n)"

definition role_at_least :: "pystr \<Rightarrow> pystr \<Rightarrow> bool" where
  "role_at_least actual required \<longleftrightarrow> rank_or 99 required \<le> rank_or 0 actual"

definition known_role :: "pystr \<Rightarrow> bool" where
  "known_role r \<longleftrightarrow> r = r_owner \<or> r = r_admin \<or> r = r_member"

lemma rank_or_simps [simp]:
  "rank_or d r_member = 1" "rank_or d r_admin = 2" "rank_or d r_owner = 3"
  by (simp_all add: rank_or_def ROLE_RANK_def)

lemma rank_or_unknown: "\<not> known_role r \<Longrightarrow> rank_or d r = d"
  by (simp add: rank_or_def ROLE_RANK_def known_role_def)

lemma rank_or_known: "known_role r \<Longrightarrow> rank_or d r = rank_or e r \<and> 1 \<le> rank_or d r \<and> rank_or d r \<le> 3"
  by (auto simp: known_role_def)

text \<open>The two defaults close the check: an unknown role is below every requirement, and an
  unknown requirement is met by nobody.\<close>

lemma role_at_least_known: "role_at_least a r \<Longrightarrow> known_role a \<and> known_role r"
proof -
  assume "role_at_least a r"
  then have le: "rank_or 99 r \<le> rank_or 0 a" by (simp add: role_at_least_def)
  have "rank_or 0 a \<le> 3"
    by (cases "known_role a") (auto simp: rank_or_unknown dest: rank_or_known)
  moreover have "1 \<le> rank_or 99 r"
    by (cases "known_role r") (auto simp: rank_or_unknown dest: rank_or_known)
  ultimately show ?thesis
    using le by (cases "known_role a"; cases "known_role r") (auto simp: rank_or_unknown)
qed

lemma role_at_least_simps [simp]:
  "role_at_least r_owner r_owner" "role_at_least r_owner r_admin" "role_at_least r_owner r_member"
  "\<not> role_at_least r_admin r_owner" "role_at_least r_admin r_admin" "role_at_least r_admin r_member"
  "\<not> role_at_least r_member r_owner" "\<not> role_at_least r_member r_admin"
  "role_at_least r_member r_member"
  by (simp_all add: role_at_least_def)

text \<open>
  What the callers of \<open>role_at_least\<close> rely on: it orders the roles, and a role that meets a
  requirement is a known one.  \<open>outranked\<close> is the consequence every gate in the data layer
  uses: passing a gate for one role means passing it for every role that one dominates.
\<close>

locale role_order =
  fixes at_least :: "pystr \<Rightarrow> pystr \<Rightarrow> bool" and known :: "pystr \<Rightarrow> bool"
  assumes refl_known: "known r \<Longrightarrow> at_least r r"
    and trans_roles: "at_least a b \<Longrightarrow> at_least b c \<Longrightarrow> at_least a c"
    and closed: "at_least a b \<Longrightarrow> known a \<and> known b"
    and total_known: "known a \<Longrightarrow> known b \<Longrightarrow> at_least a b \<or> at_least b a"
begin

lemma outranked: "at_least actor needed \<Longrightarrow> at_least needed lower \<Longrightarrow> at_least actor lower"
  by (rule trans_roles)

lemma denied_unknown: "\<not> known actor \<Longrightarrow> \<not> at_least actor needed"
  using closed by blast

lemma ceiling: "\<not> at_least actor granted \<Longrightarrow> known actor \<Longrightarrow> known granted \<Longrightarrow> at_least granted actor"
  using total_known by blast

end

interpretation roles: role_order role_at_least known_role
proof unfold_locales
  fix a b c r
  show "known_role r \<Longrightarrow> role_at_least r r" by (auto simp: known_role_def)
  show "role_at_least a b \<Longrightarrow> known_role a \<and> known_role b" by (rule role_at_least_known)
  show "known_role a \<Longrightarrow> known_role b \<Longrightarrow> role_at_least a b \<or> role_at_least b a"
    by (auto simp: known_role_def)
  show "role_at_least a b \<Longrightarrow> role_at_least b c \<Longrightarrow> role_at_least a c"
    using role_at_least_known [of a b] role_at_least_known [of b c]
    by (auto simp: known_role_def)
qed

section \<open>Passwords and tokens\<close>

definition prehash :: "(pystr \<Rightarrow> nat list) \<Rightarrow> (nat list \<Rightarrow> nat list) \<Rightarrow> pystr \<Rightarrow> nat list" where
  "prehash sha256 b64 password = b64 (sha256 password)"

definition hash_password ::
  "(pystr \<Rightarrow> nat list) \<Rightarrow> (nat list \<Rightarrow> nat list) \<Rightarrow> (nat list \<Rightarrow> 'salt \<Rightarrow> pystr)
    \<Rightarrow> 'salt \<Rightarrow> pystr \<Rightarrow> pystr" where
  "hash_password sha256 b64 hashpw salt password = hashpw (prehash sha256 b64 password) salt"

definition verify_password ::
  "(pystr \<Rightarrow> nat list) \<Rightarrow> (nat list \<Rightarrow> nat list) \<Rightarrow> (nat list \<Rightarrow> pystr \<Rightarrow> bool option)
    \<Rightarrow> pystr \<Rightarrow> pystr \<Rightarrow> bool" where
  "verify_password sha256 b64 checkpw password password_hash =
     (if \<exists>c\<in>set password_hash. 128 \<le> c then False
      else case checkpw (prehash sha256 b64 password) password_hash of
             None \<Rightarrow> False | Some b \<Rightarrow> b)"

definition new_session_token :: "(pystr \<Rightarrow> pystr) \<Rightarrow> pystr \<Rightarrow> pystr \<times> pystr" where
  "new_session_token sha256_hex raw = (raw, sha256_hex raw)"

text \<open>
  A password verifies against its own hash, and against nothing else when the primitives
  distinguish pre-hashes: the two facts login rests on, for bcrypt's documented contract.
\<close>

lemma verify_password_iff:
  assumes contract: "\<And>p q salt. checkpw p (hashpw q salt) = Some (p = q)"
    and ascii_hash: "\<And>p salt. \<forall>c\<in>set (hashpw p salt). c < 128"
  shows "verify_password sha256 b64 checkpw p (hash_password sha256 b64 hashpw salt q)
           \<longleftrightarrow> prehash sha256 b64 p = prehash sha256 b64 q"
proof -
  have "\<not> (\<exists>c\<in>set (hashpw (prehash sha256 b64 q) salt). 128 \<le> c)"
    using ascii_hash [of "prehash sha256 b64 q" salt] by (auto simp: not_le)
  then show ?thesis by (simp add: verify_password_def hash_password_def contract)
qed

end
