(* ===== verification/Database.thy ===== *)
theory Database
  imports Auth
begin

text \<open>
  The Postgres schema of \<open>migrations/*.sql\<close> as a state: one record per row type, one list
  of rows per table, the row-level-security predicate of migrations 0007 and 0008, and the
  \<open>on delete cascade\<close> and \<open>on delete set null\<close> behaviour of the foreign keys.  Identifiers
  are the canonical text of their uuid, which is what \<open>str(row["id"])\<close> gives the code;
  Postgres' reading of an identifier spelled by a caller is the parameter \<open>pg_uuid\<close> of the
  operations (\<open>None\<close>: rejected).  Times are microseconds.  Generated values (a fresh uuid,
  the transaction's \<open>now()\<close>) are arguments of the operations that insert them.
\<close>

section \<open>Rows\<close>

type_synonym time = int

record org_row =
  o_id :: pystr
  o_slug :: pystr
  o_name :: pystr

record user_row =
  u_id :: pystr
  u_email :: pystr
  u_hash :: pystr

record membership_row =
  m_user :: pystr
  m_org :: pystr
  m_role :: pystr
  m_created :: time

record group_row =
  g_id :: pystr
  g_org :: pystr
  g_name :: pystr
  g_created :: time

record group_member_row =
  gm_group :: pystr
  gm_user :: pystr

record session_row =
  s_token :: pystr
  s_user :: pystr
  s_org :: pystr
  s_expires :: time

datatype doc_status = DPending | DIngested | DFailed | DDeleted

record document_row =
  d_id :: pystr
  d_org :: pystr
  d_source :: pystr
  d_path :: pystr
  d_content :: pystr
  d_hash :: pystr
  d_acl :: "pystr list"
  d_status :: doc_status
  d_pii :: "pystr list"
  d_revision :: nat
  d_updated :: time

record chunk_row =
  c_org :: pystr
  c_doc :: pystr
  c_ordinal :: nat
  c_text :: pystr
  c_embedding :: "real list"
  c_acl :: "pystr list"

datatype job_status = JQueued | JRunning | JSucceeded | JFailed | JDead

record job_row =
  j_id :: pystr
  j_org :: pystr
  j_kind :: pystr
  j_payload :: "(pystr \<times> pystr) list"
  j_key :: pystr
  j_status :: job_status
  j_attempts :: int
  j_max :: int
  j_error :: "pystr option"
  j_run_after :: time
  j_created :: time
  j_updated :: time

record answer_row =
  a_id :: pystr
  a_org :: pystr
  a_user :: pystr
  a_question :: pystr
  a_provider :: pystr
  a_refused :: bool
  a_blocked :: bool
  a_input :: int
  a_output :: int
  a_cost :: real
  a_estimated :: bool
  a_created :: time

record feedback_row =
  f_org :: pystr
  f_user :: pystr
  f_answer :: pystr
  f_rating :: pystr
  f_note :: "pystr option"

datatype json = JStr pystr | JInt int | JBool bool

record audit_row =
  l_org :: pystr
  l_actor :: "pystr option"
  l_action :: pystr
  l_detail :: "(pystr \<times> json) list"
  l_created :: time

record spend_row =
  ps_day :: int
  ps_cost :: real

record db =
  orgs :: "org_row list"
  users :: "user_row list"
  memberships :: "membership_row list"
  groups :: "group_row list"
  group_members :: "group_member_row list"
  sessions :: "session_row list"
  documents :: "document_row list"
  chunks :: "chunk_row list"
  jobs :: "job_row list"
  answers :: "answer_row list"
  feedback :: "feedback_row list"
  audit_log :: "audit_row list"
  platform_spend :: "spend_row list"

definition empty_db :: db where
  "empty_db = \<lparr>orgs = [], users = [], memberships = [], groups = [], group_members = [],
     sessions = [], documents = [], chunks = [], jobs = [], answers = [], feedback = [],
     audit_log = [], platform_spend = []\<rparr>"

section \<open>Row-level security\<close>

text \<open>
  The policy \<open>org_id = nullif(current_setting('app.current_org', true), '')::uuid\<close>: with no
  setting the comparison is with NULL, so no row is visible.
\<close>

definition rls :: "pystr option \<Rightarrow> pystr \<Rightarrow> bool" where
  "rls current org \<longleftrightarrow> current = Some org"

lemma rls_simps [simp]: "rls None org \<longleftrightarrow> False" "rls (Some o1) org \<longleftrightarrow> o1 = org"
  by (auto simp: rls_def)

section \<open>Cascading deletes\<close>

definition delete_answers :: "(answer_row \<Rightarrow> bool) \<Rightarrow> db \<Rightarrow> db" where
  "delete_answers P s =
     (let gone = map a_id (select_where P (answers s)) in
      s\<lparr>answers := delete_where P (answers s),
        feedback := delete_where (\<lambda>f. f_answer f \<in> set gone) (feedback s)\<rparr>)"

definition delete_documents :: "(document_row \<Rightarrow> bool) \<Rightarrow> db \<Rightarrow> db" where
  "delete_documents P s =
     (let gone = map d_id (select_where P (documents s)) in
      s\<lparr>documents := delete_where P (documents s),
        chunks := delete_where (\<lambda>c. c_doc c \<in> set gone) (chunks s)\<rparr>)"

definition delete_groups :: "(group_row \<Rightarrow> bool) \<Rightarrow> db \<Rightarrow> db" where
  "delete_groups P s =
     (let gone = map g_id (select_where P (groups s)) in
      s\<lparr>groups := delete_where P (groups s),
        group_members := delete_where (\<lambda>m. gm_group m \<in> set gone) (group_members s)\<rparr>)"

definition delete_users :: "(user_row \<Rightarrow> bool) \<Rightarrow> db \<Rightarrow> db" where
  "delete_users P s =
     (let gone = map u_id (select_where P (users s));
          s1 = delete_answers (\<lambda>a. a_user a \<in> set gone) s in
      s1\<lparr>users := delete_where P (users s),
         memberships := delete_where (\<lambda>m. m_user m \<in> set gone) (memberships s),
         group_members := delete_where (\<lambda>m. gm_user m \<in> set gone) (group_members s),
         sessions := delete_where (\<lambda>x. s_user x \<in> set gone) (sessions s),
         feedback := delete_where (\<lambda>f. f_user f \<in> set gone) (feedback s1),
         audit_log := update_where (\<lambda>l. \<exists>u\<in>set gone. l_actor l = Some u)
                        (\<lambda>l. l\<lparr>l_actor := None\<rparr>) (audit_log s)\<rparr>)"

definition delete_orgs :: "(org_row \<Rightarrow> bool) \<Rightarrow> db \<Rightarrow> db" where
  "delete_orgs P s =
     (let gone = map o_id (select_where P (orgs s));
          s1 = delete_groups (\<lambda>g. g_org g \<in> set gone) s;
          s2 = delete_documents (\<lambda>d. d_org d \<in> set gone) s1;
          s3 = delete_answers (\<lambda>a. a_org a \<in> set gone) s2 in
      s3\<lparr>orgs := delete_where P (orgs s),
         memberships := delete_where (\<lambda>m. m_org m \<in> set gone) (memberships s),
         sessions := delete_where (\<lambda>x. s_org x \<in> set gone) (sessions s),
         chunks := delete_where (\<lambda>c. c_org c \<in> set gone) (chunks s3),
         jobs := delete_where (\<lambda>j. j_org j \<in> set gone) (jobs s),
         feedback := delete_where (\<lambda>f. f_org f \<in> set gone) (feedback s3),
         audit_log := delete_where (\<lambda>l. l_org l \<in> set gone) (audit_log s)\<rparr>)"

section \<open>Constraints\<close>

definition org_ids :: "db \<Rightarrow> pystr list" where "org_ids s = map o_id (orgs s)"
definition user_ids :: "db \<Rightarrow> pystr list" where "user_ids s = map u_id (users s)"
definition group_ids :: "db \<Rightarrow> pystr list" where "group_ids s = map g_id (groups s)"
definition doc_ids :: "db \<Rightarrow> pystr list" where "doc_ids s = map d_id (documents s)"
definition answer_ids :: "db \<Rightarrow> pystr list" where "answer_ids s = map a_id (answers s)"

text \<open>The primary-key and unique constraints of the schema.\<close>

definition keys_ok :: "db \<Rightarrow> bool" where
  "keys_ok s \<longleftrightarrow>
     distinct (org_ids s) \<and> distinct (map o_slug (orgs s))
   \<and> distinct (user_ids s) \<and> distinct (map u_email (users s))
   \<and> distinct (map (\<lambda>m. (m_user m, m_org m)) (memberships s))
   \<and> distinct (group_ids s) \<and> distinct (map (\<lambda>g. (g_org g, g_name g)) (groups s))
   \<and> distinct (map (\<lambda>m. (gm_group m, gm_user m)) (group_members s))
   \<and> distinct (map s_token (sessions s))
   \<and> distinct (doc_ids s) \<and> distinct (map (\<lambda>d. (d_org d, d_source d, d_path d)) (documents s))
   \<and> distinct (map (\<lambda>c. (c_doc c, c_ordinal c)) (chunks s))
   \<and> distinct (map j_id (jobs s)) \<and> distinct (map j_key (jobs s))
   \<and> distinct (answer_ids s) \<and> distinct (map (\<lambda>f. (f_answer f, f_user f)) (feedback s))
   \<and> distinct (map ps_day (platform_spend s))"

text \<open>The foreign keys of the schema.\<close>

definition refs_ok :: "db \<Rightarrow> bool" where
  "refs_ok s \<longleftrightarrow>
     refs m_user (memberships s) u_id (users s) \<and> refs m_org (memberships s) o_id (orgs s)
   \<and> refs g_org (groups s) o_id (orgs s)
   \<and> refs gm_group (group_members s) g_id (groups s)
   \<and> refs gm_user (group_members s) u_id (users s)
   \<and> refs s_user (sessions s) u_id (users s) \<and> refs s_org (sessions s) o_id (orgs s)
   \<and> refs d_org (documents s) o_id (orgs s)
   \<and> refs c_org (chunks s) o_id (orgs s) \<and> refs c_doc (chunks s) d_id (documents s)
   \<and> refs j_org (jobs s) o_id (orgs s)
   \<and> refs a_org (answers s) o_id (orgs s) \<and> refs a_user (answers s) u_id (users s)
   \<and> refs f_org (feedback s) o_id (orgs s) \<and> refs f_user (feedback s) u_id (users s)
   \<and> refs f_answer (feedback s) a_id (answers s)
   \<and> refs l_org (audit_log s) o_id (orgs s) \<and> refs_opt l_actor (audit_log s) u_id (users s)"

lemmas id_defs = org_ids_def user_ids_def group_ids_def doc_ids_def answer_ids_def

lemmas cascade_defs = delete_answers_def delete_documents_def delete_groups_def
  delete_users_def delete_orgs_def

text \<open>Every cascading delete keeps both kinds of constraint.\<close>

lemma keys_ok_cascade:
  assumes "keys_ok s"
  shows "keys_ok (delete_answers P1 s)" "keys_ok (delete_documents P2 s)"
    "keys_ok (delete_groups P3 s)" "keys_ok (delete_users P4 s)" "keys_ok (delete_orgs P5 s)"
  using assms
  by (simp_all add: keys_ok_def cascade_defs Let_def id_defs distinct_delete_where)

lemma refs_ok_delete_answers: "refs_ok s \<Longrightarrow> refs_ok (delete_answers P s)"
  unfolding refs_ok_def delete_answers_def Let_def by (auto intro: refs_intros simp del: set_map)

lemma refs_ok_delete_documents: "refs_ok s \<Longrightarrow> refs_ok (delete_documents P s)"
  unfolding refs_ok_def delete_documents_def Let_def by (auto intro: refs_intros simp del: set_map)

lemma refs_ok_delete_groups: "refs_ok s \<Longrightarrow> refs_ok (delete_groups P s)"
  unfolding refs_ok_def delete_groups_def Let_def by (auto intro: refs_intros simp del: set_map)

lemma refs_ok_delete_users: "refs_ok s \<Longrightarrow> refs_ok (delete_users P s)"
  unfolding refs_ok_def delete_users_def delete_answers_def Let_def
  by (auto intro: refs_intros simp del: set_map)

lemma refs_ok_delete_orgs: "refs_ok s \<Longrightarrow> refs_ok (delete_orgs P s)"
  unfolding refs_ok_def delete_orgs_def delete_groups_def delete_documents_def delete_answers_def
    Let_def
  by (auto intro: refs_intros simp del: set_map)

lemmas refs_ok_cascade = refs_ok_delete_answers refs_ok_delete_documents refs_ok_delete_groups
  refs_ok_delete_users refs_ok_delete_orgs

end
