(* ===== verification/Access.thy ===== *)
theory Access
  imports Database
begin

text \<open>
  The acting context and the role gates of \<open>TenantScope\<close> (\<open>tenancy.py\<close>), what one tenant
  owns of the database (\<open>view\<close>), and the invariant that ties a user to one home
  organisation.  A caller-supplied identifier is read by Postgres (\<open>pg_uuid\<close>); a spelling it
  rejects raises, which no handler maps, so it is a \<open>DbError\<close>.
\<close>

record auth_context =
  ctx_user :: pystr
  ctx_org :: pystr
  ctx_role :: pystr
  ctx_email :: pystr

section \<open>Gates\<close>

definition require_role :: "auth_context \<Rightarrow> pystr \<Rightarrow> exc + unit" where
  "require_role ctx minimum =
     check (role_at_least (ctx_role ctx) minimum)
       (Forbidden (ascii ''requires role '' @ minimum @ ascii '', caller is '' @ ctx_role ctx))"

definition require_can_grant :: "auth_context \<Rightarrow> pystr \<Rightarrow> exc + unit" where
  "require_can_grant ctx role =
     andthen (require_role ctx r_admin) (\<lambda>_.
       check (role_at_least (ctx_role ctx) role)
         (Forbidden (ascii ''cannot grant role '' @ role @ ascii '', caller is '' @ ctx_role ctx)))"

definition uuid_arg :: "(pystr \<Rightarrow> pystr option) \<Rightarrow> pystr \<Rightarrow> exc + pystr" where
  "uuid_arg pg_uuid spelled = or_raise (pg_uuid spelled) (DbError InvalidText)"

lemma require_role_Inr [result_simps]:
  "require_role ctx r = Inr u \<longleftrightarrow> role_at_least (ctx_role ctx) r"
  by (simp add: require_role_def result_simps)

lemma require_can_grant_Inr [result_simps]:
  "require_can_grant ctx r = Inr u \<longleftrightarrow>
     role_at_least (ctx_role ctx) r_admin \<and> role_at_least (ctx_role ctx) r"
  by (simp add: require_can_grant_def result_simps)

lemma uuid_arg_Inr [result_simps]: "uuid_arg pg x = Inr u \<longleftrightarrow> pg x = Some u"
  by (simp add: uuid_arg_def result_simps)

lemma require_role_ok [simp]:
  "role_at_least (ctx_role ctx) r \<Longrightarrow> require_role ctx r = Inr ()"
  by (simp add: require_role_def)

lemma require_can_grant_ok [simp]:
  "role_at_least (ctx_role ctx) r_admin \<Longrightarrow> role_at_least (ctx_role ctx) r \<Longrightarrow>
     require_can_grant ctx r = Inr ()"
  by (simp add: require_can_grant_def)

lemma uuid_arg_ok [simp]: "pg x = Some u \<Longrightarrow> uuid_arg pg x = Inr u"
  by (simp add: uuid_arg_def)

text \<open>
  The WHERE clause of a scoped query: the row passes the policy set by \<open>connect(org_id)\<close>, it
  satisfies the query's own condition \<open>P\<close>, and its org column \<open>k\<close> is the caller's.
\<close>

definition scoped :: "auth_context \<Rightarrow> ('r \<Rightarrow> pystr) \<Rightarrow> ('r \<Rightarrow> bool) \<Rightarrow> 'r \<Rightarrow> bool" where
  "scoped ctx k P r \<longleftrightarrow> rls (Some (ctx_org ctx)) (k r) \<and> P r \<and> k r = ctx_org ctx"

lemma scoped_eq: "scoped ctx k P = (\<lambda>r. P r \<and> k r = ctx_org ctx)"
  by (auto simp: scoped_def fun_eq_iff)

lemma scoped_iff [table_simps]: "scoped ctx k P r \<longleftrightarrow> P r \<and> k r = ctx_org ctx"
  by (simp add: scoped_eq)

section \<open>What a tenant owns\<close>

definition is_member :: "db \<Rightarrow> pystr \<Rightarrow> pystr \<Rightarrow> bool" where
  "is_member s u org \<longleftrightarrow> exists_where (\<lambda>m. m_user m = u \<and> m_org m = org) (memberships s)"

definition group_in :: "db \<Rightarrow> pystr \<Rightarrow> pystr \<Rightarrow> bool" where
  "group_in s gid org \<longleftrightarrow> exists_where (\<lambda>g. g_id g = gid \<and> g_org g = org) (groups s)"

text \<open>
  The part of the database that belongs to one organisation, itself a database: its rows of
  every org-scoped table, the users who are its members, and the members of its groups.
  The deployment-wide spend total belongs to nobody.
\<close>

definition view :: "pystr \<Rightarrow> db \<Rightarrow> db" where
  "view org s = \<lparr>orgs = select_where (\<lambda>x. o_id x = org) (orgs s),
     users = select_where (\<lambda>u. is_member s (u_id u) org) (users s),
     memberships = select_where (\<lambda>m. m_org m = org) (memberships s),
     groups = select_where (\<lambda>g. g_org g = org) (groups s),
     group_members = select_where (\<lambda>m. group_in s (gm_group m) org) (group_members s),
     sessions = select_where (\<lambda>x. s_org x = org) (sessions s),
     documents = select_where (\<lambda>d. d_org d = org) (documents s),
     chunks = select_where (\<lambda>c. c_org c = org) (chunks s),
     jobs = select_where (\<lambda>j. j_org j = org) (jobs s),
     answers = select_where (\<lambda>a. a_org a = org) (answers s),
     feedback = select_where (\<lambda>f. f_org f = org) (feedback s),
     audit_log = select_where (\<lambda>l. l_org l = org) (audit_log s),
     platform_spend = []\<rparr>"

lemma db_eqI:
  assumes "orgs a = orgs b" "users a = users b" "memberships a = memberships b"
    "groups a = groups b" "group_members a = group_members b" "sessions a = sessions b"
    "documents a = documents b" "chunks a = chunks b" "jobs a = jobs b" "answers a = answers b"
    "feedback a = feedback b" "audit_log a = audit_log b" "platform_spend a = platform_spend b"
  shows "a = (b :: db)"
  using assms by simp

section \<open>Home organisations\<close>

text \<open>
  \<open>add_member\<close> only ever creates users and \<open>purge_stranded_users\<close> removes the ones left
  without a membership, so a user belongs to exactly one organisation for life, and every row
  that names a user and an organisation names the user's own.  The accounts and tenancy
  operations keep this invariant; isolation between tenants rests on it.
\<close>

definition group_home_ok :: "db \<Rightarrow> bool" where
  "group_home_ok s \<longleftrightarrow> (\<forall>m\<in>set (group_members s). \<forall>g\<in>set (groups s).
     g_id g = gm_group m \<longrightarrow> is_member s (gm_user m) (g_org g))"

definition home_refs :: "db \<Rightarrow> bool" where
  "home_refs s \<longleftrightarrow>
     distinct (map m_user (memberships s))
   \<and> refs (\<lambda>x. (s_user x, s_org x)) (sessions s) (\<lambda>m. (m_user m, m_org m)) (memberships s)
   \<and> refs (\<lambda>a. (a_user a, a_org a)) (answers s) (\<lambda>m. (m_user m, m_org m)) (memberships s)
   \<and> refs (\<lambda>f. (f_user f, f_org f)) (feedback s) (\<lambda>m. (m_user m, m_org m)) (memberships s)
   \<and> refs (\<lambda>f. (f_answer f, f_org f)) (feedback s) (\<lambda>a. (a_id a, a_org a)) (answers s)
   \<and> refs (\<lambda>c. (c_doc c, c_org c)) (chunks s) (\<lambda>d. (d_id d, d_org d)) (documents s)
   \<and> refs_opt (\<lambda>l. map_option (\<lambda>u. (u, l_org l)) (l_actor l)) (audit_log s)
       (\<lambda>m. (m_user m, m_org m)) (memberships s)
   \<and> group_home_ok s"

definition housed :: "db \<Rightarrow> bool" where
  "housed s \<longleftrightarrow> refs u_id (users s) m_user (memberships s)"

definition home_ok :: "db \<Rightarrow> bool" where
  "home_ok s \<longleftrightarrow> home_refs s \<and> housed s"

text \<open>Every organisation keeps an owner.\<close>

definition is_owner :: "membership_row \<Rightarrow> bool" where
  "is_owner m \<longleftrightarrow> m_role m = r_owner"

definition owners_ok :: "db \<Rightarrow> bool" where
  "owners_ok s \<longleftrightarrow> (\<forall>org\<in>set (orgs s). \<exists>m\<in>set (memberships s). m_org m = o_id org \<and> is_owner m)"

definition roles_ok :: "db \<Rightarrow> bool" where
  "roles_ok s \<longleftrightarrow> (\<forall>m\<in>set (memberships s). known_role (m_role m))"

definition db_ok :: "db \<Rightarrow> bool" where
  "db_ok s \<longleftrightarrow> keys_ok s \<and> refs_ok s \<and> home_ok s \<and> owners_ok s \<and> roles_ok s"

lemma db_okD:
  assumes "db_ok s"
  shows "keys_ok s" "refs_ok s" "home_ok s" "owners_ok s" "roles_ok s"
  using assms by (simp_all add: db_ok_def)

lemma db_okI:
  "keys_ok s \<Longrightarrow> refs_ok s \<Longrightarrow> home_ok s \<Longrightarrow> owners_ok s \<Longrightarrow> roles_ok s \<Longrightarrow> db_ok s"
  by (simp add: db_ok_def)

lemma db_ok_empty: "db_ok empty_db"
  by (simp_all add: db_ok_def keys_ok_def refs_ok_def home_ok_def home_refs_def housed_def
      group_home_ok_def owners_ok_def roles_ok_def empty_db_def id_defs)

lemma is_member_iff: "is_member s u org \<longleftrightarrow> (\<exists>m\<in>set (memberships s). m_user m = u \<and> m_org m = org)"
  by (simp add: is_member_def table_simps)

lemma group_in_iff: "group_in s gid org \<longleftrightarrow> (\<exists>g\<in>set (groups s). g_id g = gid \<and> g_org g = org)"
  by (simp add: group_in_def table_simps)

lemma member_is_user: "refs_ok s \<Longrightarrow> m \<in> set (memberships s) \<Longrightarrow> m_user m \<in> u_id ` set (users s)"
  by (simp add: refs_ok_def refs_def)

lemma member_org_exists: "refs_ok s \<Longrightarrow> m \<in> set (memberships s) \<Longrightarrow> m_org m \<in> o_id ` set (orgs s)"
  by (simp add: refs_ok_def refs_def)

lemmas home_defs = home_ok_def home_refs_def housed_def group_home_ok_def

lemma one_home:
  assumes "home_refs s" and "is_member s u a" and "is_member s u b"
  shows "a = b"
  using assms by (auto simp: home_refs_def is_member_iff dest: distinct_key_eq)

lemma group_one_org:
  assumes "keys_ok s" and "group_in s gid a" and "group_in s gid b"
  shows "a = b"
  using assms by (auto simp: keys_ok_def id_defs group_in_iff dest: distinct_key_eq)

section \<open>Deleting users\<close>

text \<open>
  Deleting users cascades to everything that names them.  Because those rows live in the
  users' home organisation, no other tenant's view changes.
\<close>

lemma delete_users_fields:
  "orgs (delete_users P s) = orgs s" "groups (delete_users P s) = groups s"
  "documents (delete_users P s) = documents s" "chunks (delete_users P s) = chunks s"
  "jobs (delete_users P s) = jobs s" "platform_spend (delete_users P s) = platform_spend s"
  "users (delete_users P s) = delete_where P (users s)"
  by (simp_all add: delete_users_def delete_answers_def Let_def)

lemma refs_delete_pair:
  assumes "refs (\<lambda>x. (u x, v x)) xs (\<lambda>y. (k y, l y)) ys"
  shows "refs (\<lambda>x. (u x, v x)) (delete_where (\<lambda>x. u x \<in> G) xs)
           (\<lambda>y. (k y, l y)) (delete_where (\<lambda>y. k y \<in> G) ys)"
    and "refs (\<lambda>x. (u x, v x)) (delete_where (\<lambda>x. v x \<in> G) xs)
           (\<lambda>y. (k y, l y)) (delete_where (\<lambda>y. l y \<in> G) ys)"
  using assms by (auto intro!: refs_delete_both)

lemma refs_delete_pair_parent:
  assumes "refs (\<lambda>x. (u x, v x)) xs (\<lambda>y. (k y, l y)) ys"
  shows "refs (\<lambda>x. (u x, v x)) (delete_where (\<lambda>x. u x \<in> set (map k (select_where P ys))) xs)
           (\<lambda>y. (k y, l y)) (delete_where P ys)"
  using assms by (rule refs_delete_both) (auto simp: table_simps image_iff)

lemma audit_home_delete:
  assumes "refs_opt (\<lambda>l. map_option (\<lambda>u. (u, l_org l)) (l_actor l)) xs (\<lambda>m. (m_user m, m_org m)) ys"
  shows "refs_opt (\<lambda>l. map_option (\<lambda>u. (u, l_org l)) (l_actor l))
           (update_where (\<lambda>l. \<exists>u\<in>G. l_actor l = Some u) (\<lambda>l. l\<lparr>l_actor := None\<rparr>) xs)
           (\<lambda>m. (m_user m, m_org m)) (delete_where (\<lambda>m. m_user m \<in> G) ys)"
  using assms by (rule refs_opt_update_both) (auto split: if_splits)

lemma group_home_delete_users:
  assumes "group_home_ok s"
  shows "group_home_ok (delete_users P s)"
  using assms unfolding group_home_ok_def is_member_iff delete_users_def delete_answers_def Let_def
  by (simp add: table_simps image_iff) metis

lemma home_refs_delete_users:
  assumes "home_refs s"
  shows "home_refs (delete_users P s)"
proof -
  let ?gone = "set (map u_id (select_where P (users s)))"
  have "refs (\<lambda>f. (f_answer f, f_org f))
          (delete_where (\<lambda>f. f_user f \<in> ?gone)
            (delete_where (\<lambda>f. f_answer f \<in> set (map a_id (select_where (\<lambda>a. a_user a \<in> ?gone) (answers s))))
              (feedback s)))
          (\<lambda>a. (a_id a, a_org a)) (delete_where (\<lambda>a. a_user a \<in> ?gone) (answers s))"
    using assms by (intro refs_delete_child refs_delete_pair_parent) (simp add: home_refs_def)
  moreover have "refs (\<lambda>f. (f_user f, f_org f))
          (delete_where (\<lambda>f. f_user f \<in> ?gone)
            (delete_where (\<lambda>f. f_answer f \<in> set (map a_id (select_where (\<lambda>a. a_user a \<in> ?gone) (answers s))))
              (feedback s)))
          (\<lambda>m. (m_user m, m_org m)) (delete_where (\<lambda>m. m_user m \<in> ?gone) (memberships s))"
    using assms by (intro refs_delete_pair(1) refs_delete_child) (simp add: home_refs_def)
  ultimately show ?thesis
    using assms group_home_delete_users [of s P]
    unfolding home_refs_def
    by (simp add: delete_users_def delete_answers_def Let_def distinct_delete_where
        refs_delete_pair audit_home_delete del: set_map)
qed

lemma home_refsD:
  assumes "home_refs s"
  shows "distinct (map m_user (memberships s))"
    and "x \<in> set (sessions s) \<Longrightarrow> is_member s (s_user x) (s_org x)"
    and "a \<in> set (answers s) \<Longrightarrow> is_member s (a_user a) (a_org a)"
    and "f \<in> set (feedback s) \<Longrightarrow> is_member s (f_user f) (f_org f)"
    and "f \<in> set (feedback s) \<Longrightarrow> \<exists>a\<in>set (answers s). a_id a = f_answer f \<and> a_org a = f_org f"
    and "c \<in> set (chunks s) \<Longrightarrow> \<exists>d\<in>set (documents s). d_id d = c_doc c \<and> d_org d = c_org c"
    and "l \<in> set (audit_log s) \<Longrightarrow> l_actor l = Some u \<Longrightarrow> is_member s u (l_org l)"
    and "m \<in> set (group_members s) \<Longrightarrow> group_in s (gm_group m) org \<Longrightarrow> is_member s (gm_user m) org"
  using assms unfolding home_refs_def group_home_ok_def is_member_iff group_in_iff refs_def refs_opt_def
  by (fastforce simp: image_iff)+

text \<open>A deleted user that is not a member of an organisation is in none of its rows.\<close>

lemma delete_users_view:
  assumes "home_refs s" and "keys_ok s" and out: "\<And>x. x \<in> set (users s) \<Longrightarrow> P x \<Longrightarrow> \<not> is_member s (u_id x) org"
  shows "view org (delete_users P s) = view org s"
proof (rule db_eqI)
  define gone where "gone = set (map u_id (select_where P (users s)))"
  note home = home_refsD [OF assms(1)]
  have after: "delete_users P s = (delete_answers (\<lambda>a. a_user a \<in> gone) s)\<lparr>users := delete_where P (users s),
         memberships := delete_where (\<lambda>m. m_user m \<in> gone) (memberships s),
         group_members := delete_where (\<lambda>m. gm_user m \<in> gone) (group_members s),
         sessions := delete_where (\<lambda>x. s_user x \<in> gone) (sessions s),
         feedback := delete_where (\<lambda>f. f_user f \<in> gone) (feedback (delete_answers (\<lambda>a. a_user a \<in> gone) s)),
         audit_log := update_where (\<lambda>l. \<exists>u\<in>gone. l_actor l = Some u)
                        (\<lambda>l. l\<lparr>l_actor := None\<rparr>) (audit_log s)\<rparr>"
    by (simp add: delete_users_def Let_def gone_def)
  have out': "\<not> is_member s u org" if "u \<in> gone" for u
    using out that by (auto simp: table_simps gone_def)
  have member: "is_member (delete_users P s) u org \<longleftrightarrow> is_member s u org" for u
    using out' by (auto simp: is_member_iff after table_simps)
  have groups: "group_in (delete_users P s) = group_in s"
    by (auto simp: fun_eq_iff group_in_iff delete_users_fields)
  have ans: "f_org f \<noteq> org" if f: "f \<in> set (feedback s)"
    and hit: "f_answer f \<in> a_id ` set (select_where (\<lambda>a. a_user a \<in> gone) (answers s))" for f
  proof
    assume "f_org f = org"
    obtain a where a: "a \<in> set (answers s)" "a_id a = f_answer f" "a_user a \<in> gone"
      using hit by (auto simp: table_simps)
    obtain b where b: "b \<in> set (answers s)" "a_id b = f_answer f" "a_org b = f_org f"
      using home(5) [OF f] by blast
    have "a = b" using assms(2) a b by (auto simp: keys_ok_def id_defs dest: distinct_key_eq)
    with home(3) [OF b(1)] out' [OF a(3)] b(3) \<open>f_org f = org\<close> show False by simp
  qed
  show "users (view org (delete_users P s)) = users (view org s)"
    unfolding view_def member by (simp add: after, rule select_delete_disjoint) (use out in blast)
  show "memberships (view org (delete_users P s)) = memberships (view org s)"
    by (simp add: view_def after, rule select_delete_disjoint) (use out' in \<open>auto simp: is_member_iff\<close>)
  show "group_members (view org (delete_users P s)) = group_members (view org s)"
    unfolding view_def groups by (simp add: after, rule select_delete_disjoint) (use home(8) out' in blast)
  show "sessions (view org (delete_users P s)) = sessions (view org s)"
    by (simp add: view_def after, rule select_delete_disjoint) (use home(2) out' in blast)
  show "answers (view org (delete_users P s)) = answers (view org s)"
    by (simp add: view_def after delete_answers_def Let_def, rule select_delete_disjoint) (use home(3) out' in blast)
  have inner: "select_where (\<lambda>f. f_org f = org) (delete_where
         (\<lambda>f. f_answer f \<in> a_id ` set (select_where (\<lambda>a. a_user a \<in> gone) (answers s))) (feedback s))
      = select_where (\<lambda>f. f_org f = org) (feedback s)"
    by (rule select_delete_disjoint) (use ans in blast)
  have outer: "select_where (\<lambda>f. f_org f = org) (delete_where (\<lambda>f. f_user f \<in> gone) (delete_where Q (feedback s)))
      = select_where (\<lambda>f. f_org f = org) (delete_where Q (feedback s))" for Q
    by (rule select_delete_disjoint) (use home(4) out' in \<open>auto simp: table_simps\<close>)
  show "feedback (view org (delete_users P s)) = feedback (view org s)"
    by (simp add: view_def after delete_answers_def Let_def outer inner)
  show "audit_log (view org (delete_users P s)) = audit_log (view org s)"
    by (simp add: view_def after, rule select_update_disjoint) (use home(7) out' in auto)
qed (simp_all add: view_def delete_users_fields)

end
