(* ===== verification/Jobs.thy ===== *)
theory Jobs
  imports Access
begin

text \<open>
  \<open>jobs.py\<close>: the Postgres-backed queue.  Each function is one transaction whose \<open>now()\<close> is
  the argument \<open>now\<close>; a fresh job id is the argument \<open>fresh\<close>.  The row \<open>claim_one\<close> locks is
  the first of the table among those with the least \<open>created_at\<close>.
\<close>

section \<open>Operations\<close>

definition seconds :: "int \<Rightarrow> time" where
  "seconds n = n * 1000000"

definition insert_job :: "job_row \<Rightarrow> db \<Rightarrow> sql_error + (bool \<times> db)" where
  "insert_job row s =
     (if exists_where (\<lambda>j. j_key j = j_key row) (jobs s) then Inr (False, s)
      else if exists_where (\<lambda>j. j_id j = j_id row) (jobs s) then Inl UniqueViolation
      else if j_org row \<notin> set (org_ids s) then Inl ForeignKeyViolation
      else Inr (True, s\<lparr>jobs := jobs s @ [row]\<rparr>))"

definition enqueue ::
  "int \<Rightarrow> pystr \<Rightarrow> pystr \<Rightarrow> (pystr \<times> pystr) list \<Rightarrow> pystr \<Rightarrow> int option \<Rightarrow> pystr \<Rightarrow> time \<Rightarrow> db
    \<Rightarrow> exc + (bool \<times> db)" where
  "enqueue job_max_attempts org kind payload key max_attempts fresh now s =
     db_raise (insert_job
       \<lparr>j_id = fresh, j_org = org, j_kind = kind, j_payload = payload, j_key = key, j_status = JQueued,
        j_attempts = 0,
        j_max = (case max_attempts of Some n \<Rightarrow> (if n = 0 then job_max_attempts else n)
                  | None \<Rightarrow> job_max_attempts),
        j_error = None, j_run_after = now, j_created = now, j_updated = now\<rparr> s)"

definition due_job :: "int \<Rightarrow> time \<Rightarrow> job_row \<Rightarrow> bool" where
  "due_job stale_after now j \<longleftrightarrow>
     (j_status j = JQueued \<and> j_run_after j \<le> now)
   \<or> (j_status j = JRunning \<and> j_updated j < now - seconds stale_after)"

definition due_jobs :: "int \<Rightarrow> time \<Rightarrow> db \<Rightarrow> job_row list" where
  "due_jobs stale_after now s = select_where (due_job stale_after now) (jobs s)"

definition start_job :: "time \<Rightarrow> job_row \<Rightarrow> job_row" where
  "start_job now j = j\<lparr>j_status := JRunning, j_attempts := j_attempts j + 1, j_updated := now\<rparr>"

definition claim_one :: "int \<Rightarrow> time \<Rightarrow> db \<Rightarrow> (job_row \<times> db) option" where
  "claim_one stale_after now s =
     (case sort_key j_created (due_jobs stale_after now s) of
        [] \<Rightarrow> None
      | j # _ \<Rightarrow>
          Some (start_job now j,
                s\<lparr>jobs := update_where (\<lambda>r. j_id r = j_id j) (start_job now) (jobs s)\<rparr>))"

definition due_times :: "int \<Rightarrow> db \<Rightarrow> time list" where
  "due_times stale_after s =
     map j_run_after (select_where (\<lambda>j. j_status j = JQueued) (jobs s)) @
     map (\<lambda>j. j_updated j + seconds stale_after) (select_where (\<lambda>j. j_status j = JRunning) (jobs s))"

definition seconds_until_due :: "int \<Rightarrow> time \<Rightarrow> db \<Rightarrow> real option" where
  "seconds_until_due stale_after now s =
     (case due_times stale_after s of
        [] \<Rightarrow> None
      | ts \<Rightarrow> Some (max 0 (real_of_int (Min (set ts) - now) / 1000000)))"

definition mark_succeeded :: "pystr \<Rightarrow> time \<Rightarrow> db \<Rightarrow> db" where
  "mark_succeeded job_id now s =
     s\<lparr>jobs := update_where (\<lambda>j. j_id j = job_id)
        (\<lambda>j. j\<lparr>j_status := JSucceeded, j_error := None, j_updated := now\<rparr>) (jobs s)\<rparr>"

definition backoff_seconds :: "int \<Rightarrow> int" where
  "backoff_seconds attempts = (if attempts < 0 then 0 else min 300 (2 ^ nat attempts))"

definition mark_failed ::
  "pystr \<Rightarrow> pystr \<Rightarrow> int option \<Rightarrow> time \<Rightarrow> db \<Rightarrow> job_status \<times> db" where
  "mark_failed job_id error backoff now s =
     (case find (\<lambda>j. j_id j = job_id) (jobs s) of
        None \<Rightarrow> (JDead, s)
      | Some job \<Rightarrow>
          (if j_max job \<le> j_attempts job
           then (JDead, s\<lparr>jobs := update_where (\<lambda>j. j_id j = job_id)
                  (\<lambda>j. j\<lparr>j_status := JDead, j_error := Some error, j_updated := now\<rparr>) (jobs s)\<rparr>)
           else
             let delay = (case backoff of None \<Rightarrow> backoff_seconds (j_attempts job) | Some d \<Rightarrow> d) in
             (JQueued, s\<lparr>jobs := update_where (\<lambda>j. j_id j = job_id)
                (\<lambda>j. j\<lparr>j_status := JQueued, j_error := Some error,
                      j_run_after := now + seconds delay, j_updated := now\<rparr>) (jobs s)\<rparr>)))"

section \<open>The queue on its own\<close>

lemma insert_job_Inr [result_simps]:
  "insert_job row s = Inr (b, s') \<longleftrightarrow>
     (if j_key row \<in> j_key ` set (jobs s) then \<not> b \<and> s' = s
      else b \<and> j_id row \<notin> j_id ` set (jobs s) \<and> j_org row \<in> o_id ` set (orgs s)
           \<and> s' = s\<lparr>jobs := jobs s @ [row]\<rparr>)"
  unfolding insert_job_def exists_where_iff id_defs set_map image_iff by (auto; metis)

lemma backoff_bounds: "0 \<le> backoff_seconds n \<and> backoff_seconds n \<le> 300"
  by (simp add: backoff_seconds_def)

lemma backoff_pos: "0 \<le> n \<Longrightarrow> 1 \<le> backoff_seconds n"
  by (simp add: backoff_seconds_def)

lemma backoff_mono: "a \<le> b \<Longrightarrow> backoff_seconds a \<le> backoff_seconds b"
  by (auto simp: backoff_seconds_def min_def nat_mono power_increasing intro: order_trans)

lemma claim_one_None [result_simps]: "claim_one stale now s = None \<longleftrightarrow> due_jobs stale now s = []"
  by (cases "sort_key j_created (due_jobs stale now s)") (simp_all add: claim_one_def, metis list.discI sort_key_Nil)

lemma claim_one_Some:
  assumes "claim_one stale now s = Some (job, s')"
  obtains j where "j \<in> set (jobs s)" "due_job stale now j" "job = start_job now j"
    "\<And>r. r \<in> set (jobs s) \<Longrightarrow> due_job stale now r \<Longrightarrow> j_created j \<le> j_created r"
    "s' = s\<lparr>jobs := update_where (\<lambda>r. j_id r = j_id j) (start_job now) (jobs s)\<rparr>"
proof -
  obtain j rest where j: "sort_key j_created (due_jobs stale now s) = j # rest"
    and job: "job = start_job now j"
    and s': "s' = s\<lparr>jobs := update_where (\<lambda>r. j_id r = j_id j) (start_job now) (jobs s)\<rparr>"
    using assms by (auto simp: claim_one_def split: list.splits)
  have set_eq: "set (j # rest) = set (due_jobs stale now s)" by (metis j set_sort)
  have "sorted (map j_created (j # rest))" by (metis j sorted_sort_key)
  then have "\<And>r. r \<in> set (j # rest) \<Longrightarrow> j_created j \<le> j_created r" by auto
  with set_eq that [of j] job s' show thesis by (auto simp: due_jobs_def table_simps)
qed

text \<open>Only the named job's row changes, and no key of the table does.\<close>

lemma jobs_db_ok:
  assumes "db_ok s" and "map j_id js = map j_id (jobs s)" "map j_key js = map j_key (jobs s)"
    and "refs j_org js o_id (orgs s)"
  shows "db_ok (s\<lparr>jobs := js\<rparr>)"
  using assms by (simp add: db_ok_def keys_ok_def id_defs refs_ok_def home_defs is_member_def
      owners_ok_def roles_ok_def)

lemma update_jobs_db_ok:
  assumes "db_ok s" and "\<And>j. j_id (f j) = j_id j" "\<And>j. j_key (f j) = j_key j" "\<And>j. j_org (f j) = j_org j"
  shows "db_ok (s\<lparr>jobs := update_where P f (jobs s)\<rparr>)"
  using assms db_okD(2) [OF assms(1)]
  by (intro jobs_db_ok) (simp_all add: map_update_where refs_ok_def refs_update_child)

lemma start_job_fields [simp]:
  "j_id (start_job now j) = j_id j" "j_key (start_job now j) = j_key j" "j_org (start_job now j) = j_org j"
  "j_status (start_job now j) = JRunning" "j_attempts (start_job now j) = j_attempts j + 1"
  "j_max (start_job now j) = j_max j" "j_kind (start_job now j) = j_kind j"
  "j_payload (start_job now j) = j_payload j" "j_updated (start_job now j) = now"
  by (simp_all add: start_job_def)

lemma claim_one_db_ok: "claim_one stale now s = Some (job, s') \<Longrightarrow> db_ok s \<Longrightarrow> db_ok s'"
  by (erule claim_one_Some) (simp add: update_jobs_db_ok)

lemma mark_succeeded_db_ok: "db_ok s \<Longrightarrow> db_ok (mark_succeeded job_id now s)"
  by (simp add: mark_succeeded_def update_jobs_db_ok)

lemma mark_failed_db_ok: "mark_failed job_id e b now s = (st, s') \<Longrightarrow> db_ok s \<Longrightarrow> db_ok s'"
  by (auto simp: mark_failed_def Let_def update_jobs_db_ok split: option.splits if_splits)

lemma enqueue_db_ok:
  assumes "enqueue m org kind payload key ma fresh now s = Inr (b, s')" and "db_ok s"
  shows "db_ok s'"
  using assms(1) assms(2)
  by (auto simp: enqueue_def result_simps db_ok_def keys_ok_def id_defs refs_ok_def home_defs
      is_member_def owners_ok_def roles_ok_def refs_append_iff refs_single split: if_splits)

end
