(* ===== verification/Chunking.thy ===== *)
theory Chunking
  imports Errors
begin

text \<open>
  \<open>chunking.py\<close>: fixed character windows with overlap.  The settings' defaults and the
  caller's overrides are arguments; integers are Python's.  \<open>py_range\<close> is \<open>range(0, stop, step)\<close>
  for a positive step, and \<open>chunk_pieces\<close> is the loop over it with its early \<open>break\<close>.
\<close>

definition py_range :: "nat \<Rightarrow> nat \<Rightarrow> nat list" where
  "py_range stop step = map (\<lambda>i. i * step) [0..<(stop + step - 1) div step]"

fun chunk_pieces :: "nat \<Rightarrow> pystr \<Rightarrow> nat list \<Rightarrow> pystr list" where
  "chunk_pieces width text [] = []"
| "chunk_pieces width text (start # rest) =
     (let piece = strip (take width (drop start text)) in
      (if piece \<noteq> [] then [piece] else []) @
      (if length text \<le> start + width then [] else chunk_pieces width text rest))"

definition chunk_text :: "int \<Rightarrow> int \<Rightarrow> pystr \<Rightarrow> int option \<Rightarrow> int option \<Rightarrow> exc + pystr list" where
  "chunk_text chunk_size chunk_overlap text0 size_arg overlap_arg =
     (let width = (case size_arg of Some n \<Rightarrow> (if n = 0 then chunk_size else n) | None \<Rightarrow> chunk_size);
          overlap = (case overlap_arg of None \<Rightarrow> chunk_overlap | Some n \<Rightarrow> n) in
      if width \<le> 0 then Inl (ValueError (ascii ''chunk size must be positive''))
      else if width \<le> overlap then Inl (ValueError (ascii ''overlap must be smaller than size''))
      else
        let text = strip text0 in
        if text = [] then Inr []
        else Inr (chunk_pieces (nat width) text (py_range (length text) (nat (width - overlap)))))"

section \<open>Bounds\<close>

lemma strip_idem [simp]: "strip (strip s) = strip s"
proof -
  have drop: "lstrip (lstrip x) = lstrip x" for x
    by (induction x) (simp_all add: lstrip_def)
  have keep: "lstrip (strip x) = strip x" for x
  proof (cases "strip x")
    case (Cons c cs)
    obtain post where "lstrip x = strip x @ post"
      unfolding strip_def by (metis lstrip_suffix rev_append rev_rev_ident)
    then have "lstrip x \<noteq> [] \<and> hd (lstrip x) = c" by (simp add: Cons)
    then have "\<not> is_space c" by (metis hd_dropWhile lstrip_def)
    then show ?thesis by (simp add: Cons lstrip_def)
  qed (simp add: lstrip_def)
  show ?thesis by (simp add: strip_def [of "strip s"] keep) (simp add: strip_def drop)
qed

lemma length_strip: "length (strip s) \<le> length s"
  using strip_infix [of s] by (metis length_append le_add1 le_add2 order_trans)

lemma chunk_pieces_bounds:
  assumes "c \<in> set (chunk_pieces width text starts)"
  shows "c \<noteq> [] \<and> length c \<le> width \<and> strip c = c"
  using assms
proof (induction starts)
  case (Cons start rest)
  have "length (strip (take width (drop start text))) \<le> width"
    by (rule order_trans [OF length_strip]) simp
  with Cons show ?case by (auto simp: Let_def split: if_splits)
qed simp

lemma chunk_pieces_length: "length (chunk_pieces width text starts) \<le> length starts"
  by (induction starts) (auto simp: Let_def)

section \<open>Coverage\<close>

text \<open>\<open>occurs c text i\<close>: the text contains \<open>c\<close> at an offset that includes position \<open>i\<close>.\<close>

definition occurs :: "pystr \<Rightarrow> pystr \<Rightarrow> nat \<Rightarrow> bool" where
  "occurs c text i \<longleftrightarrow> (\<exists>p\<le>i. i < p + length c \<and> take (length c) (drop p text) = c)"

lemma occurs_strip:
  assumes "start \<le> i" "i < start + width" "i < length text" "\<not> is_space (text ! i)"
  shows "occurs (strip (take width (drop start text))) text i"
proof -
  let ?w = "take width (drop start text)"
  obtain pre post where w: "?w = pre @ strip ?w @ post"
    and sp: "\<forall>c\<in>set pre. is_space c" "\<forall>c\<in>set post. is_space c"
    using strip_infix by blast
  let ?j = "i - start"
  have j: "?j < length ?w" "?w ! ?j = text ! i" using assms by auto
  have pre: "length pre \<le> ?j"
  proof (rule ccontr)
    assume "\<not> ?thesis"
    then have "?w ! ?j \<in> set pre" by (subst w) (simp add: nth_append)
    with sp(1) j(2) assms(4) show False by auto
  qed
  have post: "?j < length pre + length (strip ?w)"
  proof (rule ccontr)
    define c where "c = strip ?w"
    assume out: "\<not> ?thesis"
    then have "length pre + length c \<le> ?j" by (simp add: c_def)
    then obtain k where k: "?j = length pre + length c + k" using le_Suc_ex by blast
    then have "(pre @ c @ post) ! ?j = post ! k" by (simp add: nth_append)
    moreover have "length ?w = length pre + length c + length post"
      using arg_cong [OF w, of length] by (simp only: length_append c_def add.assoc)
    with j(1) k have "k < length post" by linarith
    ultimately have "?w ! ?j \<in> set post" using w unfolding c_def [symmetric] by (metis nth_mem)
    with sp(2) j(2) assms(4) show False by metis
  qed
  have "take (length c) (drop (length pre) x) = c" if "x = pre @ c @ post" for x c
    using that by simp
  from this [OF w] have "take (length (strip ?w)) (drop (length pre) ?w) = strip ?w" .
  moreover have "length (strip ?w) \<le> width - length pre"
    using arg_cong [OF w, of length] by simp
  ultimately have "take (length (strip ?w)) (drop (start + length pre) text) = strip ?w"
    by (simp add: drop_take add.commute min_def split: if_splits)
  with pre post assms(1) show ?thesis
    unfolding occurs_def by (intro exI [of _ "start + length pre"]) auto
qed

lemma py_range_from:
  fixes a step stop :: nat
  assumes "0 < step" and "a * step < stop"
  shows "a < (stop + step - 1) div step"
proof -
  have "Suc a * step \<le> stop + step - 1" using assms by simp
  then have "Suc a \<le> (stop + step - 1) div step"
    using assms(1) by (metis div_le_mono nonzero_mult_div_cancel_right not_gr_zero)
  then show ?thesis by simp
qed

lemma chunk_pieces_cover:
  assumes "0 < step" "step \<le> width" and i: "i < length text" "\<not> is_space (text ! i)" and "a * step \<le> i"
  shows "\<exists>c\<in>set (chunk_pieces width text (map (\<lambda>i. i * step) [a..<(length text + step - 1) div step])).
           occurs c text i"
  using assms(5)
proof (induction "i - a * step" arbitrary: a rule: less_induct)
  case less
  let ?n = "(length text + step - 1) div step"
  have "a < ?n" using py_range_from [OF assms(1)] less.prems i(1) by simp
  then have starts: "[a..<?n] = a # [Suc a..<?n]" by (rule upt_conv_Cons)
  show ?case
  proof (cases "i < a * step + width")
    case True
    with occurs_strip [OF less.prems True i] have "strip (take width (drop (a * step) text)) \<noteq> []"
      by (auto simp: occurs_def)
    with occurs_strip [OF less.prems True i] show ?thesis unfolding starts by (simp add: Let_def)
  next
    case False
    with assms(2) have next_ok: "Suc a * step \<le> i" by simp
    then have "i - Suc a * step < i - a * step" using assms(1) by simp
    from less.hyps [OF this next_ok] obtain c
      where "c \<in> set (chunk_pieces width text (map (\<lambda>i. i * step) [Suc a..<?n]))" "occurs c text i"
      by blast
    with False i(1) show ?thesis unfolding starts by (auto simp: Let_def)
  qed
qed

text \<open>
  The loop of the source with its default arguments: what \<open>process_ingest_document\<close> calls.
\<close>

lemma chunk_text_Inr:
  assumes "chunk_text cs co text sa oa = Inr chunks"
  obtains width overlap where "0 < width" "overlap < width"
    "width = (case sa of Some n \<Rightarrow> if n = 0 then cs else n | None \<Rightarrow> cs)"
    "overlap = (case oa of None \<Rightarrow> co | Some n \<Rightarrow> n)"
    "chunks = chunk_pieces (nat width) (strip text) (py_range (length (strip text)) (nat (width - overlap)))"
  using assms by (fastforce simp: chunk_text_def Let_def py_range_def split: if_splits)

section \<open>Reassembly\<close>

definition inked :: "pystr \<Rightarrow> pystr" where
  "inked s = filter (\<lambda>c. \<not> is_space c) s"

lemma inked_append [simp]: "inked (a @ b) = inked a @ inked b"
  by (simp add: inked_def)

lemma inked_strip [simp]: "inked (strip s) = inked s"
proof -
  obtain pre post where s: "s = pre @ strip s @ post"
    and "\<forall>c\<in>set pre. is_space c" "\<forall>c\<in>set post. is_space c"
    using strip_infix [of s] by blast
  then have "inked pre = []" "inked post = []" by (simp_all add: inked_def filter_empty_conv)
  then show ?thesis by (subst (2) s) simp
qed

lemma chunk_pieces_reassemble:
  assumes "0 < width" "a * width \<le> length text" "n = (length text + width - 1) div width"
  shows "inked (concat (chunk_pieces width text (map (\<lambda>i. i * width) [a..<n]))) = inked (drop (a * width) text)"
  using assms(2)
proof (induction "length text - a * width" arbitrary: a rule: less_induct)
  case less
  have iff: "a < n \<longleftrightarrow> a * width < length text"
  proof
    show "a < n" if "a * width < length text" using py_range_from [OF assms(1) that] assms(3) by simp
    show "a * width < length text" if "a < n"
    proof (rule ccontr)
      assume "\<not> a * width < length text"
      then have "length text + width - 1 < Suc a * width" using assms(1) by simp
      then have "n < Suc a" unfolding assms(3) div_less_iff_less_mult [OF assms(1)] .
      with that less.prems \<open>\<not> a * width < length text\<close> show False by simp
    qed
  qed
  show ?case
  proof (cases "a < n")
    case True
    then have starts: "[a..<n] = a # [Suc a..<n]" by (rule upt_conv_Cons)
    let ?piece = "take width (drop (a * width) text)"
    have here: "inked (if strip ?piece \<noteq> [] then strip ?piece else []) = inked ?piece"
      by (metis inked_strip)
    have pieces: "chunk_pieces width text (map (\<lambda>i. i * width) [a..<n]) =
        (if strip ?piece \<noteq> [] then [strip ?piece] else []) @
        (if length text \<le> a * width + width then [] else chunk_pieces width text (map (\<lambda>i. i * width) [Suc a..<n]))"
      by (simp add: starts Let_def)
    have "inked (drop (a * width) text) = inked (?piece @ drop width (drop (a * width) text))"
      by (simp only: append_take_drop_id)
    also have "\<dots> = inked ?piece @ inked (drop (Suc a * width) text)" by (simp add: add.commute)
    finally have split: "inked (drop (a * width) text) = inked ?piece @ inked (drop (Suc a * width) text)" .
    show ?thesis
    proof (cases "length text \<le> a * width + width")
      case True
      then have "inked (drop (Suc a * width) text) = []" by (simp add: inked_def add.commute)
      with True here show ?thesis unfolding pieces split by (auto split: if_splits)
    next
      case False
      have "length text - Suc a * width < length text - a * width" using \<open>a < n\<close> iff assms(1) by simp
      with less.hyps [of "Suc a"] False
      have "inked (concat (chunk_pieces width text (map (\<lambda>i. i * width) [Suc a..<n]))) = inked (drop (Suc a * width) text)"
        by simp
      with False here show ?thesis unfolding pieces split by (auto split: if_splits)
    qed
  next
    case False
    with iff less.prems have "drop (a * width) text = []" by simp
    with False show ?thesis by (simp add: inked_def)
  qed
qed



end
