(* ===== verification/Embeddings.thy ===== *)
theory Embeddings
  imports Errors
begin

text \<open>
  \<open>embeddings.py\<close>.  An embedder is a function that may raise.  The mock is modelled in full
  up to sha256 (\<open>digest\<close>) and the draws of Python's seeded generator
  (\<open>uniform seed i\<close>, the \<open>i\<close>-th \<open>rng.uniform(-1.0, 1.0)\<close>); the Voyage client, from texts, model and
  input type to vectors, is the parameter \<open>client\<close>.  The ingest and search models take the embedder as
  a parameter.  Floats are reals.
\<close>

definition EMBED_DIM :: nat where
  "EMBED_DIM = 1024"

definition EMBED_FAIL_MARKER :: pystr where
  "EMBED_FAIL_MARKER = ascii ''[[EMBED-FAIL]]''"

definition unit_vec :: "real list \<Rightarrow> real list" where
  "unit_vec vec =
     (let n = sqrt (\<Sum>x\<leftarrow>vec. x * x); norm = (if n = 0 then 1 else n) in map (\<lambda>x. x / norm) vec)"

definition from_bytes_big :: "nat list \<Rightarrow> nat" where
  "from_bytes_big bs = foldl (\<lambda>n b. n * 256 + b) 0 bs"

definition mock_one :: "(pystr \<Rightarrow> nat list) \<Rightarrow> (nat \<Rightarrow> nat \<Rightarrow> real) \<Rightarrow> pystr \<Rightarrow> exc + real list" where
  "mock_one digest uniform text =
     (if contains EMBED_FAIL_MARKER text
      then Inl (ValueError (ascii ''embedding provider rejected this input''))
      else
        let seed = from_bytes_big (take 8 (digest text)) in
        Inr (unit_vec (map (uniform seed) [0..<EMBED_DIM])))"

fun each :: "('a \<Rightarrow> exc + 'b) \<Rightarrow> 'a list \<Rightarrow> exc + 'b list" where
  "each f [] = Inr []"
| "each f (x # xs) = andthen (f x) (\<lambda>y. andthen (each f xs) (\<lambda>ys. Inr (y # ys)))"

definition mock_embed_documents ::
  "(pystr \<Rightarrow> nat list) \<Rightarrow> (nat \<Rightarrow> nat \<Rightarrow> real) \<Rightarrow> pystr list \<Rightarrow> exc + real list list" where
  "mock_embed_documents digest uniform texts = each (mock_one digest uniform) texts"

definition mock_embed_query :: "(pystr \<Rightarrow> nat list) \<Rightarrow> (nat \<Rightarrow> nat \<Rightarrow> real) \<Rightarrow> pystr \<Rightarrow> exc + real list" where
  "mock_embed_query digest uniform text = mock_one digest uniform text"

type_synonym voyage_client = "pystr list \<Rightarrow> pystr \<Rightarrow> pystr \<Rightarrow> exc + real list list"

definition voyage_embed :: "voyage_client \<Rightarrow> pystr \<Rightarrow> pystr list \<Rightarrow> pystr \<Rightarrow> exc + real list list" where
  "voyage_embed client embed_model texts input_type = client texts embed_model input_type"

definition voyage_embed_documents :: "voyage_client \<Rightarrow> pystr \<Rightarrow> pystr list \<Rightarrow> exc + real list list" where
  "voyage_embed_documents client embed_model texts = voyage_embed client embed_model texts (ascii ''document'')"

definition voyage_embed_query :: "voyage_client \<Rightarrow> pystr \<Rightarrow> pystr \<Rightarrow> exc + real list" where
  "voyage_embed_query client embed_model text =
     andthen (voyage_embed client embed_model [text] (ascii ''query'')) (\<lambda>rows.
       case rows of [] \<Rightarrow> Inl (ExternalError (ascii ''list index out of range'')) | v # _ \<Rightarrow> Inr v)"

text \<open>\<open>get_embedder\<close>, as the pair of the chosen embedder's two methods.\<close>

definition get_embedder ::
  "(pystr \<Rightarrow> nat list) \<Rightarrow> (nat \<Rightarrow> nat \<Rightarrow> real) \<Rightarrow> voyage_client \<Rightarrow> pystr \<Rightarrow> pystr option
     \<Rightarrow> (pystr list \<Rightarrow> exc + real list list) \<times> (pystr \<Rightarrow> exc + real list)" where
  "get_embedder digest uniform client embed_model voyage_api_key =
     (if voyage_api_key \<noteq> None \<and> voyage_api_key \<noteq> Some []
      then (voyage_embed_documents client embed_model, voyage_embed_query client embed_model)
      else (mock_embed_documents digest uniform, mock_embed_query digest uniform))"

text \<open>What ingestion relies on: one vector per text, each of the column's dimension.\<close>

locale embedder =
  fixes embed_docs :: "pystr list \<Rightarrow> exc + real list list"
  assumes one_each: "embed_docs texts = Inr vs \<Longrightarrow> length vs = length texts"
    and dimension: "embed_docs texts = Inr vs \<Longrightarrow> v \<in> set vs \<Longrightarrow> length v = EMBED_DIM"
begin

lemma zip_total: "embed_docs texts = Inr vs \<Longrightarrow> map fst (zip texts vs) = texts"
  using one_each by simp

lemma nth_dimension: "embed_docs texts = Inr vs \<Longrightarrow> i < length texts \<Longrightarrow> length (vs ! i) = EMBED_DIM"
  using dimension one_each by (metis nth_mem)

end

lemma each_Inr: "each f xs = Inr ys \<longleftrightarrow> list_all2 (\<lambda>x y. f x = Inr y) xs ys"
  by (induction xs arbitrary: ys) (auto simp: result_simps list_all2_Cons1)

lemma mock_one_Inr [result_simps]:
  "mock_one digest uniform text = Inr v \<longleftrightarrow>
     \<not> contains EMBED_FAIL_MARKER text
   \<and> v = unit_vec (map (uniform (from_bytes_big (take 8 (digest text)))) [0..<EMBED_DIM])"
  by (auto simp: mock_one_def Let_def)

interpretation mock: embedder "mock_embed_documents digest uniform"
  for digest uniform
proof
  fix texts vs
  assume "mock_embed_documents digest uniform texts = Inr vs"
  then have all: "list_all2 (\<lambda>x y. mock_one digest uniform x = Inr y) texts vs"
    by (simp add: mock_embed_documents_def each_Inr)
  then show "length vs = length texts" by (simp add: list_all2_lengthD)
  fix v assume "v \<in> set vs"
  with all obtain t where "mock_one digest uniform t = Inr v" by (fastforce simp: list_all2_conv_all_nth in_set_conv_nth)
  then show "length v = EMBED_DIM" by (simp add: mock_one_Inr unit_vec_def Let_def)
qed

text \<open>A Voyage client that answers one vector of the dimension per text gives an embedder too.\<close>

lemma voyage_embedder:
  assumes "\<And>texts kind vs. client texts embed_model kind = Inr vs \<Longrightarrow> length vs = length texts \<and> (\<forall>v\<in>set vs. length v = EMBED_DIM)"
  shows "embedder (voyage_embed_documents client embed_model)"
  using assms by unfold_locales (auto simp: voyage_embed_documents_def voyage_embed_def)

text \<open>Both embedders then keep to the contract, whichever key is set; a query is embedded as one text is.\<close>

lemma chosen_embedder:
  assumes "\<And>texts kind vs. client texts embed_model kind = Inr vs \<Longrightarrow> length vs = length texts \<and> (\<forall>v\<in>set vs. length v = EMBED_DIM)"
  shows "embedder (fst (get_embedder digest uniform client embed_model key))"
  using voyage_embedder [OF assms] mock.embedder_axioms [of digest uniform] by (simp add: get_embedder_def)

lemma voyage_query_dimension:
  assumes client: "\<And>texts kind vs. client texts embed_model kind = Inr vs \<Longrightarrow> length vs = length texts \<and> (\<forall>v\<in>set vs. length v = EMBED_DIM)"
    and query: "voyage_embed_query client embed_model text = Inr v"
  shows "length v = EMBED_DIM"
proof (cases "client [text] embed_model (ascii ''query'')")
  case (Inl e)
  with query show ?thesis by (simp add: voyage_embed_query_def voyage_embed_def del: ascii_Cons)
next
  case (Inr rows)
  with query have "v \<in> set rows"
    by (cases rows) (simp_all add: voyage_embed_query_def voyage_embed_def del: ascii_Cons)
  with client [OF Inr] show ?thesis by simp
qed

lemma chosen_query_dimension:
  assumes "\<And>texts kind vs. client texts embed_model kind = Inr vs \<Longrightarrow> length vs = length texts \<and> (\<forall>v\<in>set vs. length v = EMBED_DIM)"
    and "snd (get_embedder digest uniform client embed_model key) text = Inr v"
  shows "length v = EMBED_DIM"
proof (cases "key \<noteq> None \<and> key \<noteq> Some []")
  case True
  with assms(2) have "voyage_embed_query client embed_model text = Inr v" by (simp add: get_embedder_def)
  from voyage_query_dimension [OF assms(1) this] show ?thesis .
next
  case False
  with assms(2) have "mock_one digest uniform text = Inr v"
    by (auto simp: get_embedder_def mock_embed_query_def split: if_splits)
  then show ?thesis by (simp add: mock_one_Inr unit_vec_def Let_def)
qed

lemma unit_vec_norm:
  assumes "\<exists>x\<in>set v. x \<noteq> 0"
  shows "(\<Sum>x\<leftarrow>unit_vec v. x * x) = 1"
proof -
  let ?q = "\<Sum>x\<leftarrow>v. x * x"
  have nonneg: "0 \<le> (\<Sum>x\<leftarrow>w. x * x)" for w :: "real list"
    by (induction w) auto
  have pos: "0 < ?q" using assms
  proof (induction v)
    case (Cons x xs)
    show ?case
    proof (cases "x = 0")
      case True with Cons show ?thesis by simp
    next
      case False
      then have "0 < x * x" by (metis not_real_square_gt_zero)
      with nonneg [of xs] show ?thesis by simp
    qed
  qed simp
  have div: "(\<Sum>x\<leftarrow>map (\<lambda>x. x / n) w. x * x) = (\<Sum>x\<leftarrow>w. x * x) / (n * n)" for n and w :: "real list"
    by (induction w) (simp_all add: add_divide_distrib)
  from pos have "sqrt ?q \<noteq> 0" by simp
  with pos show ?thesis by (simp add: unit_vec_def Let_def div del: map_map)
qed

end
