(* ===== verification/Ingest.thy ===== *)
theory Ingest
  imports Jobs Chunking Embeddings
begin

text \<open>
  \<open>ingest.py\<close>.  \<open>sync_documents\<close> is one transaction (precheck, upserts, tombstones) followed by
  one enqueue transaction per changed document, so it returns the state it leaves behind even
  when it raises.  \<open>process_ingest_document\<close> reads in one transaction and writes in another
  (\<open>ingest_read\<close>, \<open>ingest_write\<close>); \<open>run_pending\<close> is the bounded loop over the queue.
  Parameters: \<open>hash\<close> is \<open>_hash\<close> (sha256), \<open>detect\<close> is \<open>pii.detect_types\<close>, \<open>embed_docs\<close> the chosen
  embedder's \<open>embed_documents\<close>, \<open>show_exc\<close> is \<open>repr\<close> of an exception; \<open>fresh_doc i\<close> and
  \<open>fresh_job i\<close> are the uuids generated for the i-th item, \<open>clock\<close> the transactions' clocks.
\<close>

record upload_item =
  it_path :: pystr
  it_content :: pystr
  it_acl :: "pystr list option"

definition DEFAULT_ACL :: "pystr list" where
  "DEFAULT_ACL = [ascii ''public-to-org'']"

section \<open>The statements\<close>

definition upsert_document :: "document_row \<Rightarrow> time \<Rightarrow> db \<Rightarrow> sql_error + ((pystr \<times> nat) \<times> db)" where
  "upsert_document row now s =
     (case find (\<lambda>d. d_org d = d_org row \<and> d_source d = d_source row \<and> d_path d = d_path row) (documents s) of
        Some old \<Rightarrow>
          Inr ((d_id old, d_revision old),
            s\<lparr>documents := update_where
                (\<lambda>d. d_org d = d_org row \<and> d_source d = d_source row \<and> d_path d = d_path row)
                (\<lambda>d. d\<lparr>d_content := d_content row, d_hash := d_hash row, d_acl := d_acl row,
                       d_pii := d_pii row, d_status := DPending, d_updated := now\<rparr>) (documents s)\<rparr>)
      | None \<Rightarrow>
          (if exists_where (\<lambda>d. d_id d = d_id row) (documents s) then Inl UniqueViolation
           else if d_org row \<notin> set (org_ids s) then Inl ForeignKeyViolation
           else Inr ((d_id row, d_revision row), s\<lparr>documents := documents s @ [row]\<rparr>)))"

definition bury_document :: "time \<Rightarrow> document_row \<Rightarrow> document_row" where
  "bury_document now d = d\<lparr>d_status := DDeleted, d_content := [], d_revision := d_revision d + 1, d_updated := now\<rparr>"

definition tombstone :: "pystr \<Rightarrow> time \<Rightarrow> pystr \<Rightarrow> db \<Rightarrow> db" where
  "tombstone org now doc s =
     s\<lparr>documents := update_where (\<lambda>d. rls (Some org) (d_org d) \<and> d_id d = doc) (bury_document now) (documents s),
       chunks := delete_where (\<lambda>c. rls (Some org) (c_org c) \<and> c_doc c = doc) (chunks s)\<rparr>"

definition insert_chunk :: "chunk_row \<Rightarrow> db \<Rightarrow> sql_error + db" where
  "insert_chunk row s =
     (if length (c_embedding row) \<noteq> EMBED_DIM then Inl DataException
      else if exists_where (\<lambda>c. c_doc c = c_doc row \<and> c_ordinal c = c_ordinal row) (chunks s)
      then Inl UniqueViolation
      else if c_org row \<notin> set (org_ids s) \<or> c_doc row \<notin> set (doc_ids s) then Inl ForeignKeyViolation
      else Inr (s\<lparr>chunks := chunks s @ [row]\<rparr>))"

fun insert_chunks :: "chunk_row list \<Rightarrow> db \<Rightarrow> sql_error + db" where
  "insert_chunks [] s = Inr s"
| "insert_chunks (row # rows) s = andthen (insert_chunk row s) (insert_chunks rows)"

section \<open>Synchronising a source\<close>

record sync_acc =
  sa_enqueued :: nat
  sa_unchanged :: nat
  sa_jobs :: "(pystr \<times> pystr) list"
  sa_db :: db

definition unchanged_row :: "(pystr \<Rightarrow> pystr) \<Rightarrow> document_row list \<Rightarrow> upload_item \<Rightarrow> bool" where
  "unchanged_row hash existing item =
     (case find (\<lambda>r. d_path r = it_path item) existing of
        None \<Rightarrow> False
      | Some prior \<Rightarrow> d_hash prior = hash (it_content item) \<and> d_status prior = DIngested)"

definition item_row ::
  "(pystr \<Rightarrow> pystr) \<Rightarrow> (pystr \<Rightarrow> pystr list) \<Rightarrow> pystr \<Rightarrow> pystr \<Rightarrow> pystr \<Rightarrow> time \<Rightarrow> upload_item \<Rightarrow> document_row" where
  "item_row hash detect org source fresh now item =
     \<lparr>d_id = fresh, d_org = org, d_source = source, d_path = it_path item, d_content = it_content item,
      d_hash = hash (it_content item),
      d_acl = (case it_acl item of None \<Rightarrow> DEFAULT_ACL | Some acl \<Rightarrow> acl),
      d_status = DPending, d_pii = detect (it_content item), d_revision = 0, d_updated = now\<rparr>"

definition sync_item ::
  "(pystr \<Rightarrow> pystr) \<Rightarrow> (pystr \<Rightarrow> pystr list) \<Rightarrow> pystr \<Rightarrow> pystr \<Rightarrow> document_row list \<Rightarrow> pystr \<Rightarrow> time
     \<Rightarrow> upload_item \<Rightarrow> sync_acc \<Rightarrow> exc + sync_acc" where
  "sync_item hash detect org source existing fresh now item acc =
     (if unchanged_row hash existing item then Inr (acc\<lparr>sa_unchanged := sa_unchanged acc + 1\<rparr>)
      else
        andthen (db_raise (upsert_document (item_row hash detect org source fresh now item) now (sa_db acc)))
          (\<lambda>((doc, revision), s').
            Inr \<lparr>sa_enqueued = sa_enqueued acc + 1, sa_unchanged = sa_unchanged acc,
                 sa_jobs = sa_jobs acc @
                   [(doc, hash (it_content item) @ ascii '':'' @ dec_digits revision)],
                 sa_db = s'\<rparr>))"

fun sync_items ::
  "(pystr \<Rightarrow> pystr) \<Rightarrow> (pystr \<Rightarrow> pystr list) \<Rightarrow> pystr \<Rightarrow> pystr \<Rightarrow> document_row list \<Rightarrow> (nat \<Rightarrow> pystr) \<Rightarrow> time
     \<Rightarrow> nat \<Rightarrow> upload_item list \<Rightarrow> sync_acc \<Rightarrow> exc + sync_acc" where
  "sync_items hash detect org source existing fresh_doc now i [] acc = Inr acc"
| "sync_items hash detect org source existing fresh_doc now i (item # items) acc =
     andthen (sync_item hash detect org source existing (fresh_doc i) now item acc)
       (sync_items hash detect org source existing fresh_doc now (Suc i) items)"

fun tombstone_missing :: "pystr \<Rightarrow> time \<Rightarrow> pystr list \<Rightarrow> document_row list \<Rightarrow> db \<Rightarrow> nat \<times> db" where
  "tombstone_missing org now incoming [] s = (0, s)"
| "tombstone_missing org now incoming (row # existing) s =
     (if d_path row \<notin> set incoming \<and> d_status row \<noteq> DDeleted
      then (let (n, s') = tombstone_missing org now incoming existing (tombstone org now (d_id row) s)
            in (Suc n, s'))
      else tombstone_missing org now incoming existing s)"

definition existing_rows :: "pystr \<Rightarrow> pystr \<Rightarrow> db \<Rightarrow> document_row list" where
  "existing_rows org source s =
     select_where (\<lambda>d. rls (Some org) (d_org d) \<and> d_org d = org \<and> d_source d = source) (documents s)"

record sync_result =
  sr_enqueued :: nat
  sr_unchanged :: nat
  sr_deleted :: nat

definition sync_transaction ::
  "(pystr \<Rightarrow> pystr) \<Rightarrow> (pystr \<Rightarrow> pystr list) \<Rightarrow> (nat \<Rightarrow> pystr) \<Rightarrow> time \<Rightarrow> pystr \<Rightarrow> pystr \<Rightarrow> upload_item list
     \<Rightarrow> (db \<Rightarrow> exc + unit) \<Rightarrow> db \<Rightarrow> exc + (sync_result \<times> (pystr \<times> pystr) list \<times> db)" where
  "sync_transaction hash detect fresh_doc now org source items precheck s =
     andthen (precheck s) (\<lambda>_.
       let existing = existing_rows org source s in
       andthen (sync_items hash detect org source existing fresh_doc now 0 items
                  \<lparr>sa_enqueued = 0, sa_unchanged = 0, sa_jobs = [], sa_db = s\<rparr>) (\<lambda>acc.
         let (deleted, s') = tombstone_missing org now (map it_path items) existing (sa_db acc) in
         Inr (\<lparr>sr_enqueued = sa_enqueued acc, sr_unchanged = sa_unchanged acc, sr_deleted = deleted\<rparr>,
              sa_jobs acc, s')))"

fun enqueue_all ::
  "int \<Rightarrow> pystr \<Rightarrow> (nat \<Rightarrow> pystr) \<Rightarrow> (nat \<Rightarrow> time) \<Rightarrow> nat \<Rightarrow> (pystr \<times> pystr) list \<Rightarrow> db \<Rightarrow> (exc + unit) \<times> db" where
  "enqueue_all job_max_attempts org fresh_job clock i [] s = (Inr (), s)"
| "enqueue_all job_max_attempts org fresh_job clock i ((doc, suffix) # rest) s =
     (case enqueue job_max_attempts org (ascii ''ingest_document'') [(ascii ''document_id'', doc)]
             (ascii ''ingest:'' @ doc @ ascii '':'' @ suffix) None (fresh_job i) (clock i) s of
        Inl e \<Rightarrow> (Inl e, s)
      | Inr (_, s') \<Rightarrow> enqueue_all job_max_attempts org fresh_job clock (Suc i) rest s')"

definition sync_documents ::
  "(pystr \<Rightarrow> pystr) \<Rightarrow> (pystr \<Rightarrow> pystr list) \<Rightarrow> int \<Rightarrow> (nat \<Rightarrow> pystr) \<Rightarrow> (nat \<Rightarrow> pystr) \<Rightarrow> time \<Rightarrow> (nat \<Rightarrow> time)
     \<Rightarrow> pystr \<Rightarrow> pystr \<Rightarrow> upload_item list \<Rightarrow> (db \<Rightarrow> exc + unit) \<Rightarrow> db \<Rightarrow> (exc + sync_result) \<times> db" where
  "sync_documents hash detect job_max_attempts fresh_doc fresh_job now clock org source items precheck s =
     (case sync_transaction hash detect fresh_doc now org source items precheck s of
        Inl e \<Rightarrow> (Inl e, s)
      | Inr (result, to_enqueue, s1) \<Rightarrow>
          (case enqueue_all job_max_attempts org fresh_job clock 0 to_enqueue s1 of
             (Inl e, s2) \<Rightarrow> (Inl e, s2)
           | (Inr _, s2) \<Rightarrow> (Inr result, s2)))"

section \<open>The worker side\<close>

definition ingest_read ::
  "(pystr \<Rightarrow> pystr option) \<Rightarrow> pystr \<Rightarrow> pystr \<Rightarrow> db \<Rightarrow> exc + document_row option" where
  "ingest_read pg_uuid org document_id s =
     andthen (uuid_arg pg_uuid document_id) (\<lambda>doc.
       Inr (find (\<lambda>d. rls (Some org) (d_org d) \<and> d_id d = doc \<and> d_org d = org) (documents s)))"

definition chunk_rows ::
  "(pystr list \<Rightarrow> exc + real list list) \<Rightarrow> int \<Rightarrow> int \<Rightarrow> pystr \<Rightarrow> pystr \<Rightarrow> document_row \<Rightarrow> exc + chunk_row list" where
  "chunk_rows embed_docs chunk_size chunk_overlap org doc_id doc =
     andthen (chunk_text chunk_size chunk_overlap (d_content doc) None None) (\<lambda>texts.
     andthen (if texts \<noteq> [] then embed_docs texts else Inr []) (\<lambda>embeddings.
     andthen (check (length embeddings = length texts)
                (ValueError (ascii ''zip() arguments differ in length''))) (\<lambda>_.
       Inr (map (\<lambda>(ordinal, text, embedding).
                  \<lparr>c_org = org, c_doc = doc_id, c_ordinal = ordinal, c_text = text,
                   c_embedding = embedding, c_acl = d_acl doc\<rparr>)
              (enumerate 0 (zip texts embeddings))))))"

definition ingest_write ::
  "pystr \<Rightarrow> pystr \<Rightarrow> chunk_row list \<Rightarrow> time \<Rightarrow> db \<Rightarrow> exc + db" where
  "ingest_write org doc rows now s =
     andthen (db_raise (insert_chunks rows
        (s\<lparr>chunks := delete_where (\<lambda>c. rls (Some org) (c_org c) \<and> c_doc c = doc) (chunks s)\<rparr>))) (\<lambda>s'.
       Inr (s'\<lparr>documents := update_where (\<lambda>d. rls (Some org) (d_org d) \<and> d_id d = doc)
                (\<lambda>d. d\<lparr>d_status := DIngested, d_updated := now\<rparr>) (documents s')\<rparr>))"

definition process_ingest_document ::
  "(pystr \<Rightarrow> pystr option) \<Rightarrow> (pystr list \<Rightarrow> exc + real list list) \<Rightarrow> int \<Rightarrow> int \<Rightarrow> time
     \<Rightarrow> pystr \<Rightarrow> (pystr \<times> pystr) list \<Rightarrow> db \<Rightarrow> exc + db" where
  "process_ingest_document pg_uuid embed_docs chunk_size chunk_overlap now org payload s =
     andthen (or_raise (map_of payload (ascii ''document_id'')) (KeyError (ascii ''document_id'')))
       (\<lambda>document_id.
     andthen (ingest_read pg_uuid org document_id s) (\<lambda>found.
       case found of
         None \<Rightarrow> Inr s
       | Some doc \<Rightarrow>
           (if d_status doc = DDeleted then Inr s
            else
              andthen (chunk_rows embed_docs chunk_size chunk_overlap org (d_id doc) doc) (\<lambda>rows.
                ingest_write org (d_id doc) rows now s))))"

definition mark_document_failed ::
  "(pystr \<Rightarrow> pystr option) \<Rightarrow> pystr \<Rightarrow> pystr \<Rightarrow> time \<Rightarrow> db \<Rightarrow> exc + db" where
  "mark_document_failed pg_uuid org document_id now s =
     andthen (uuid_arg pg_uuid document_id) (\<lambda>doc.
       Inr (s\<lparr>documents := update_where (\<lambda>d. rls (Some org) (d_org d) \<and> d_id d = doc \<and> d_org d = org)
               (\<lambda>d. d\<lparr>d_status := DFailed, d_updated := now\<rparr>) (documents s)\<rparr>))"

section \<open>Draining the queue\<close>

datatype outcome = Succeeded | Requeued | Dead

record run_counts =
  rc_processed :: nat
  rc_succeeded :: nat
  rc_requeued :: nat
  rc_dead :: nat

fun count_outcome :: "outcome \<Rightarrow> run_counts \<Rightarrow> run_counts" where
  "count_outcome Succeeded c = c\<lparr>rc_processed := rc_processed c + 1, rc_succeeded := rc_succeeded c + 1\<rparr>"
| "count_outcome Requeued c = c\<lparr>rc_processed := rc_processed c + 1, rc_requeued := rc_requeued c + 1\<rparr>"
| "count_outcome Dead c = c\<lparr>rc_processed := rc_processed c + 1, rc_dead := rc_dead c + 1\<rparr>"

fun run_loop ::
  "(nat \<Rightarrow> 'q \<Rightarrow> ('j \<times> 'q) option) \<Rightarrow> (nat \<Rightarrow> 'j \<Rightarrow> 'q \<Rightarrow> (exc + outcome) \<times> 'q)
     \<Rightarrow> nat \<Rightarrow> nat \<Rightarrow> run_counts \<Rightarrow> 'q \<Rightarrow> (exc + run_counts) \<times> 'q" where
  "run_loop claim work i 0 counts q = (Inr counts, q)"
| "run_loop claim work i (Suc n) counts q =
     (case claim i q of
        None \<Rightarrow> (Inr counts, q)
      | Some (job, q1) \<Rightarrow>
          (case work i job q1 of
             (Inl e, q2) \<Rightarrow> (Inl e, q2)
           | (Inr out, q2) \<Rightarrow> run_loop claim work (Suc i) n (count_outcome out counts) q2))"

definition handle_job ::
  "(pystr \<Rightarrow> pystr option) \<Rightarrow> (pystr list \<Rightarrow> exc + real list list) \<Rightarrow> int \<Rightarrow> int \<Rightarrow> time
     \<Rightarrow> job_row \<Rightarrow> db \<Rightarrow> exc + db" where
  "handle_job pg_uuid embed_docs chunk_size chunk_overlap now job s =
     (if j_kind job = ascii ''ingest_document''
      then process_ingest_document pg_uuid embed_docs chunk_size chunk_overlap now (j_org job) (j_payload job) s
      else Inl (ValueError (ascii ''no handler for job kind: '' @ j_kind job)))"

definition work_job ::
  "(pystr \<Rightarrow> pystr option) \<Rightarrow> (pystr list \<Rightarrow> exc + real list list) \<Rightarrow> (exc \<Rightarrow> pystr) \<Rightarrow> int \<Rightarrow> int
     \<Rightarrow> time \<Rightarrow> job_row \<Rightarrow> db \<Rightarrow> (exc + outcome) \<times> db" where
  "work_job pg_uuid embed_docs show_exc chunk_size chunk_overlap now job s =
     (case handle_job pg_uuid embed_docs chunk_size chunk_overlap now job s of
        Inr s' \<Rightarrow> (Inr Succeeded, mark_succeeded (j_id job) now s')
      | Inl e \<Rightarrow>
          (case mark_failed (j_id job) (show_exc e) None now s of
             (outcome, s') \<Rightarrow>
               (if outcome = JDead then
                  (if j_kind job = ascii ''ingest_document'' then
                     (case map_of (j_payload job) (ascii ''document_id'') of
                        None \<Rightarrow> (Inl (KeyError (ascii ''document_id'')), s')
                      | Some doc \<Rightarrow>
                          (case mark_document_failed pg_uuid (j_org job) doc now s' of
                             Inl e' \<Rightarrow> (Inl e', s')
                           | Inr s'' \<Rightarrow> (Inr Dead, s'')))
                   else (Inr Dead, s'))
                else (Inr Requeued, s'))))"

definition run_pending ::
  "(pystr \<Rightarrow> pystr option) \<Rightarrow> (pystr list \<Rightarrow> exc + real list list) \<Rightarrow> (exc \<Rightarrow> pystr) \<Rightarrow> int \<Rightarrow> int \<Rightarrow> int
     \<Rightarrow> (nat \<Rightarrow> time) \<Rightarrow> nat \<Rightarrow> db \<Rightarrow> (exc + run_counts) \<times> db" where
  "run_pending pg_uuid embed_docs show_exc chunk_size chunk_overlap stale_after clock max_jobs s =
     run_loop (\<lambda>i. claim_one stale_after (clock (2 * i)))
       (\<lambda>i. work_job pg_uuid embed_docs show_exc chunk_size chunk_overlap (clock (2 * i + 1)))
       0 max_jobs \<lparr>rc_processed = 0, rc_succeeded = 0, rc_requeued = 0, rc_dead = 0\<rparr> s"

end
