(* ===== verification/IngestLaws.thy ===== *)
theory IngestLaws
  imports Ingest
begin

text \<open>
  The laws of ingestion.  \<open>index_ok\<close> is the contract between the write side and retrieval: the
  chunks of an ingested document are the windows of its current content, in order, under its
  current access list.  Synchronising and processing keep it, together with the database's own
  constraints, and touch no other tenant.
\<close>

section \<open>Documents and chunks as a pair of tables\<close>

lemma docs_db_ok:
  assumes "db_ok s" and "distinct (map d_id ds)" "distinct (map (\<lambda>d. (d_org d, d_source d, d_path d)) ds)"
    and "distinct (map (\<lambda>c. (c_doc c, c_ordinal c)) cs)" and "refs d_org ds o_id (orgs s)"
    and "refs c_org cs o_id (orgs s)" "refs (\<lambda>c. (c_doc c, c_org c)) cs (\<lambda>d. (d_id d, d_org d)) ds"
  shows "db_ok (s\<lparr>documents := ds, chunks := cs\<rparr>)"
proof -
  have "refs c_doc cs d_id ds" using assms(7) by (fastforce simp: refs_def)
  with assms show ?thesis
    by (simp add: db_ok_def keys_ok_def id_defs refs_ok_def home_defs is_member_def owners_ok_def roles_ok_def)
qed

lemma docs_ok:
  assumes "db_ok s"
  shows "distinct (map d_id (documents s))" "distinct (map (\<lambda>d. (d_org d, d_source d, d_path d)) (documents s))"
    "distinct (map (\<lambda>c. (c_doc c, c_ordinal c)) (chunks s))" "refs d_org (documents s) o_id (orgs s)"
    "refs c_org (chunks s) o_id (orgs s)"
    "refs (\<lambda>c. (c_doc c, c_org c)) (chunks s) (\<lambda>d. (d_id d, d_org d)) (documents s)"
  using assms by (simp_all add: db_ok_def keys_ok_def id_defs refs_ok_def home_defs)

lemma docs_view:
  assumes "select_where (\<lambda>d. d_org d = org) ds = select_where (\<lambda>d. d_org d = org) (documents s)"
    and "select_where (\<lambda>c. c_org c = org) cs = select_where (\<lambda>c. c_org c = org) (chunks s)"
  shows "view org (s\<lparr>documents := ds, chunks := cs\<rparr>) = view org s"
  using assms by (simp add: view_def is_member_def group_in_def)

lemma chunk_home:
  assumes "db_ok s" and "c \<in> set (chunks s)" "d \<in> set (documents s)" "d_id d = c_doc c"
  shows "c_org c = d_org d"
proof -
  obtain e where "e \<in> set (documents s)" "d_id e = c_doc c" "d_org e = c_org c"
    using docs_ok(6) [OF assms(1)] assms(2) by (force simp: refs_def image_iff)
  with assms docs_ok(1) [OF assms(1)] show ?thesis by (metis distinct_key_eq)
qed

section \<open>What the statements do\<close>

lemma upsert_document_Inr:
  assumes "upsert_document row now s = Inr ((doc, rv), s')"
  obtains (updated) old where "old \<in> set (documents s)" "d_org old = d_org row" "d_source old = d_source row"
      "d_path old = d_path row" "doc = d_id old" "rv = d_revision old"
      "s' = s\<lparr>documents := update_where
                (\<lambda>d. d_org d = d_org row \<and> d_source d = d_source row \<and> d_path d = d_path row)
                (\<lambda>d. d\<lparr>d_content := d_content row, d_hash := d_hash row, d_acl := d_acl row,
                       d_pii := d_pii row, d_status := DPending, d_updated := now\<rparr>) (documents s)\<rparr>"
  | (inserted) "d_id row \<notin> d_id ` set (documents s)" "d_org row \<in> o_id ` set (orgs s)"
      "(d_org row, d_source row, d_path row) \<notin> (\<lambda>d. (d_org d, d_source d, d_path d)) ` set (documents s)"
      "doc = d_id row" "rv = d_revision row" "s' = s\<lparr>documents := documents s @ [row]\<rparr>"
proof (cases "find (\<lambda>d. d_org d = d_org row \<and> d_source d = d_source row \<and> d_path d = d_path row) (documents s)")
  case None
  then have "(d_org row, d_source row, d_path row) \<notin> (\<lambda>d. (d_org d, d_source d, d_path d)) ` set (documents s)"
    by (auto simp: find_None)
  moreover from None assms have "\<not> exists_where (\<lambda>d. d_id d = d_id row) (documents s)"
    "d_org row \<in> set (org_ids s)" "doc = d_id row" "rv = d_revision row"
    "s' = s\<lparr>documents := documents s @ [row]\<rparr>"
    by (simp_all add: upsert_document_def split: if_splits)
  ultimately show thesis
    by (intro inserted) (auto simp: exists_where_iff id_defs)
next
  case (Some old)
  with assms find_SomeD [OF Some] show thesis by (intro updated [of old]) (simp_all add: upsert_document_def)
qed

lemma insert_chunks_Inr:
  "insert_chunks rows s = Inr s' \<Longrightarrow>
     s' = s\<lparr>chunks := chunks s @ rows\<rparr>
   \<and> distinct (map (\<lambda>c. (c_doc c, c_ordinal c)) rows)
   \<and> (\<lambda>c. (c_doc c, c_ordinal c)) ` set rows \<inter> (\<lambda>c. (c_doc c, c_ordinal c)) ` set (chunks s) = {}
   \<and> (\<forall>c\<in>set rows. length (c_embedding c) = EMBED_DIM \<and> c_org c \<in> o_id ` set (orgs s) \<and> c_doc c \<in> d_id ` set (documents s))"
proof (induction rows arbitrary: s)
  case (Cons row rows)
  then obtain s1 where s1: "insert_chunk row s = Inr s1" "insert_chunks rows s1 = Inr s'"
    by (auto simp: result_simps)
  then have row: "s1 = s\<lparr>chunks := chunks s @ [row]\<rparr>" "length (c_embedding row) = EMBED_DIM"
    "(c_doc row, c_ordinal row) \<notin> (\<lambda>c. (c_doc c, c_ordinal c)) ` set (chunks s)"
    "c_org row \<in> o_id ` set (orgs s)" "c_doc row \<in> d_id ` set (documents s)"
    by (auto simp: insert_chunk_def exists_where_iff id_defs split: if_splits)
  from Cons.IH [OF s1(2)] row show ?case by auto
qed simp

lemma ingest_write_Inr:
  assumes "ingest_write org doc rows now s = Inr s'"
  shows "s' = s\<lparr>documents := update_where (\<lambda>d. d_org d = org \<and> d_id d = doc)
                  (\<lambda>d. d\<lparr>d_status := DIngested, d_updated := now\<rparr>) (documents s),
               chunks := delete_where (\<lambda>c. c_org c = org \<and> c_doc c = doc) (chunks s) @ rows\<rparr>"
    "distinct (map (\<lambda>c. (c_doc c, c_ordinal c)) rows)"
    "(\<lambda>c. (c_doc c, c_ordinal c)) ` set rows \<inter> (\<lambda>c. (c_doc c, c_ordinal c)) `
        set (delete_where (\<lambda>c. c_org c = org \<and> c_doc c = doc) (chunks s)) = {}"
    "\<And>c. c \<in> set rows \<Longrightarrow> c_org c \<in> o_id ` set (orgs s)"
  using assms by (auto simp: ingest_write_def result_simps rls_def eq_commute [of org] dest!: insert_chunks_Inr)

lemma chunk_rows_Inr:
  assumes "chunk_rows embed_docs cs co org doc_id doc = Inr rows"
  obtains texts vs where "chunk_text cs co (d_content doc) None None = Inr texts" "length vs = length texts"
    "rows = map (\<lambda>(i, t, v). \<lparr>c_org = org, c_doc = doc_id, c_ordinal = i, c_text = t,
              c_embedding = v, c_acl = d_acl doc\<rparr>) (enumerate 0 (zip texts vs))"
    "texts \<noteq> [] \<longrightarrow> embed_docs texts = Inr vs"
  using assms by (auto simp: chunk_rows_def result_simps split: if_splits)

lemma process_ingest_document_Inr:
  assumes "process_ingest_document pg embed_docs cs co now org payload s = Inr s'"
  obtains (nothing) "s' = s"
  | (ingested) id doc rows where "map_of payload (ascii ''document_id'') = Some id" "pg id = Some (d_id doc)"
      "doc \<in> set (documents s)" "d_org doc = org" "d_status doc \<noteq> DDeleted"
      "chunk_rows embed_docs cs co org (d_id doc) doc = Inr rows" "ingest_write org (d_id doc) rows now s = Inr s'"
proof -
  obtain id found where id: "map_of payload (ascii ''document_id'') = Some id"
    and found: "ingest_read pg org id s = Inr found"
    and rest: "(case found of None \<Rightarrow> Inr s | Some doc \<Rightarrow>
           (if d_status doc = DDeleted then Inr s
            else andthen (chunk_rows embed_docs cs co org (d_id doc) doc) (\<lambda>rows.
                ingest_write org (d_id doc) rows now s))) = Inr s'"
    using assms by (auto simp: process_ingest_document_def result_simps)
  show thesis
  proof (cases found)
    case None
    with rest have "s' = s" by simp
    then show thesis by (rule nothing)
  next
    case (Some doc)
    with found have "pg id = Some (d_id doc)" "doc \<in> set (documents s)" "d_org doc = org"
      by (auto simp: ingest_read_def result_simps dest!: find_SomeD)
    note doc = this
    show thesis
    proof (cases "d_status doc = DDeleted")
      case True
      with rest Some have "s' = s" by simp
      then show thesis by (rule nothing)
    next
      case False
      with rest Some obtain rows where "chunk_rows embed_docs cs co org (d_id doc) doc = Inr rows"
        "ingest_write org (d_id doc) rows now s = Inr s'" by (auto simp: result_simps)
      with False doc id show thesis by (intro ingested)
    qed
  qed
qed


section \<open>The index contract\<close>

definition doc_chunks :: "pystr \<Rightarrow> db \<Rightarrow> chunk_row list" where
  "doc_chunks doc s = select_where (\<lambda>c. c_doc c = doc) (chunks s)"

definition indexed :: "int \<Rightarrow> int \<Rightarrow> document_row \<Rightarrow> chunk_row list \<Rightarrow> bool" where
  "indexed chunk_size chunk_overlap d rows \<longleftrightarrow>
     (case chunk_text chunk_size chunk_overlap (d_content d) None None of
        Inl e \<Rightarrow> False
      | Inr texts \<Rightarrow>
          map (\<lambda>c. (c_ordinal c, c_text c, c_acl c)) rows = map (\<lambda>(i, t). (i, t, d_acl d)) (enumerate 0 texts))"

definition index_ok :: "int \<Rightarrow> int \<Rightarrow> db \<Rightarrow> bool" where
  "index_ok chunk_size chunk_overlap s \<longleftrightarrow>
     (\<forall>d\<in>set (documents s). d_status d = DIngested \<longrightarrow>
        indexed chunk_size chunk_overlap d (doc_chunks (d_id d) s))"

lemma indexed_cong:
  "d_content d = d_content e \<Longrightarrow> d_acl d = d_acl e \<Longrightarrow> indexed cs co d rows = indexed cs co e rows"
  by (simp add: indexed_def split: sum.split)

lemma index_okI:
  assumes "index_ok cs co s"
    and "\<And>d. d \<in> set (documents s') \<Longrightarrow> d_status d = DIngested \<Longrightarrow>
           (d \<in> set (documents s) \<and> doc_chunks (d_id d) s' = doc_chunks (d_id d) s)
         \<or> indexed cs co d (doc_chunks (d_id d) s')"
  shows "index_ok cs co s'"
  using assms by (fastforce simp: index_ok_def)

lemma chunk_rows_indexed:
  assumes "chunk_rows embed_docs cs co org doc_id doc = Inr rows"
  shows "indexed cs co doc rows" "\<And>c. c \<in> set rows \<Longrightarrow> c_doc c = doc_id \<and> c_org c = org"
proof -
  obtain texts vs where texts: "chunk_text cs co (d_content doc) None None = Inr texts"
    and len: "length vs = length texts"
    and rows: "rows = map (\<lambda>(i, t, v). \<lparr>c_org = org, c_doc = doc_id, c_ordinal = i, c_text = t,
              c_embedding = v, c_acl = d_acl doc\<rparr>) (enumerate 0 (zip texts vs))"
    using chunk_rows_Inr [OF assms] by metis
  have "map (\<lambda>(i, t, v). (i, t, a)) (enumerate n (zip texts vs)) = map (\<lambda>(i, t). (i, t, a)) (enumerate n texts)"
    for n and a :: "pystr list"
    using len by (induction vs texts arbitrary: n rule: list_induct2) auto
  then show "indexed cs co doc rows"
    by (simp add: indexed_def texts rows o_def case_prod_unfold)
  show "c_doc c = doc_id \<and> c_org c = org" if "c \<in> set rows" for c
    using that by (auto simp: rows)
qed

section \<open>Processing a document\<close>

lemma process_ingest_document_laws:
  assumes "process_ingest_document pg embed_docs cs co now org payload s = Inr s'" and ok: "db_ok s"
  shows "db_ok s'" "index_ok cs co s \<Longrightarrow> index_ok cs co s'" "jobs s' = jobs s"
    "other \<noteq> org \<Longrightarrow> view other s' = view other s"
proof -
  have all: "db_ok s' \<and> (index_ok cs co s \<longrightarrow> index_ok cs co s') \<and> jobs s' = jobs s
     \<and> (other \<noteq> org \<longrightarrow> view other s' = view other s)"
    using assms(1)
  proof (cases rule: process_ingest_document_Inr)
    case (ingested id doc rows)
    note wrote = ingest_write_Inr [OF ingested(7)] and rows = chunk_rows_indexed [OF ingested(6)]
    note docs = docs_ok [OF ok]
    let ?ds = "update_where (\<lambda>d. d_org d = org \<and> d_id d = d_id doc)
        (\<lambda>d. d\<lparr>d_status := DIngested, d_updated := now\<rparr>) (documents s)"
    let ?cs = "delete_where (\<lambda>c. c_org c = org \<and> c_doc c = d_id doc) (chunks s) @ rows"
    have "db_ok s'"
      unfolding wrote(1)
    proof (rule docs_db_ok [OF ok])
      show "refs (\<lambda>c. (c_doc c, c_org c)) ?cs (\<lambda>d. (d_id d, d_org d)) ?ds"
        using docs(6) rows(2) ingested(3,4)
        by (auto simp: refs_append_iff refs_update_parent refs_delete_child)
          (auto simp: refs_def image_update_where intro!: rev_image_eqI [of doc])
      show "refs c_org ?cs o_id (orgs s)"
        using docs(5) wrote(4) by (auto simp: refs_append_iff refs_delete_child refs_def [of _ rows])
    qed (use docs wrote in \<open>auto simp: map_update_where distinct_delete_where refs_update_child\<close>)
    moreover have "index_ok cs co s'" if idx: "index_ok cs co s"
      using idx
    proof (rule index_okI)
      fix d assume d: "d \<in> set (documents s')" "d_status d = DIngested"
      then obtain e where e: "e \<in> set (documents s)"
        "d = (if d_org e = org \<and> d_id e = d_id doc then e\<lparr>d_status := DIngested, d_updated := now\<rparr> else e)"
        by (auto simp: wrote(1) table_simps)
      show "(d \<in> set (documents s) \<and> doc_chunks (d_id d) s' = doc_chunks (d_id d) s)
          \<or> indexed cs co d (doc_chunks (d_id d) s')"
      proof (cases "d_id e = d_id doc")
        case True
        then have "e = doc" using e(1) ingested(3) docs(1) by (metis distinct_key_eq)
        have "delete_where (\<lambda>c. c_org c = org \<and> c_doc c = d_id doc) (chunks s)
            = delete_where (\<lambda>c. c_doc c = d_id doc) (chunks s)"
          using chunk_home [OF ok _ ingested(3)] ingested(4)
          by (auto simp: delete_where_def intro!: filter_cong)
        then have "doc_chunks (d_id doc) s' = rows"
          using rows(2) by (auto simp: doc_chunks_def wrote(1) table_simps select_where_def delete_where_def
              filter_empty_conv filter_id_conv)
        moreover have "d_content d = d_content doc" "d_acl d = d_acl doc" "d_id d = d_id doc"
          using e(2) \<open>e = doc\<close> ingested(4) by simp_all
        ultimately show ?thesis using rows(1) indexed_cong [of d doc] by metis
      next
        case False
        then have "doc_chunks (d_id e) s' = doc_chunks (d_id e) s"
          using rows(2) by (auto simp: doc_chunks_def wrote(1) table_simps select_where_def delete_where_def
              filter_empty_conv intro!: filter_cong)
        with e False show ?thesis by simp
      qed
    qed
    moreover have "view other s' = view other s" if "other \<noteq> org"
      unfolding wrote(1)
    proof (rule docs_view)
      show "select_where (\<lambda>d. d_org d = other) ?ds = select_where (\<lambda>d. d_org d = other) (documents s)"
        by (rule select_update_disjoint) (use that in auto)
      have "select_where (\<lambda>c. c_org c = other) rows = []"
        using rows(2) that by (auto simp: select_where_def filter_empty_conv)
      moreover have "select_where (\<lambda>c. c_org c = other) (delete_where (\<lambda>c. c_org c = org \<and> c_doc c = d_id doc) (chunks s))
          = select_where (\<lambda>c. c_org c = other) (chunks s)"
        by (rule select_delete_disjoint) (use that in auto)
      ultimately show "select_where (\<lambda>c. c_org c = other) ?cs = select_where (\<lambda>c. c_org c = other) (chunks s)"
        by (simp add: select_append)
    qed
    ultimately show ?thesis by (simp add: wrote(1))
  qed (simp add: ok)
  then show "db_ok s'" "index_ok cs co s \<Longrightarrow> index_ok cs co s'" "jobs s' = jobs s"
    "other \<noteq> org \<Longrightarrow> view other s' = view other s" by blast+
qed


section \<open>Draining the queue\<close>

text \<open>
  What a bounded drain needs from its queue.  \<open>claim\<close> hands out a job or reports that none is
  due, \<open>work\<close> settles it; both keep the invariant.  In the extension each settled job leaves
  the backlog one shorter, which is what makes the loop empty it.
\<close>

locale job_loop =
  fixes claim :: "nat \<Rightarrow> 'q \<Rightarrow> ('j \<times> 'q) option"
    and work :: "nat \<Rightarrow> 'j \<Rightarrow> 'q \<Rightarrow> (exc + outcome) \<times> 'q"
    and inv :: "'q \<Rightarrow> bool"
  assumes step_inv: "inv q \<Longrightarrow> claim i q = Some (j, q1) \<Longrightarrow> work i j q1 = (r, q2) \<Longrightarrow> inv q2"
begin

lemma loop_inv: "inv q \<Longrightarrow> run_loop claim work i n c q = (r, q') \<Longrightarrow> inv q'"
proof (induction n arbitrary: i c q)
  case (Suc n)
  show ?case
  proof (cases "claim i q")
    case None with Suc.prems show ?thesis by simp
  next
    case (Some p)
    obtain j q1 where p: "p = (j, q1)" by (cases p)
    obtain o1 q2 where w: "work i j q1 = (o1, q2)" by (cases "work i j q1")
    with step_inv Some p Suc.prems(1) have "inv q2" by blast
    with Suc Some p w show ?thesis by (cases o1) auto
  qed
qed simp

end

lemma run_loop_counts:
  assumes "run_loop claim work i n c q = (Inr c', q')"
    and "rc_processed c = rc_succeeded c + rc_requeued c + rc_dead c"
  shows "rc_processed c' = rc_succeeded c' + rc_requeued c' + rc_dead c'
    \<and> rc_processed c \<le> rc_processed c' \<and> rc_processed c' \<le> rc_processed c + n"
  using assms
proof (induction n arbitrary: i c q)
  case (Suc n)
  show ?case
  proof (cases "claim i q")
    case None with Suc.prems show ?thesis by simp
  next
    case (Some p)
    obtain j q1 where p: "p = (j, q1)" by (cases p)
    obtain o1 q2 where w: "work i j q1 = (o1, q2)" by (cases "work i j q1")
    from Suc.prems Some p w obtain out where out: "o1 = Inr out" by (cases o1) auto
    have "rc_processed (count_outcome out c) = Suc (rc_processed c)"
      "rc_processed (count_outcome out c) = rc_succeeded (count_outcome out c)
         + rc_requeued (count_outcome out c) + rc_dead (count_outcome out c)"
      using Suc.prems(2) by (cases out; simp)+
    with Suc.IH [of "Suc i" "count_outcome out c" q2] Suc.prems Some p w out show ?thesis by simp
  qed
qed simp

locale draining_loop = job_loop +
  fixes backlog :: "'q \<Rightarrow> nat"
  assumes claim_none: "inv q \<Longrightarrow> claim i q = None \<longleftrightarrow> backlog q = 0"
    and settles: "inv q \<Longrightarrow> claim i q = Some (j, q1) \<Longrightarrow> work i j q1 = (r, q2) \<Longrightarrow>
                    (\<exists>out. r = Inr out) \<and> backlog q = Suc (backlog q2)"
begin

lemma loop_drains:
  "inv q \<Longrightarrow> \<exists>c' q'. run_loop claim work i n c q = (Inr c', q')
     \<and> rc_processed c' = rc_processed c + min n (backlog q) \<and> backlog q' = backlog q - n"
proof (induction n arbitrary: i c q)
  case (Suc n)
  show ?case
  proof (cases "claim i q")
    case None
    moreover have "backlog q = 0" using claim_none Suc.prems None by blast
    ultimately show ?thesis by simp
  next
    case (Some p)
    obtain j q1 where p: "p = (j, q1)" by (cases p)
    obtain o1 q2 where w: "work i j q1 = (o1, q2)" by (cases "work i j q1")
    with settles [OF Suc.prems Some [unfolded p]] obtain out
      where out: "o1 = Inr out" and left: "backlog q = Suc (backlog q2)" by blast
    have "inv q2" using step_inv Suc.prems Some p w by blast
    then obtain c' q' where "run_loop claim work (Suc i) n (count_outcome out c) q2 = (Inr c', q')"
      "rc_processed c' = rc_processed (count_outcome out c) + min n (backlog q2)" "backlog q' = backlog q2 - n"
      using Suc.IH by blast
    moreover have "rc_processed (count_outcome out c) = Suc (rc_processed c)" by (cases out) simp_all
    ultimately show ?thesis using Some p w out left by simp
  qed
qed simp

end

lemma mark_document_failed_laws:
  assumes "mark_document_failed pg org doc now s = Inr s'" and "db_ok s"
  shows "db_ok s'" "index_ok cs co s \<Longrightarrow> index_ok cs co s'" "jobs s' = jobs s"
proof -
  obtain d where s': "s' = s\<lparr>documents := update_where (\<lambda>x. rls (Some org) (d_org x) \<and> d_id x = d \<and> d_org x = org)
      (\<lambda>x. x\<lparr>d_status := DFailed, d_updated := now\<rparr>) (documents s)\<rparr>"
    using assms(1) by (auto simp: mark_document_failed_def result_simps)
  have "db_ok (s\<lparr>documents := documents s', chunks := chunks s\<rparr>)"
    using docs_ok [OF assms(2)] assms(2)
    by (intro docs_db_ok) (simp_all add: s' map_update_where refs_update_child refs_update_parent)
  then show "db_ok s'" by (simp add: s')
  show "index_ok cs co s'" if "index_ok cs co s"
    using that by (rule index_okI) (auto simp: s' table_simps doc_chunks_def split: if_splits)
  show "jobs s' = jobs s" by (simp add: s')
qed


text \<open>One iteration of the worker, from its claim to its settlement.\<close>

lemma handle_job_laws:
  assumes "handle_job pg embed_docs cs co now job s = Inr s'" and "db_ok s"
  shows "db_ok s'" "index_ok cs co s \<Longrightarrow> index_ok cs co s'" "jobs s' = jobs s"
  using assms process_ingest_document_laws
  by (auto simp: handle_job_def split: if_splits)

lemma jobs_index_ok: "index_ok cs co (s\<lparr>jobs := js\<rparr>) = index_ok cs co s"
  by (simp add: index_ok_def doc_chunks_def)

lemma mark_succeeded_index_ok: "index_ok cs co s \<Longrightarrow> index_ok cs co (mark_succeeded job_id now s)"
  by (simp add: mark_succeeded_def jobs_index_ok)

lemma mark_failed_index_ok: "mark_failed job_id e b now s = (st, s') \<Longrightarrow> index_ok cs co s \<Longrightarrow> index_ok cs co s'"
  by (auto simp: mark_failed_def Let_def jobs_index_ok split: option.splits if_splits)

lemma claim_one_index_ok: "claim_one stale now s = Some (job, s') \<Longrightarrow> index_ok cs co s \<Longrightarrow> index_ok cs co s'"
  by (erule claim_one_Some) (simp add: jobs_index_ok)

lemma work_job_cases:
  assumes "work_job pg embed_docs show_exc cs co now job s = (r, s')"
  obtains (succeeded) s1 where "handle_job pg embed_docs cs co now job s = Inr s1"
      "s' = mark_succeeded (j_id job) now s1" "r = Inr Succeeded"
  | (failed) e st where "handle_job pg embed_docs cs co now job s = Inl e"
      "mark_failed (j_id job) (show_exc e) None now s = (st, s')" "r = Inr Dead \<or> r = Inr Requeued \<or> (\<exists>e'. r = Inl e')"
  | (buried) e s1 doc where "handle_job pg embed_docs cs co now job s = Inl e"
      "mark_failed (j_id job) (show_exc e) None now s = (JDead, s1)"
      "mark_document_failed pg (j_org job) doc now s1 = Inr s'" "r = Inr Dead"
proof (cases "handle_job pg embed_docs cs co now job s")
  case (Inr s1)
  with assms succeeded show thesis by (simp add: work_job_def)
next
  case (Inl e)
  obtain st s1 where m: "mark_failed (j_id job) (show_exc e) None now s = (st, s1)"
    by (cases "mark_failed (j_id job) (show_exc e) None now s")
  show thesis
  proof (cases "\<exists>doc s2. mark_document_failed pg (j_org job) doc now s1 = Inr s2 \<and> s' = s2 \<and> st = JDead \<and> r = Inr Dead")
    case True
    with Inl m buried show thesis by blast
  next
    case False
    with assms Inl m have "s' = s1 \<and> (r = Inr Dead \<or> r = Inr Requeued \<or> (\<exists>e'. r = Inl e'))"
      by (auto simp: work_job_def split: if_splits option.splits sum.splits)
    with Inl m failed show thesis by blast
  qed
qed

lemma work_job_laws:
  assumes "work_job pg embed_docs show_exc cs co now job s = (r, s')" and "db_ok s"
  shows "db_ok s'" "index_ok cs co s \<Longrightarrow> index_ok cs co s'"
proof -
  have "db_ok s' \<and> (index_ok cs co s \<longrightarrow> index_ok cs co s')"
    using assms(1)
  proof (cases rule: work_job_cases)
    case (succeeded s1)
    with handle_job_laws [OF succeeded(1) assms(2)] show ?thesis
      by (simp add: mark_succeeded_db_ok mark_succeeded_index_ok)
  next
    case (failed e st)
    then show ?thesis using mark_failed_db_ok mark_failed_index_ok assms(2) by blast
  next
    case (buried e s1 doc)
    have "db_ok s1" "index_ok cs co s \<longrightarrow> index_ok cs co s1"
      using mark_failed_db_ok mark_failed_index_ok assms(2) buried(2) by blast+
    with mark_document_failed_laws [OF buried(3)] show ?thesis by blast
  qed
  then show "db_ok s'" "index_ok cs co s \<Longrightarrow> index_ok cs co s'" by blast+
qed

interpretation pending: job_loop "\<lambda>i. claim_one stale (clock (2 * i))"
  "\<lambda>i. work_job pg embed_docs show_exc cs co (clock (2 * i + 1))"
  "\<lambda>s. db_ok s \<and> index_ok cs co s"
  for stale clock pg embed_docs show_exc cs co
proof
  fix q i j q1 r q2
  assume ok: "db_ok q \<and> index_ok cs co q" and claim: "claim_one stale (clock (2 * i)) q = Some (j, q1)"
    and work: "work_job pg embed_docs show_exc cs co (clock (2 * i + 1)) j q1 = (r, q2)"
  from ok have "db_ok q1" "index_ok cs co q1"
    using claim_one_db_ok [OF claim] claim_one_index_ok [OF claim] by simp_all
  with work_job_laws [OF work] show "db_ok q2 \<and> index_ok cs co q2" by simp
qed

lemma run_pending_laws:
  assumes "run_pending pg embed_docs show_exc cs co stale clock max_jobs s = (r, s')"
    and "db_ok s" "index_ok cs co s"
  shows "db_ok s'" "index_ok cs co s'"
  using pending.loop_inv [OF _ assms(1) [unfolded run_pending_def]] assms(2,3) by blast+


text \<open>
  Under a clock that stands still, settling the claimed job takes exactly that job out of the
  due set: a success or a dead letter is never due, and a retry is due only after a positive
  backoff.  \<open>queue_ok\<close> says that the jobs are the ones \<open>sync_documents\<close> writes.
\<close>

definition queue_ok :: "(pystr \<Rightarrow> pystr option) \<Rightarrow> db \<Rightarrow> bool" where
  "queue_ok pg_uuid s \<longleftrightarrow> (\<forall>j\<in>set (jobs s). 0 \<le> j_attempts j
     \<and> (\<exists>doc. map_of (j_payload j) (ascii ''document_id'') = Some doc \<and> pg_uuid doc \<noteq> None))"

lemma settle_count:
  assumes "distinct (map k xs)" "x \<in> set xs" "P x" "\<And>y. \<not> P (f y)"
  shows "length (select_where P xs) = Suc (length (select_where P (update_where (\<lambda>y. k y = k x) f xs)))"
  using assms
proof (induction xs)
  case (Cons a xs)
  show ?case
  proof (cases "a = x")
    case True
    with Cons.prems have "\<And>y. y \<in> set xs \<Longrightarrow> k y \<noteq> k x" by (force simp: image_iff)
    then have "update_where (\<lambda>y. k y = k x) f xs = xs" by (auto simp: update_where_def intro!: map_idI)
    with True Cons.prems show ?thesis by simp
  next
    case False
    with Cons.prems have "x \<in> set xs" "k a \<noteq> k x" by (auto simp: image_iff)
    with Cons show ?thesis by simp
  qed
qed simp

lemma update_twice:
  assumes "\<And>y. k (f y) = k y"
  shows "update_where (\<lambda>y. k y = v) g (update_where (\<lambda>y. k y = v) f xs) = update_where (\<lambda>y. k y = v) (g \<circ> f) xs"
  using assms by (simp add: update_where_def)

lemma mark_failed_state:
  assumes "mark_failed job_id e None now s = (st, s')" and "queue_ok pg s"
    and "j \<in> set (jobs s)" "j_id j = job_id"
  obtains f where "jobs s' = update_where (\<lambda>r. j_id r = job_id) f (jobs s)" "\<And>stale r. 0 \<le> stale \<Longrightarrow> \<not> due_job stale now (f r)"
    "\<And>r. j_attempts (f r) = j_attempts r" "\<And>r. j_payload (f r) = j_payload r" "\<And>r. j_kind (f r) = j_kind r"
proof -
  obtain job where job: "find (\<lambda>j. j_id j = job_id) (jobs s) = Some job"
    using assms(3,4) by (cases "find (\<lambda>j. j_id j = job_id) (jobs s)") (auto simp: find_None)
  then have "0 \<le> j_attempts job" using assms(2) by (auto simp: queue_ok_def dest!: find_SomeD)
  from backoff_pos [OF this] have pos: "0 < seconds (backoff_seconds (j_attempts job))" by (simp add: seconds_def)
  show thesis
  proof (cases "j_max job \<le> j_attempts job")
    case True
    with job assms(1) show thesis
      by (intro that [of "\<lambda>j. j\<lparr>j_status := JDead, j_error := Some e, j_updated := now\<rparr>"])
        (auto simp: mark_failed_def due_job_def)
  next
    case False
    with job assms(1) pos show thesis
      by (intro that [of "\<lambda>j. j\<lparr>j_status := JQueued, j_error := Some e,
             j_run_after := now + seconds (backoff_seconds (j_attempts job)), j_updated := now\<rparr>"])
        (auto simp: mark_failed_def due_job_def Let_def)
  qed
qed

lemma work_job_settles:
  assumes work: "work_job pg embed_docs show_exc cs co now job s = (r, s')"
    and ok: "db_ok s" "queue_ok pg s" and job: "job \<in> set (jobs s)"
  obtains out f where "r = Inr out" "jobs s' = update_where (\<lambda>r. j_id r = j_id job) f (jobs s)"
    "\<And>stale r. 0 \<le> stale \<Longrightarrow> \<not> due_job stale now (f r)"
    "\<And>r. j_attempts (f r) = j_attempts r" "\<And>r. j_payload (f r) = j_payload r"
proof (cases "handle_job pg embed_docs cs co now job s")
  case (Inr s1)
  then have "r = Inr Succeeded" "s' = mark_succeeded (j_id job) now s1"
    using work by (simp_all add: work_job_def)
  moreover have "jobs s1 = jobs s" using handle_job_laws(3) [OF Inr ok(1)] .
  ultimately show thesis
    by (intro that [of Succeeded "\<lambda>j. j\<lparr>j_status := JSucceeded, j_error := None, j_updated := now\<rparr>"])
      (simp_all add: mark_succeeded_def due_job_def)
next
  case (Inl e)
  obtain st s1 where m: "mark_failed (j_id job) (show_exc e) None now s = (st, s1)"
    by (cases "mark_failed (j_id job) (show_exc e) None now s")
  obtain f where f: "jobs s1 = update_where (\<lambda>r. j_id r = j_id job) f (jobs s)"
    "\<And>stale r. 0 \<le> stale \<Longrightarrow> \<not> due_job stale now (f r)"
    "\<And>r. j_attempts (f r) = j_attempts r" "\<And>r. j_payload (f r) = j_payload r"
    using mark_failed_state [OF m ok(2) job refl] by metis
  obtain doc u where "map_of (j_payload job) (ascii ''document_id'') = Some doc" "pg doc = Some u"
    using ok(2) job by (auto simp: queue_ok_def)
  then have "(\<exists>out. r = Inr out) \<and> jobs s' = jobs s1"
    using work Inl m by (auto simp: work_job_def mark_document_failed_def split: if_splits)
  with f that show thesis by metis
qed


lemma queue_ok_update:
  assumes "queue_ok pg s" and "jobs s' = update_where P f (jobs s)"
    and "\<And>r. 0 \<le> j_attempts r \<Longrightarrow> 0 \<le> j_attempts (f r)" "\<And>r. j_payload (f r) = j_payload r"
  shows "queue_ok pg s'"
  using assms by (auto simp: queue_ok_def table_simps)

lemma claim_and_work:
  assumes ok: "db_ok s" "queue_ok pg s"
    and claim: "claim_one stale now s = Some (job, s1)" and stale: "0 \<le> stale"
    and work: "work_job pg embed_docs show_exc cs co now job s1 = (r, s2)"
  shows "(\<exists>out. r = Inr out) \<and> db_ok s2 \<and> queue_ok pg s2
    \<and> length (due_jobs stale now s) = Suc (length (due_jobs stale now s2))"
proof -
  obtain j where j: "j \<in> set (jobs s)" "due_job stale now j" "job = start_job now j"
    and s1: "s1 = s\<lparr>jobs := update_where (\<lambda>r. j_id r = j_id j) (start_job now) (jobs s)\<rparr>"
    using claim_one_Some [OF claim] by metis
  have db1: "db_ok s1" using claim_one_db_ok [OF claim ok(1)] .
  have q1: "queue_ok pg s1" using queue_ok_update [OF ok(2), of s1 "\<lambda>r. j_id r = j_id j" "start_job now"] by (simp add: s1)
  have "job \<in> set (jobs s1)" using j(1,3) by (auto simp: s1 table_simps)
  then obtain out f where r: "r = Inr out" and jobs2: "jobs s2 = update_where (\<lambda>r. j_id r = j_id job) f (jobs s1)"
    and f: "\<And>r. \<not> due_job stale now (f r)" "\<And>r. j_attempts (f r) = j_attempts r" "\<And>r. j_payload (f r) = j_payload r"
    using work_job_settles [OF work db1 q1] stale by metis
  have "queue_ok pg s2" using queue_ok_update [OF q1 jobs2] f by simp
  moreover have "db_ok s2" using work_job_laws(1) [OF work db1] .
  moreover have "jobs s2 = update_where (\<lambda>r. j_id r = j_id j) (f \<circ> start_job now) (jobs s)"
    by (simp add: jobs2 s1 j(3) update_twice)
  moreover have "distinct (map j_id (jobs s))" using ok(1) by (simp add: db_ok_def keys_ok_def)
  ultimately show ?thesis
    using settle_count [of j_id "jobs s" j "due_job stale now" "f \<circ> start_job now"] j f r
    by (simp add: due_jobs_def)
qed

interpretation frozen: draining_loop "\<lambda>i. claim_one (int stale) now"
  "\<lambda>i. work_job pg embed_docs show_exc cs co now" "\<lambda>s. db_ok s \<and> queue_ok pg s"
  "\<lambda>s. length (due_jobs (int stale) now s)"
  for stale now pg embed_docs show_exc cs co
proof
  fix q i j q1 r q2
  assume ok: "db_ok q \<and> queue_ok pg q" and claim: "claim_one (int stale) now q = Some (j, q1)"
    and work: "work_job pg embed_docs show_exc cs co now j q1 = (r, q2)"
  from claim_and_work [OF _ _ claim _ work] ok
  show "db_ok q2 \<and> queue_ok pg q2"
    and "(\<exists>out. r = Inr out) \<and> length (due_jobs (int stale) now q) = Suc (length (due_jobs (int stale) now q2))"
    by simp_all
qed (simp add: claim_one_None)

lemma run_pending_drains:
  assumes "db_ok s" "queue_ok pg s" "0 \<le> stale"
  shows "\<exists>c s'. run_pending pg embed_docs show_exc cs co stale (\<lambda>_. now) n s = (Inr c, s')
    \<and> rc_processed c = min n (length (due_jobs stale now s))
    \<and> length (due_jobs stale now s') = length (due_jobs stale now s) - n"
  using frozen.loop_drains [of s pg "nat stale" now embed_docs show_exc cs co 0 n
      "\<lparr>rc_processed = 0, rc_succeeded = 0, rc_requeued = 0, rc_dead = 0\<rparr>"] assms
  by (simp add: run_pending_def)

end
