(* ===== verification/SyncLaws.thy ===== *)
theory SyncLaws
  imports IngestLaws
begin

text \<open>
  The laws of \<open>sync_documents\<close>.  \<open>tombstone_missing\<close> is shown equal to one bulk update
  (\<open>tombstones\<close>); a sync then leaves exactly the incoming paths live, keeps the database's
  constraints and the index contract, and touches no other tenant.
\<close>

section \<open>The loop over the missing rows is one bulk update\<close>

definition tombstones :: "pystr \<Rightarrow> time \<Rightarrow> pystr set \<Rightarrow> db \<Rightarrow> db" where
  "tombstones org now ids s =
     s\<lparr>documents := update_where (\<lambda>d. d_org d = org \<and> d_id d \<in> ids) (bury_document now) (documents s),
       chunks := delete_where (\<lambda>c. c_org c = org \<and> c_doc c \<in> ids) (chunks s)\<rparr>"

definition missing :: "pystr list \<Rightarrow> document_row list \<Rightarrow> document_row list" where
  "missing incoming existing = select_where (\<lambda>r. d_path r \<notin> set incoming \<and> d_status r \<noteq> DDeleted) existing"

lemma bury_document_fields [simp]:
  "d_id (bury_document now d) = d_id d" "d_org (bury_document now d) = d_org d"
  "d_source (bury_document now d) = d_source d" "d_path (bury_document now d) = d_path d"
  "d_status (bury_document now d) = DDeleted" "d_content (bury_document now d) = []"
  "d_hash (bury_document now d) = d_hash d" "d_revision (bury_document now d) = d_revision d + 1"
  by (simp_all add: bury_document_def)

lemma tombstones_empty: "tombstones org now {} s = s"
  by (simp add: tombstones_def update_where_def delete_where_def)

lemma tombstones_insert:
  assumes "doc \<notin> ids"
  shows "tombstones org now ids (tombstone org now doc s) = tombstones org now (insert doc ids) s"
proof -
  have "update_where (\<lambda>d. d_org d = org \<and> d_id d \<in> ids) (bury_document now)
          (update_where (\<lambda>d. rls (Some org) (d_org d) \<and> d_id d = doc) (bury_document now) xs)
      = update_where (\<lambda>d. d_org d = org \<and> d_id d \<in> insert doc ids) (bury_document now) xs" for xs :: "document_row list"
    using assms by (induction xs) auto
  moreover have "delete_where (\<lambda>c. c_org c = org \<and> c_doc c \<in> ids)
          (delete_where (\<lambda>c. rls (Some org) (c_org c) \<and> c_doc c = doc) xs)
      = delete_where (\<lambda>c. c_org c = org \<and> c_doc c \<in> insert doc ids) xs" for xs :: "chunk_row list"
    by (induction xs) auto
  ultimately show ?thesis by (simp add: tombstones_def tombstone_def)
qed

lemma tombstone_missing_eq:
  assumes "distinct (map d_id existing)"
  shows "tombstone_missing org now incoming existing s =
     (length (missing incoming existing), tombstones org now (d_id ` set (missing incoming existing)) s)"
  using assms
proof (induction existing arbitrary: s)
  case (Cons row existing)
  then have "d_id row \<notin> d_id ` set (missing incoming existing)"
    by (auto simp: missing_def table_simps)
  with Cons show ?case
    by (simp add: missing_def tombstones_insert [unfolded missing_def])
qed (simp add: missing_def tombstones_empty)

lemma tombstones_laws:
  assumes "db_ok s"
  shows "db_ok (tombstones org now ids s)"
    "index_ok cs co s \<Longrightarrow> index_ok cs co (tombstones org now ids s)"
    "other \<noteq> org \<Longrightarrow> view other (tombstones org now ids s) = view other s"
proof -
  note docs = docs_ok [OF assms]
  let ?ds = "update_where (\<lambda>d. d_org d = org \<and> d_id d \<in> ids) (bury_document now) (documents s)"
  let ?cs = "delete_where (\<lambda>c. c_org c = org \<and> c_doc c \<in> ids) (chunks s)"
  show "db_ok (tombstones org now ids s)"
    unfolding tombstones_def using docs
    by (intro docs_db_ok [OF assms])
      (simp_all add: map_update_where distinct_delete_where refs_update_child refs_delete_child refs_update_parent)
  show "view other (tombstones org now ids s) = view other s" if "other \<noteq> org"
    unfolding tombstones_def
  proof (rule docs_view)
    show "select_where (\<lambda>d. d_org d = other) ?ds = select_where (\<lambda>d. d_org d = other) (documents s)"
      by (rule select_update_disjoint) (use that in auto)
    show "select_where (\<lambda>c. c_org c = other) ?cs = select_where (\<lambda>c. c_org c = other) (chunks s)"
      by (rule select_delete_disjoint) (use that in auto)
  qed
  show "index_ok cs co (tombstones org now ids s)" if "index_ok cs co s"
    using that
  proof (rule index_okI)
    fix d assume d: "d \<in> set (documents (tombstones org now ids s))" "d_status d = DIngested"
    have old: "d \<in> set (documents s)" "\<not> (d_org d = org \<and> d_id d \<in> ids)"
    proof -
      obtain e where e: "e \<in> set (documents s)"
        "d = (if d_org e = org \<and> d_id e \<in> ids then bury_document now e else e)"
        using d(1) by (auto simp: tombstones_def set_update_where)
      with d(2) have "\<not> (d_org e = org \<and> d_id e \<in> ids)" by (metis bury_document_fields(5) doc_status.distinct(9))
      with e show "d \<in> set (documents s)" "\<not> (d_org d = org \<and> d_id d \<in> ids)" by simp_all
    qed
    have "select_where (\<lambda>c. c_doc c = d_id d) ?cs = select_where (\<lambda>c. c_doc c = d_id d) (chunks s)"
    proof (rule select_delete_disjoint)
      fix c assume c: "c \<in> set (chunks s)" "c_org c = org \<and> c_doc c \<in> ids"
      show "c_doc c \<noteq> d_id d"
      proof
        assume "c_doc c = d_id d"
        with chunk_home [OF assms c(1) old(1)] c(2) old(2) show False by simp
      qed
    qed
    then have "doc_chunks (d_id d) (tombstones org now ids s) = doc_chunks (d_id d) s"
      by (simp add: doc_chunks_def tombstones_def)
    with old(1) show "(d \<in> set (documents s) \<and> doc_chunks (d_id d) (tombstones org now ids s) = doc_chunks (d_id d) s)
        \<or> indexed cs co d (doc_chunks (d_id d) (tombstones org now ids s))" by simp
  qed
qed

section \<open>Upserts\<close>

lemma upsert_document_laws:
  assumes "upsert_document row now s = Inr ((doc, rv), s')" and ok: "db_ok s"
    and "d_status row = DPending"
  shows "db_ok s'" "index_ok cs co s \<Longrightarrow> index_ok cs co s'"
    "other \<noteq> d_org row \<Longrightarrow> view other s' = view other s" "jobs s' = jobs s"
proof -
  note docs = docs_ok [OF ok]
  have "db_ok s' \<and> (index_ok cs co s \<longrightarrow> index_ok cs co s')
      \<and> (other \<noteq> d_org row \<longrightarrow> view other s' = view other s) \<and> jobs s' = jobs s"
    using assms(1)
  proof (cases rule: upsert_document_Inr)
    case (updated old)
    let ?ds = "documents s'"
    have "db_ok (s\<lparr>documents := ?ds, chunks := chunks s\<rparr>)"
      using docs by (intro docs_db_ok [OF ok])
        (simp_all add: updated(7) map_update_where refs_update_child refs_update_parent)
    moreover have "index_ok cs co s'" if "index_ok cs co s"
      using that by (rule index_okI) (auto simp: updated(7) table_simps doc_chunks_def split: if_splits)
    moreover have "view other (s\<lparr>documents := ?ds, chunks := chunks s\<rparr>) = view other s" if "other \<noteq> d_org row"
      by (rule docs_view) (use that in \<open>auto simp: updated(7) intro!: select_update_disjoint\<close>)
    ultimately show ?thesis by (simp add: updated(7))
  next
    case inserted
    have "db_ok (s\<lparr>documents := documents s @ [row], chunks := chunks s\<rparr>)"
      using docs inserted(1-3) by (intro docs_db_ok [OF ok])
        (simp_all add: refs_append_iff refs_single refs_append_parent)
    moreover have "index_ok cs co s'" if "index_ok cs co s"
      using that by (rule index_okI) (use assms(3) in \<open>auto simp: inserted(6) doc_chunks_def\<close>)
    moreover have "view other (s\<lparr>documents := documents s @ [row], chunks := chunks s\<rparr>) = view other s"
      if "other \<noteq> d_org row"
      by (rule docs_view) (use that in \<open>simp_all add: select_append\<close>)
    ultimately show ?thesis by (simp add: inserted(6))
  qed
  then show "db_ok s'" "index_ok cs co s \<Longrightarrow> index_ok cs co s'"
    "other \<noteq> d_org row \<Longrightarrow> view other s' = view other s" "jobs s' = jobs s" by blast+
qed

text \<open>
  What one item does to the rows: \<open>touched\<close> collects the paths the loop has written, every
  other row of the source is as it was before the sync.
\<close>

definition live_paths :: "pystr \<Rightarrow> pystr \<Rightarrow> db \<Rightarrow> pystr set" where
  "live_paths org source s =
     {d_path d | d. d \<in> set (documents s) \<and> d_org d = org \<and> d_source d = source \<and> d_status d \<noteq> DDeleted}"

definition synced_to :: "pystr \<Rightarrow> pystr \<Rightarrow> pystr set \<Rightarrow> db \<Rightarrow> db \<Rightarrow> bool" where
  "synced_to org source touched s0 s \<longleftrightarrow>
     (\<forall>d\<in>set (documents s). d_org d = org \<and> d_source d = source \<and> d_path d \<in> touched \<longrightarrow> d_status d = DPending)
   \<and> (\<forall>d\<in>set (documents s). \<not> (d_org d = org \<and> d_source d = source \<and> d_path d \<in> touched) \<longrightarrow> d \<in> set (documents s0))
   \<and> (\<forall>d\<in>set (documents s0). \<not> (d_org d = org \<and> d_source d = source \<and> d_path d \<in> touched) \<longrightarrow> d \<in> set (documents s))
   \<and> (\<forall>p\<in>touched. \<exists>d\<in>set (documents s). d_org d = org \<and> d_source d = source \<and> d_path d = p)"

lemma upsert_synced:
  assumes "upsert_document row now s = Inr ((doc, rv), s')" and "synced_to org source touched s0 s"
    and "d_org row = org" "d_source row = source" "d_status row = DPending"
  shows "synced_to org source (insert (d_path row) touched) s0 s'"
  using assms(1)
proof (cases rule: upsert_document_Inr)
  case (updated old)
  let ?hit = "\<lambda>d. d_org d = d_org row \<and> d_source d = d_source row \<and> d_path d = d_path row"
  let ?f = "\<lambda>d. d\<lparr>d_content := d_content row, d_hash := d_hash row, d_acl := d_acl row,
                     d_pii := d_pii row, d_status := DPending, d_updated := now\<rparr>"
  let ?in = "\<lambda>d T. d_org d = org \<and> d_source d = source \<and> d_path d \<in> T"
  have rows: "set (documents s') = (\<lambda>d. if ?hit d then ?f d else d) ` set (documents s)"
    by (simp add: updated(7) set_update_where)
  have pending: "d_status d = DPending" if d: "d \<in> set (documents s')" "?in d (insert (d_path row) touched)" for d
  proof -
    obtain e where e: "e \<in> set (documents s)" "d = (if ?hit e then ?f e else e)" using d(1) rows by auto
    show ?thesis
    proof (cases "?hit e")
      case False
      with e d(2) assms(2-4) show ?thesis unfolding synced_to_def by auto
    qed (simp add: e(2))
  qed
  have same: "d \<in> set (documents s') \<longleftrightarrow> d \<in> set (documents s)" if d: "\<not> ?in d (insert (d_path row) touched)" for d
  proof
    assume "d \<in> set (documents s')"
    then obtain e where e: "e \<in> set (documents s)" "d = (if ?hit e then ?f e else e)" using rows by auto
    with d assms(3,4) show "d \<in> set (documents s)" by (cases "?hit e") auto
  next
    assume "d \<in> set (documents s)"
    with d assms(3,4) show "d \<in> set (documents s')" unfolding rows by (intro rev_image_eqI [of d]) auto
  qed
  have present: "\<exists>d\<in>set (documents s'). d_org d = org \<and> d_source d = source \<and> d_path d = p"
    if p: "p \<in> insert (d_path row) touched" for p
  proof -
    obtain d where d: "d \<in> set (documents s)" "d_org d = org" "d_source d = source" "d_path d = p"
      using p assms(2-4) updated(1-4) unfolding synced_to_def by blast
    have "(if ?hit d then ?f d else d) \<in> set (documents s')" using d(1) unfolding rows by (rule imageI)
    moreover have "d_org (if ?hit d then ?f d else d) = org \<and> d_source (if ?hit d then ?f d else d) = source
        \<and> d_path (if ?hit d then ?f d else d) = p" using d by simp
    ultimately show ?thesis by blast
  qed
  show ?thesis
    unfolding synced_to_def using pending same present assms(2) unfolding synced_to_def by blast
next
  case inserted
  have rows: "d \<in> set (documents s') \<longleftrightarrow> d = row \<or> d \<in> set (documents s)" for d
    by (auto simp: inserted(6))
  have new: "\<not> (d_org d = org \<and> d_source d = source \<and> d_path d = d_path row)" if "d \<in> set (documents s)" for d
    using inserted(3) that assms(3,4) by (auto simp: image_iff)
  show ?thesis
    unfolding synced_to_def
  proof (intro conjI ballI impI)
    fix d assume "d \<in> set (documents s')" "d_org d = org \<and> d_source d = source \<and> d_path d \<in> insert (d_path row) touched"
    then have "d = row \<or> (d \<in> set (documents s) \<and> d_org d = org \<and> d_source d = source \<and> d_path d \<in> touched)"
      using rows new by blast
    then show "d_status d = DPending" using assms(2,5) unfolding synced_to_def by metis
  next
    fix d assume "d \<in> set (documents s')" "\<not> (d_org d = org \<and> d_source d = source \<and> d_path d \<in> insert (d_path row) touched)"
    moreover from this have "d \<in> set (documents s)" using rows [of d] assms(3,4) by auto
    ultimately show "d \<in> set (documents s0)" using assms(2) unfolding synced_to_def by blast
  next
    fix d assume "d \<in> set (documents s0)" "\<not> (d_org d = org \<and> d_source d = source \<and> d_path d \<in> insert (d_path row) touched)"
    moreover from this have "d \<in> set (documents s)" using assms(2) unfolding synced_to_def by blast
    ultimately show "d \<in> set (documents s')" using rows [of d] by simp
  next
    fix p assume "p \<in> insert (d_path row) touched"
    then consider "p = d_path row" | "p \<in> touched" by auto
    then show "\<exists>d\<in>set (documents s'). d_org d = org \<and> d_source d = source \<and> d_path d = p"
    proof cases
      case 1
      with rows [of row] assms(3,4) show ?thesis by auto
    next
      case 2
      then obtain d where "d \<in> set (documents s)" "d_org d = org \<and> d_source d = source \<and> d_path d = p"
        using assms(2) unfolding synced_to_def by blast
      with rows [of d] show ?thesis by blast
    qed
  qed
qed


section \<open>The loop over the items\<close>

definition changed_paths :: "(pystr \<Rightarrow> pystr) \<Rightarrow> document_row list \<Rightarrow> upload_item list \<Rightarrow> pystr set" where
  "changed_paths hash existing items = it_path ` {item \<in> set items. \<not> unchanged_row hash existing item}"

lemma changed_paths_Cons:
  "changed_paths hash existing (item # items) =
     (if unchanged_row hash existing item then {} else {it_path item}) \<union> changed_paths hash existing items"
  by (auto simp: changed_paths_def)

lemma item_row_fields [simp]:
  "d_org (item_row hash detect org source f now it) = org" "d_source (item_row hash detect org source f now it) = source"
  "d_path (item_row hash detect org source f now it) = it_path it"
  "d_status (item_row hash detect org source f now it) = DPending"
  by (simp_all add: item_row_def)

lemma upsert_ids:
  assumes "upsert_document row now s = Inr ((doc, rv), s')"
  shows "doc \<in> d_id ` set (documents s')" "d_id ` set (documents s) \<subseteq> d_id ` set (documents s')"
  using assms by (cases rule: upsert_document_Inr; auto simp: image_update_where)+

definition sync_frame :: "int \<Rightarrow> int \<Rightarrow> pystr \<Rightarrow> db \<Rightarrow> db \<Rightarrow> bool" where
  "sync_frame cs co org s s' \<longleftrightarrow>
     db_ok s' \<and> (index_ok cs co s \<longrightarrow> index_ok cs co s')
   \<and> (\<forall>other. other \<noteq> org \<longrightarrow> view other s' = view other s) \<and> jobs s' = jobs s"

lemma sync_frame_trans: "sync_frame cs co org a b \<Longrightarrow> sync_frame cs co org b c \<Longrightarrow> sync_frame cs co org a c"
  by (simp add: sync_frame_def)

lemma sync_items_laws:
  assumes "sync_items hash detect org source existing fresh_doc now i items acc = Inr acc'"
    and "db_ok (sa_db acc)" and "synced_to org source touched s0 (sa_db acc)"
    and "fst ` set (sa_jobs acc) \<subseteq> d_id ` set (documents (sa_db acc))"
  shows "sync_frame cs co org (sa_db acc) (sa_db acc')
    \<and> synced_to org source (touched \<union> changed_paths hash existing items) s0 (sa_db acc')
    \<and> sa_enqueued acc' + sa_unchanged acc' = sa_enqueued acc + sa_unchanged acc + length items
    \<and> fst ` set (sa_jobs acc') \<subseteq> d_id ` set (documents (sa_db acc'))
    \<and> length (sa_jobs acc') + sa_enqueued acc = sa_enqueued acc' + length (sa_jobs acc)"
  using assms
proof (induction items arbitrary: i acc touched)
  case Nil
  then show ?case by (simp add: sync_frame_def changed_paths_def)
next
  case (Cons item items)
  obtain acc1 where step: "sync_item hash detect org source existing (fresh_doc i) now item acc = Inr acc1"
    and rest: "sync_items hash detect org source existing fresh_doc now (Suc i) items acc1 = Inr acc'"
    using Cons.prems(1) by (auto simp: result_simps)
  show ?case
  proof (cases "unchanged_row hash existing item")
    case True
    with step have acc1: "acc1 = acc\<lparr>sa_unchanged := sa_unchanged acc + 1\<rparr>" by (simp add: sync_item_def)
    from Cons.IH [OF rest, of touched] Cons.prems acc1 True show ?thesis
      by (simp add: changed_paths_Cons)
  next
    case False
    let ?row = "item_row hash detect org source (fresh_doc i) now item"
    from step False obtain doc rv s1 where up: "upsert_document ?row now (sa_db acc) = Inr ((doc, rv), s1)"
      and acc1: "acc1 = \<lparr>sa_enqueued = sa_enqueued acc + 1, sa_unchanged = sa_unchanged acc,
          sa_jobs = sa_jobs acc @ [(doc, hash (it_content item) @ ascii '':'' @ dec_digits rv)], sa_db = s1\<rparr>"
      by (auto simp: sync_item_def result_simps)
    have pend: "d_status ?row = DPending" by simp
    note up_laws = upsert_document_laws [OF up Cons.prems(2) pend]
    have frame: "sync_frame cs co org (sa_db acc) s1"
      using up_laws by (simp add: sync_frame_def)
    have "synced_to org source (insert (it_path item) touched) s0 s1"
      using upsert_synced [OF up Cons.prems(3)] by simp
    moreover have "fst ` set (sa_jobs acc1) \<subseteq> d_id ` set (documents (sa_db acc1))"
      using upsert_ids [OF up] Cons.prems(4) by (auto simp: acc1)
    ultimately have "sync_frame cs co org s1 (sa_db acc')
      \<and> synced_to org source (insert (it_path item) touched \<union> changed_paths hash existing items) s0 (sa_db acc')
      \<and> sa_enqueued acc' + sa_unchanged acc' = sa_enqueued acc + 1 + sa_unchanged acc + length items
      \<and> fst ` set (sa_jobs acc') \<subseteq> d_id ` set (documents (sa_db acc'))
      \<and> length (sa_jobs acc') + (sa_enqueued acc + 1) = sa_enqueued acc' + (length (sa_jobs acc) + 1)"
      using Cons.IH [OF rest, of "insert (it_path item) touched"] up_laws(1) by (simp add: acc1)
    then show ?thesis
      using sync_frame_trans [OF frame] False by (simp add: changed_paths_Cons Un_assoc)
  qed
qed

section \<open>The transaction\<close>

lemma synced_to_refl: "synced_to org source {} s s"
  by (simp add: synced_to_def)

lemma sync_transaction_cases:
  assumes "sync_transaction hash detect fresh_doc now org source items precheck s = Inr (res, todo, s')"
    and ok: "db_ok s"
  obtains s1 where "precheck s = Inr ()"
    "synced_to org source (changed_paths hash (existing_rows org source s) items) s s1"
    "sync_frame cs co org s s1"
    "s' = tombstones org now (d_id ` set (missing (map it_path items) (existing_rows org source s))) s1"
    "sr_enqueued res + sr_unchanged res = length items" "length todo = sr_enqueued res"
    "sr_deleted res = length (missing (map it_path items) (existing_rows org source s))"
    "fst ` set todo \<subseteq> d_id ` set (documents s1)"
proof -
  let ?ex = "existing_rows org source s"
  have dist: "distinct (map d_id ?ex)"
    using docs_ok(1) [OF ok] by (simp add: existing_rows_def distinct_select_where)
  obtain acc where pre: "precheck s = Inr ()"
    and acc: "sync_items hash detect org source ?ex fresh_doc now 0 items
        \<lparr>sa_enqueued = 0, sa_unchanged = 0, sa_jobs = [], sa_db = s\<rparr> = Inr acc"
    and out: "res = \<lparr>sr_enqueued = sa_enqueued acc, sr_unchanged = sa_unchanged acc,
        sr_deleted = length (missing (map it_path items) ?ex)\<rparr>" "todo = sa_jobs acc"
      "s' = tombstones org now (d_id ` set (missing (map it_path items) ?ex)) (sa_db acc)"
    using assms(1) unfolding sync_transaction_def Let_def andthen_Inr
    by (auto simp: tombstone_missing_eq [OF dist])
  with sync_items_laws [OF acc, of "{}" s cs co] pre ok synced_to_refl show thesis
    by (intro that [of "sa_db acc"]) simp_all
qed

lemma sync_transaction_laws:
  assumes "sync_transaction hash detect fresh_doc now org source items precheck s = Inr (res, todo, s')"
    and "db_ok s"
  shows "sync_frame cs co org s s'" "sr_enqueued res + sr_unchanged res = length items"
    "fst ` set todo \<subseteq> d_id ` set (documents s')"
proof -
  obtain s1 where s1: "sync_frame cs co org s s1"
    and s': "s' = tombstones org now (d_id ` set (missing (map it_path items) (existing_rows org source s))) s1"
    and n: "sr_enqueued res + sr_unchanged res = length items" "fst ` set todo \<subseteq> d_id ` set (documents s1)"
    using sync_transaction_cases [OF assms, of cs co] by metis
  have "db_ok s1" using s1 by (simp add: sync_frame_def)
  from tombstones_laws [OF this] have "sync_frame cs co org s1 s'"
    by (simp add: sync_frame_def s') (simp add: tombstones_def)
  with s1 show "sync_frame cs co org s s'" by (rule sync_frame_trans)
  show "sr_enqueued res + sr_unchanged res = length items" by (rule n)
  have "d_id ` set (documents s') = d_id ` set (documents s1)"
    by (simp add: s' tombstones_def image_update_where)
  with n(2) show "fst ` set todo \<subseteq> d_id ` set (documents s')" by simp
qed


section \<open>Reconciliation\<close>

text \<open>A tombstoned row carries a path that is not incoming; every other row is untouched.\<close>

lemma tombstones_rows:
  assumes "d \<in> set (documents s)" and "\<not> (d_org d = org \<and> d_id d \<in> ids)"
  shows "d \<in> set (documents (tombstones org now ids s))"
  using assms by (auto simp: tombstones_def set_update_where intro: rev_image_eqI)

lemma tombstones_live:
  assumes "d \<in> set (documents (tombstones org now ids s))" and "d_status d \<noteq> DDeleted"
  shows "d \<in> set (documents s)" "\<not> (d_org d = org \<and> d_id d \<in> ids)"
proof -
  obtain e where e: "e \<in> set (documents s)" "d = (if d_org e = org \<and> d_id e \<in> ids then bury_document now e else e)"
    using assms(1) by (auto simp: tombstones_def set_update_where)
  with assms(2) have "\<not> (d_org e = org \<and> d_id e \<in> ids)" by (metis bury_document_fields(5))
  with e show "d \<in> set (documents s)" "\<not> (d_org d = org \<and> d_id d \<in> ids)" by simp_all
qed

lemma existing_rows_iff:
  "d \<in> set (existing_rows org source s) \<longleftrightarrow> d \<in> set (documents s) \<and> d_org d = org \<and> d_source d = source"
  by (auto simp: existing_rows_def set_select_where)

lemma missing_iff:
  "d \<in> set (missing incoming ex) \<longleftrightarrow> d \<in> set ex \<and> d_path d \<notin> set incoming \<and> d_status d \<noteq> DDeleted"
  by (auto simp: missing_def set_select_where)

lemma sync_live_paths:
  assumes "sync_transaction hash detect fresh_doc now org source items precheck s = Inr (res, todo, s')"
    and ok: "db_ok s"
  shows "live_paths org source s' = it_path ` set items"
proof -
  let ?ex = "existing_rows org source s"
  let ?T = "changed_paths hash ?ex items"
  let ?miss = "missing (map it_path items) ?ex"
  obtain s1 where sync: "synced_to org source ?T s s1" and "sync_frame 0 0 org s s1"
    and s': "s' = tombstones org now (d_id ` set ?miss) s1"
    using sync_transaction_cases [OF assms, of 0 0] by metis
  then have ok1: "db_ok s1" by (simp add: sync_frame_def)
  have T: "?T \<subseteq> it_path ` set items" by (auto simp: changed_paths_def)
  have kept: "d_id d \<notin> d_id ` set ?miss" if d: "d \<in> set (documents s1)" "d_path d \<in> it_path ` set items" for d
  proof
    assume "d_id d \<in> d_id ` set ?miss"
    then obtain r where r: "r \<in> set ?ex" "d_path r \<notin> it_path ` set items" "d_id r = d_id d"
      by (auto simp: missing_iff)
    then have "r \<in> set (documents s1)"
      using sync T unfolding synced_to_def existing_rows_iff by blast
    with d(1) r(3) docs_ok(1) [OF ok1] have "r = d" by (metis distinct_key_eq)
    with d(2) r(2) show False by simp
  qed
  show ?thesis
  proof (intro equalityI subsetI)
    fix p assume "p \<in> live_paths org source s'"
    then obtain d where d: "d \<in> set (documents s')" "d_org d = org" "d_source d = source" "d_path d = p"
      "d_status d \<noteq> DDeleted" by (auto simp: live_paths_def)
    note live = tombstones_live [OF d(1) [unfolded s'] d(5)]
    show "p \<in> it_path ` set items"
    proof (rule ccontr)
      assume out: "p \<notin> it_path ` set items"
      then have "d \<in> set (documents s)" using live(1) sync T d(4) unfolding synced_to_def by blast
      with d out have "d \<in> set ?miss" by (simp add: missing_iff existing_rows_iff)
      with live(2) d(2) show False by blast
    qed
  next
    fix p assume p: "p \<in> it_path ` set items"
    then obtain item where item: "item \<in> set items" "it_path item = p" by blast
    have "\<exists>d\<in>set (documents s1). d_org d = org \<and> d_source d = source \<and> d_path d = p \<and> d_status d \<noteq> DDeleted"
    proof (cases "p \<in> ?T")
      case True
      with sync obtain d where d: "d \<in> set (documents s1)" "d_org d = org" "d_source d = source" "d_path d = p"
        unfolding synced_to_def by blast
      moreover from this True sync have "d_status d = DPending" unfolding synced_to_def by blast
      ultimately show ?thesis by force
    next
      case False
      with item have "unchanged_row hash ?ex item" by (auto simp: changed_paths_def)
      then obtain d where "find (\<lambda>r. d_path r = p) ?ex = Some d" and st: "d_status d = DIngested"
        using item(2) by (auto simp: unchanged_row_def split: option.splits)
      then have d: "d \<in> set ?ex" "d_path d = p" by (auto dest!: find_SomeD)
      with False sync have "d \<in> set (documents s1)" unfolding synced_to_def existing_rows_iff by blast
      with d st show ?thesis by (auto simp: existing_rows_iff)
    qed
    then obtain d where d: "d \<in> set (documents s1)" "d_org d = org" "d_source d = source" "d_path d = p"
      "d_status d \<noteq> DDeleted" by blast
    have "d_id d \<notin> d_id ` set ?miss" using kept [OF d(1)] d(4) p by simp
    with d(1) have "d \<in> set (documents s')" unfolding s' by (intro tombstones_rows) simp_all
    with d show "p \<in> live_paths org source s'" unfolding live_paths_def by blast
  qed
qed

section \<open>The whole operation\<close>

text \<open>
  An identifier that the database generated is read back as itself (\<open>ids_ok\<close>), so the payload
  of a queued job always names a document the worker can look up.
\<close>

definition ids_ok :: "(pystr \<Rightarrow> pystr option) \<Rightarrow> db \<Rightarrow> bool" where
  "ids_ok pg_uuid s \<longleftrightarrow> (\<forall>d\<in>set (documents s). pg_uuid (d_id d) \<noteq> None)"

lemma enqueue_all_laws:
  assumes "enqueue_all m org fresh_job clock i todo s = (r, s')" and "db_ok s"
  shows "db_ok s'" "other \<noteq> org \<Longrightarrow> view other s' = view other s"
    "documents s' = documents s" "chunks s' = chunks s"
    "queue_ok pg s \<Longrightarrow> (\<forall>(doc, x)\<in>set todo. pg doc \<noteq> None) \<Longrightarrow> queue_ok pg s'"
proof -
  have "db_ok s' \<and> (\<forall>other. other \<noteq> org \<longrightarrow> view other s' = view other s) \<and> documents s' = documents s
      \<and> chunks s' = chunks s \<and> (queue_ok pg s \<longrightarrow> (\<forall>(doc, x)\<in>set todo. pg doc \<noteq> None) \<longrightarrow> queue_ok pg s')"
    using assms
  proof (induction todo arbitrary: i s)
    case (Cons job todo)
    obtain doc suffix where job: "job = (doc, suffix)" by (cases job)
    let ?e = "enqueue m org (ascii ''ingest_document'') [(ascii ''document_id'', doc)]
             (ascii ''ingest:'' @ doc @ ascii '':'' @ suffix) None (fresh_job i) (clock i) s"
    show ?case
    proof (cases ?e)
      case (Inl e)
      with Cons.prems job show ?thesis by simp
    next
      case (Inr p)
      obtain b s1 where p: "p = (b, s1)" by (cases p)
      from Inr p have e: "?e = Inr (b, s1)" by simp
      then obtain js where s1: "s1 = s\<lparr>jobs := jobs s @ js\<rparr>" "\<forall>j\<in>set js. j_org j = org \<and> j_attempts j = 0
            \<and> map_of (j_payload j) (ascii ''document_id'') = Some doc"
        by (auto simp: enqueue_def result_simps split: if_splits intro: that [of "[]"])
      have "db_ok s1" using enqueue_db_ok [OF e Cons.prems(2)] .
      moreover have "enqueue_all m org fresh_job clock (Suc i) todo s1 = (r, s')"
        using Cons.prems(1) Inr p job by simp
      moreover have "view other s1 = view other s" if "other \<noteq> org" for other
      proof -
        have "select_where (\<lambda>j. j_org j = other) js = []"
          using s1(2) that by (auto simp: select_where_def filter_empty_conv)
        then show ?thesis by (simp add: s1(1) view_def is_member_def group_in_def select_append)
      qed
      moreover have "queue_ok pg s1" if "queue_ok pg s" "pg doc \<noteq> None"
        using that s1(2) by (auto simp: queue_ok_def s1(1))
      ultimately show ?thesis using Cons.IH [of "Suc i" s1] job s1(1) by auto
    qed
  qed simp
  then show "db_ok s'" "other \<noteq> org \<Longrightarrow> view other s' = view other s"
    "documents s' = documents s" "chunks s' = chunks s"
    "queue_ok pg s \<Longrightarrow> (\<forall>(doc, x)\<in>set todo. pg doc \<noteq> None) \<Longrightarrow> queue_ok pg s'" by blast+
qed

lemma sync_documents_laws:
  assumes "sync_documents hash detect m fresh_doc fresh_job now clock org source items precheck s = (r, s')"
    and ok: "db_ok s"
  shows "db_ok s'" "index_ok cs co s \<Longrightarrow> index_ok cs co s'" "other \<noteq> org \<Longrightarrow> view other s' = view other s"
proof -
  have "db_ok s' \<and> (index_ok cs co s \<longrightarrow> index_ok cs co s') \<and> (other \<noteq> org \<longrightarrow> view other s' = view other s)"
  proof (cases "sync_transaction hash detect fresh_doc now org source items precheck s")
    case (Inl e)
    with assms show ?thesis by (simp add: sync_documents_def)
  next
    case (Inr p)
    obtain res todo s1 where p: "p = (res, todo, s1)" by (metis prod.collapse)
    obtain r2 s2 where e: "enqueue_all m org fresh_job clock 0 todo s1 = (r2, s2)"
      by (cases "enqueue_all m org fresh_job clock 0 todo s1")
    with assms(1) Inr p have s': "s' = s2" by (auto simp: sync_documents_def split: sum.splits)
    have frame: "sync_frame cs co org s s1" using sync_transaction_laws(1) [OF Inr [unfolded p] ok] .
    then have ok1: "db_ok s1" by (simp add: sync_frame_def)
    note enq = enqueue_all_laws [OF e ok1]
    have "index_ok cs co s1 \<Longrightarrow> index_ok cs co s2" by (simp add: index_ok_def doc_chunks_def enq(3,4))
    with frame enq(1,2) show ?thesis unfolding sync_frame_def s' by metis
  qed
  then show "db_ok s'" "index_ok cs co s \<Longrightarrow> index_ok cs co s'" "other \<noteq> org \<Longrightarrow> view other s' = view other s"
    by blast+
qed

lemma sync_transaction_elsewhere:
  assumes "sync_transaction hash detect fresh_doc now org source items precheck s = Inr (res, todo, s')"
    and ok: "db_ok s"
  shows "d_org d \<noteq> org \<or> d_source d \<noteq> source \<Longrightarrow> d \<in> set (documents s') \<longleftrightarrow> d \<in> set (documents s)"
proof -
  let ?ids = "d_id ` set (missing (map it_path items) (existing_rows org source s))"
  assume d: "d_org d \<noteq> org \<or> d_source d \<noteq> source"
  obtain s1 where sync: "synced_to org source (changed_paths hash (existing_rows org source s) items) s s1"
    and "sync_frame 0 0 org s s1" and s': "s' = tombstones org now ?ids s1"
    using sync_transaction_cases [OF assms, of 0 0] by metis
  have same: "e \<in> set (documents s1) \<longleftrightarrow> e \<in> set (documents s)" if "d_org e \<noteq> org \<or> d_source e \<noteq> source" for e
    using sync that unfolding synced_to_def by blast
  have source: "d_source e = source" if e: "e \<in> set (documents s1)" "d_id e \<in> ?ids" "d_org e = org" for e
  proof (rule ccontr)
    assume other: "d_source e \<noteq> source"
    then have "e \<in> set (documents s)" using same e(1) by blast
    moreover obtain r where r: "r \<in> set (documents s)" "d_source r = source" "d_id r = d_id e"
      using e(2) by (auto simp: missing_iff existing_rows_iff)
    ultimately show False using other docs_ok(1) [OF ok] by (metis distinct_key_eq)
  qed
  have "d \<in> set (documents s') \<longleftrightarrow> d \<in> set (documents s1)"
  proof
    assume "d \<in> set (documents s')"
    then obtain e where e: "e \<in> set (documents s1)"
      "d = (if d_org e = org \<and> d_id e \<in> ?ids then bury_document now e else e)"
      by (auto simp: s' tombstones_def table_simps)
    with source d show "d \<in> set (documents s1)" by (auto simp: bury_document_def split: if_splits)
  next
    assume in1: "d \<in> set (documents s1)"
    then have "\<not> (d_org d = org \<and> d_id d \<in> ?ids)" using source d by blast
    with in1 show "d \<in> set (documents s')" by (force simp: s' tombstones_def table_simps)
  qed
  with same d show ?thesis by blast
qed

lemma distinct_map_key:
  assumes "distinct (map f xs)" "\<And>x y. x \<in> set xs \<Longrightarrow> y \<in> set xs \<Longrightarrow> g x = g y \<Longrightarrow> f x = f y"
  shows "distinct (map g xs)"
proof -
  have "inj_on f (set xs)" "distinct xs" using assms(1) by (simp_all add: distinct_map)
  then have "inj_on g (set xs)" using assms(2) by (intro inj_onI) (blast dest: inj_onD)
  with \<open>distinct xs\<close> show ?thesis by (simp add: distinct_map)
qed

text \<open>
  C39. A sync reconciles its source and nothing else.  After an upload that returns, the live
  documents of the source are exactly the uploaded paths, one each; every document of another
  source or another organisation is the row it was; the counts add up to the upload; and the
  other organisations see no difference.
\<close>

theorem sync_reconciles_its_source:
  assumes "sync_documents hash detect m fresh_doc fresh_job now clock org source items precheck s = (Inr res, s')"
    and ok: "db_ok s"
  shows "live_paths org source s' = it_path ` set items
    \<and> distinct (map d_path (existing_rows org source s'))
    \<and> (\<forall>d. d_org d \<noteq> org \<or> d_source d \<noteq> source \<longrightarrow> (d \<in> set (documents s') \<longleftrightarrow> d \<in> set (documents s)))
    \<and> sr_enqueued res + sr_unchanged res = length items
    \<and> (\<forall>other. other \<noteq> org \<longrightarrow> view other s' = view other s)"
proof -
  obtain todo s1 where sync: "sync_transaction hash detect fresh_doc now org source items precheck s = Inr (res, todo, s1)"
    and enq: "enqueue_all m org fresh_job clock 0 todo s1 = (Inr (), s')"
    using assms(1) by (auto simp: sync_documents_def split: sum.splits prod.splits)
  have ok1: "db_ok s1" using sync_transaction_laws(1) [OF sync ok] by (simp add: sync_frame_def)
  have docs: "documents s' = documents s1" using enqueue_all_laws(3) [OF enq ok1] .
  have "live_paths org source s' = it_path ` set items"
    using sync_live_paths [OF sync ok] by (simp add: live_paths_def docs)
  moreover have "d \<in> set (documents s') \<longleftrightarrow> d \<in> set (documents s)" if "d_org d \<noteq> org \<or> d_source d \<noteq> source" for d
    using sync_transaction_elsewhere [OF sync ok that] by (simp add: docs)
  moreover have "sr_enqueued res + sr_unchanged res = length items"
    using sync_transaction_cases [OF sync ok, of 0 0] by metis
  moreover have "view other s' = view other s" if "other \<noteq> org" for other
    using sync_documents_laws(3) [OF assms that] .
  moreover have "distinct (map d_path (existing_rows org source s'))"
  proof -
    have "distinct (map (\<lambda>d. (d_org d, d_source d, d_path d)) (existing_rows org source s'))"
      using docs_ok(2) [OF ok1] by (simp add: docs existing_rows_def distinct_select_where)
    then show ?thesis by (rule distinct_map_key) (auto simp: existing_rows_iff)
  qed
  ultimately show ?thesis by blast
qed

definition one_org :: db where
  "one_org = empty_db\<lparr>orgs := [\<lparr>o_id = [1], o_slug = [1], o_name = []\<rparr>],
     users := [\<lparr>u_id = [2], u_email = [2], u_hash = []\<rparr>],
     memberships := [\<lparr>m_user = [2], m_org = [1], m_role = r_owner, m_created = 0\<rparr>]\<rparr>"

lemma sync_reconciles_its_source_witness:
  "let (r, s') = sync_documents (\<lambda>x. x) (\<lambda>_. []) 3 (\<lambda>_. [41]) (\<lambda>_. [51]) 0 (\<lambda>_. 0) [1] (ascii ''local-folder'')
      [\<lparr>it_path = [5], it_content = [65], it_acl = None\<rparr>] (\<lambda>_. Inr ()) one_org
   in live_paths [1] (ascii ''local-folder'') s' = {[5]}"
proof -
  have ok: "db_ok one_org"
    by (simp add: one_org_def empty_db_def db_ok_def keys_ok_def id_defs refs_ok_def home_defs owners_ok_def
        roles_ok_def is_owner_def is_member_def known_role_def refs_def refs_opt_def)
  let ?run = "sync_documents (\<lambda>x. x) (\<lambda>_. []) 3 (\<lambda>_. [41]) (\<lambda>_. [51]) 0 (\<lambda>_. 0) [1] (ascii ''local-folder'')
      [\<lparr>it_path = [5], it_content = [65], it_acl = None\<rparr>] (\<lambda>_. Inr ()) one_org"
  have "\<exists>res s'. ?run = (Inr res, s')"
    by (simp add: one_org_def empty_db_def sync_documents_def sync_transaction_def existing_rows_def sync_item_def
        unchanged_row_def item_row_def upsert_document_def id_defs enqueue_def insert_job_def Let_def)
  then obtain res s' where run: "?run = (Inr res, s')" by blast
  show ?thesis using sync_reconciles_its_source [OF run ok] unfolding run Let_def prod.case by simp
qed

section \<open>Returning to an earlier version\<close>

definition ingest_key :: "pystr \<Rightarrow> pystr \<Rightarrow> nat \<Rightarrow> pystr" where
  "ingest_key doc content_hash revision =
     ascii ''ingest:'' @ doc @ ascii '':'' @ content_hash @ ascii '':'' @ dec_digits revision"

lemma find_only:
  assumes "x \<in> set xs" "P x" and only: "\<forall>y\<in>set xs. P y \<longrightarrow> y = x"
  shows "find P xs = Some x"
proof (cases "find P xs")
  case None
  with assms(1,2) show ?thesis by (auto simp: find_None)
next
  case (Some y)
  with find_SomeD [OF Some] only show ?thesis by simp
qed

text \<open>What the upload of one changed item does to a document the source already has.\<close>

lemma sync_item_known:
  assumes d: "d \<in> set (documents (sa_db acc))" "d_org d = org" "d_source d = source" "d_path d = it_path item"
    and keys: "distinct (map (\<lambda>d. (d_org d, d_source d, d_path d)) (documents (sa_db acc)))"
    and changed: "\<not> unchanged_row hash ex item"
  obtains s1 where "sync_item hash detect org source ex fresh now item acc =
    Inr \<lparr>sa_enqueued = sa_enqueued acc + 1, sa_unchanged = sa_unchanged acc,
         sa_jobs = sa_jobs acc @ [(d_id d, hash (it_content item) @ ascii '':'' @ dec_digits (d_revision d))],
         sa_db = s1\<rparr>"
    and "jobs s1 = jobs (sa_db acc)"
    and "\<exists>d'\<in>set (documents s1). d_id d' = d_id d \<and> d_status d' = DPending \<and> d_content d' = it_content item"
proof -
  let ?hit = "\<lambda>e. d_org e = org \<and> d_source e = source \<and> d_path e = it_path item"
  let ?new = "\<lambda>e. e\<lparr>d_content := it_content item, d_hash := hash (it_content item),
               d_acl := d_acl (item_row hash detect org source fresh now item),
               d_pii := detect (it_content item), d_status := DPending, d_updated := now\<rparr>"
  let ?s1 = "(sa_db acc)\<lparr>documents := update_where ?hit ?new (documents (sa_db acc))\<rparr>"
  have "\<forall>e\<in>set (documents (sa_db acc)). ?hit e \<longrightarrow> e = d"
    using distinct_key_eq [OF keys _ d(1)] d(2-4) by simp
  from find_only [OF d(1) _ this] have hit: "find ?hit (documents (sa_db acc)) = Some d" using d(2-4) by simp
  have "sync_item hash detect org source ex fresh now item acc =
    Inr \<lparr>sa_enqueued = sa_enqueued acc + 1, sa_unchanged = sa_unchanged acc,
         sa_jobs = sa_jobs acc @ [(d_id d, hash (it_content item) @ ascii '':'' @ dec_digits (d_revision d))],
         sa_db = ?s1\<rparr>"
    using changed hit by (simp add: sync_item_def upsert_document_def item_row_def del: ascii_Cons)
  moreover have "?new d \<in> set (documents ?s1)"
    using d by (simp add: set_update_where)
  then have "\<exists>d'\<in>set (documents ?s1). d_id d' = d_id d \<and> d_status d' = DPending \<and> d_content d' = it_content item"
    by (rule bexI [rotated]) simp
  ultimately show thesis by (intro that [of ?s1]) simp_all
qed


definition second_version :: db where
  "second_version = one_org\<lparr>
     documents := [\<lparr>d_id = [41], d_org = [1], d_source = [9], d_path = [5], d_content = [66], d_hash = [66],
        d_acl = DEFAULT_ACL, d_status = DIngested, d_pii = [], d_revision = 0, d_updated = 2\<rparr>],
     jobs := [\<lparr>j_id = [51], j_org = [1], j_kind = ascii ''ingest_document'', j_payload = [(ascii ''document_id'', [41])],
        j_key = ingest_key [41] [65] 0, j_status = JSucceeded, j_attempts = 1, j_max = 3, j_error = None,
        j_run_after = 0, j_created = 0, j_updated = 0\<rparr>]\<rparr>"


end
