(* ===== verification/OrgGroups.thy ===== *)
theory OrgGroups
  imports Access
begin

text \<open>
  The group operations of \<open>TenantScope\<close>.  Ordering by a text column uses the database's
  collation, given as the sort key \<open>coll\<close>.
\<close>

section \<open>Operations\<close>

type_synonym group_out = "pystr \<times> pystr \<times> time"

definition group_out :: "group_row \<Rightarrow> group_out" where
  "group_out g = (g_id g, g_name g, g_created g)"

definition list_groups :: "(pystr \<Rightarrow> pystr) \<Rightarrow> auth_context \<Rightarrow> db \<Rightarrow> group_out list" where
  "list_groups coll ctx s =
     map group_out (sort_key (\<lambda>g. coll (g_name g))
       (select_where (scoped ctx g_org (\<lambda>_. True)) (groups s)))"

definition insert_group :: "group_row \<Rightarrow> db \<Rightarrow> sql_error + db" where
  "insert_group row s =
     (if exists_where (\<lambda>g. g_id g = g_id row \<or> (g_org g = g_org row \<and> g_name g = g_name row)) (groups s)
      then Inl UniqueViolation
      else if g_org row \<notin> set (org_ids s) then Inl ForeignKeyViolation
      else Inr (s\<lparr>groups := groups s @ [row]\<rparr>))"

definition create_group ::
  "auth_context \<Rightarrow> pystr \<Rightarrow> pystr \<Rightarrow> time \<Rightarrow> db \<Rightarrow> exc + (group_out \<times> db)" where
  "create_group ctx name fresh now s =
     andthen (require_role ctx r_admin) (\<lambda>_.
       let row = \<lparr>g_id = fresh, g_org = ctx_org ctx, g_name = name, g_created = now\<rparr> in
       andthen (on_unique (Conflict (ascii ''group already exists: '' @ name)) (insert_group row s))
         (\<lambda>s'. Inr (group_out row, s')))"

definition group_not_found :: "pystr \<Rightarrow> exc" where
  "group_not_found gid = NotFound (ascii ''group not found: '' @ gid)"

definition get_group :: "(pystr \<Rightarrow> pystr option) \<Rightarrow> auth_context \<Rightarrow> pystr \<Rightarrow> db \<Rightarrow> exc + group_out" where
  "get_group pg_uuid ctx gid s =
     andthen (uuid_arg pg_uuid gid) (\<lambda>g.
       or_raise
         (map_option group_out (find (scoped ctx g_org (\<lambda>r. g_id r = g)) (groups s)))
         (group_not_found gid))"

definition insert_group_member :: "group_member_row \<Rightarrow> db \<Rightarrow> sql_error + db" where
  "insert_group_member row s =
     (if exists_where (\<lambda>m. gm_group m = gm_group row \<and> gm_user m = gm_user row) (group_members s)
      then Inr s
      else if gm_group row \<notin> set (group_ids s) \<or> gm_user row \<notin> set (user_ids s)
      then Inl ForeignKeyViolation
      else Inr (s\<lparr>group_members := group_members s @ [row]\<rparr>))"

definition add_group_member ::
  "(pystr \<Rightarrow> pystr option) \<Rightarrow> auth_context \<Rightarrow> pystr \<Rightarrow> pystr \<Rightarrow> db \<Rightarrow> exc + db" where
  "add_group_member pg_uuid ctx gid uid s =
     andthen (require_role ctx r_admin) (\<lambda>_.
     andthen (get_group pg_uuid ctx gid s) (\<lambda>_.
     andthen (uuid_arg pg_uuid uid) (\<lambda>u.
     andthen (check (is_member s u (ctx_org ctx))
                (NotFound (ascii ''user is not a member of this org: '' @ uid))) (\<lambda>_.
     andthen (uuid_arg pg_uuid gid) (\<lambda>g.
       db_raise (insert_group_member \<lparr>gm_group = g, gm_user = u\<rparr> s))))))"

definition org_user_by_email :: "pystr \<Rightarrow> pystr \<Rightarrow> db \<Rightarrow> user_row option" where
  "org_user_by_email org email s =
     find (\<lambda>u. u_email u = email \<and> is_member s (u_id u) org) (users s)"

definition add_group_member_by_email ::
  "(pystr \<Rightarrow> pystr option) \<Rightarrow> (pystr \<Rightarrow> pystr) \<Rightarrow> auth_context \<Rightarrow> pystr \<Rightarrow> pystr \<Rightarrow> db
     \<Rightarrow> exc + (pystr \<times> db)" where
  "add_group_member_by_email pg_uuid lower ctx gid email s =
     andthen (require_role ctx r_admin) (\<lambda>_.
     andthen (or_raise (org_user_by_email (ctx_org ctx) (lower (strip email)) s)
                (NotFound (ascii ''no member of this org with email: '' @ email))) (\<lambda>u.
     andthen (add_group_member pg_uuid ctx gid (u_id u) s) (\<lambda>s'.
       Inr (u_id u, s'))))"

definition remove_group_member ::
  "(pystr \<Rightarrow> pystr option) \<Rightarrow> auth_context \<Rightarrow> pystr \<Rightarrow> pystr \<Rightarrow> db \<Rightarrow> exc + db" where
  "remove_group_member pg_uuid ctx gid uid s =
     andthen (require_role ctx r_admin) (\<lambda>_.
     andthen (get_group pg_uuid ctx gid s) (\<lambda>_.
     andthen (uuid_arg pg_uuid gid) (\<lambda>g.
     andthen (uuid_arg pg_uuid uid) (\<lambda>u.
       Inr (s\<lparr>group_members :=
               delete_where (\<lambda>m. gm_group m = g \<and> gm_user m = u) (group_members s)\<rparr>)))))"

definition list_group_members ::
  "(pystr \<Rightarrow> pystr option) \<Rightarrow> (pystr \<Rightarrow> pystr) \<Rightarrow> auth_context \<Rightarrow> pystr \<Rightarrow> db
     \<Rightarrow> exc + (pystr \<times> pystr) list" where
  "list_group_members pg_uuid coll ctx gid s =
     andthen (get_group pg_uuid ctx gid s) (\<lambda>_.
     andthen (uuid_arg pg_uuid gid) (\<lambda>g.
       Inr (map (\<lambda>u. (u_id u, u_email u))
             (sort_key (\<lambda>u. coll (u_email u))
               [u. m \<leftarrow> group_members s, u \<leftarrow> users s, gm_group m = g \<and> u_id u = gm_user m]))))"

definition delete_group :: "(pystr \<Rightarrow> pystr option) \<Rightarrow> auth_context \<Rightarrow> pystr \<Rightarrow> db \<Rightarrow> exc + db" where
  "delete_group pg_uuid ctx gid s =
     andthen (require_role ctx r_admin) (\<lambda>_.
     andthen (uuid_arg pg_uuid gid) (\<lambda>g.
       if exists_where (scoped ctx g_org (\<lambda>r. g_id r = g)) (groups s)
       then Inr (delete_groups (scoped ctx g_org (\<lambda>r. g_id r = g)) s)
       else Inl (group_not_found gid)))"

section \<open>When each operation succeeds\<close>

lemma get_group_Inr [result_simps]:
  "get_group pg ctx gid s = Inr r \<longleftrightarrow>
     (\<exists>g row. pg gid = Some g
        \<and> find (\<lambda>r. g_id r = g \<and> g_org r = ctx_org ctx) (groups s) = Some row \<and> r = group_out row)"
  by (auto simp: get_group_def result_simps scoped_eq)

lemma get_group_ex:
  "(\<exists>r. get_group pg ctx gid s = Inr r) \<longleftrightarrow> (\<exists>g. pg gid = Some g \<and> group_in s g (ctx_org ctx))"
proof -
  have "(\<exists>row. find (\<lambda>r. g_id r = g \<and> g_org r = ctx_org ctx) (groups s) = Some row)
      \<longleftrightarrow> group_in s g (ctx_org ctx)" for g
    by (simp add: group_in_iff find_None flip: not_None_eq)
  then show ?thesis unfolding get_group_Inr by blast
qed

lemma insert_group_Inr [result_simps]:
  "insert_group row s = Inr s' \<longleftrightarrow>
     (\<forall>g\<in>set (groups s). g_id g \<noteq> g_id row \<and> (g_org g = g_org row \<longrightarrow> g_name g \<noteq> g_name row))
   \<and> g_org row \<in> set (org_ids s) \<and> s' = s\<lparr>groups := groups s @ [row]\<rparr>"
  by (auto simp: insert_group_def table_simps)

lemma insert_group_member_Inr:
  "insert_group_member row s = Inr s' \<longleftrightarrow>
     (if \<exists>m\<in>set (group_members s). gm_group m = gm_group row \<and> gm_user m = gm_user row
      then s' = s
      else gm_group row \<in> set (group_ids s) \<and> gm_user row \<in> set (user_ids s)
           \<and> s' = s\<lparr>group_members := group_members s @ [row]\<rparr>)"
  by (auto simp: insert_group_member_def table_simps)

lemma create_group_Inr [result_simps]:
  "create_group ctx name fresh now s = Inr (r, s') \<longleftrightarrow>
     role_at_least (ctx_role ctx) r_admin
   \<and> insert_group \<lparr>g_id = fresh, g_org = ctx_org ctx, g_name = name, g_created = now\<rparr> s = Inr s'
   \<and> r = (fresh, name, now)"
  by (auto simp: create_group_def andthen_Inr on_unique_Inr require_role_Inr Let_def group_out_def)

lemma add_group_member_Inr [result_simps]:
  "add_group_member pg ctx gid uid s = Inr s' \<longleftrightarrow>
     role_at_least (ctx_role ctx) r_admin
   \<and> (\<exists>g u. pg gid = Some g \<and> group_in s g (ctx_org ctx) \<and> pg uid = Some u
        \<and> is_member s u (ctx_org ctx)
        \<and> insert_group_member \<lparr>gm_group = g, gm_user = u\<rparr> s = Inr s')"
  using get_group_ex [of pg ctx gid s]
  by (auto simp: add_group_member_def andthen_Inr check_Inr require_role_Inr uuid_arg_Inr db_raise_Inr)

lemma remove_group_member_Inr [result_simps]:
  "remove_group_member pg ctx gid uid s = Inr s' \<longleftrightarrow>
     role_at_least (ctx_role ctx) r_admin
   \<and> (\<exists>g u. pg gid = Some g \<and> group_in s g (ctx_org ctx) \<and> pg uid = Some u
        \<and> s' = s\<lparr>group_members := delete_where (\<lambda>m. gm_group m = g \<and> gm_user m = u) (group_members s)\<rparr>)"
  using get_group_ex [of pg ctx gid s]
  by (auto simp: remove_group_member_def andthen_Inr require_role_Inr uuid_arg_Inr)

lemma delete_group_Inr [result_simps]:
  "delete_group pg ctx gid s = Inr s' \<longleftrightarrow>
     role_at_least (ctx_role ctx) r_admin
   \<and> (\<exists>g. pg gid = Some g \<and> group_in s g (ctx_org ctx)
        \<and> s' = delete_groups (\<lambda>r. g_id r = g \<and> g_org r = ctx_org ctx) s)"
  by (auto simp: delete_group_def andthen_Inr require_role_Inr uuid_arg_Inr group_in_def scoped_eq
      split: if_splits)

section \<open>Group operations keep the invariants and touch no other tenant\<close>

lemma create_group_db_ok:
  assumes "create_group ctx name fresh now s = Inr (r, s')" and "db_ok s"
  shows "db_ok s'"
proof (rule db_okI)
  have s': "s' = s\<lparr>groups := groups s @ [\<lparr>g_id = fresh, g_org = ctx_org ctx, g_name = name, g_created = now\<rparr>]\<rparr>"
    and new: "fresh \<notin> g_id ` set (groups s)" "ctx_org ctx \<in> o_id ` set (orgs s)"
      "(ctx_org ctx, name) \<notin> (\<lambda>g. (g_org g, g_name g)) ` set (groups s)"
    using assms(1) by (auto simp: result_simps id_defs)
  note ok = db_okD [OF assms(2)]
  have nogm: "gm_group m \<noteq> fresh" if "m \<in> set (group_members s)" for m
    using ok(2) new(1) that by (auto simp: refs_ok_def refs_def)
  show "keys_ok s'" using ok(1) new by (simp add: keys_ok_def id_defs s')
  show "refs_ok s'" using ok(2) new by (simp add: refs_ok_def s' table_simps refs_intros)
  show "home_ok s'"
    using ok(3) nogm by (auto simp: home_defs is_member_def s')
  show "owners_ok s'" "roles_ok s'" using ok(4,5) by (simp_all add: owners_ok_def roles_ok_def s')
qed

lemma create_group_view:
  assumes "create_group ctx name fresh now s = Inr (r, s')" and "org \<noteq> ctx_org ctx"
  shows "view org s' = view org s"
  using assms by (auto simp: result_simps view_def table_simps is_member_def group_in_def select_where_def)

lemma add_group_member_db_ok:
  assumes "add_group_member pg ctx gid uid s = Inr s'" and "db_ok s"
  shows "db_ok s'"
proof -
  note ok = db_okD [OF assms(2)]
  obtain g u where gu: "group_in s g (ctx_org ctx)" "is_member s u (ctx_org ctx)"
    and ins: "insert_group_member \<lparr>gm_group = g, gm_user = u\<rparr> s = Inr s'"
    using assms(1) by (auto simp: result_simps)
  show ?thesis
  proof (cases "s' = s")
    case False
    then have s': "s' = s\<lparr>group_members := group_members s @ [\<lparr>gm_group = g, gm_user = u\<rparr>]\<rparr>"
      and new: "(g, u) \<notin> (\<lambda>m. (gm_group m, gm_user m)) ` set (group_members s)"
        "g \<in> g_id ` set (groups s)" "u \<in> u_id ` set (users s)"
      using ins by (auto simp: insert_group_member_Inr id_defs split: if_splits)
    have home: "is_member s u (g_org q)" if "q \<in> set (groups s)" "g_id q = g" for q
    proof -
      have "group_in s g (g_org q)" using that by (auto simp: group_in_iff)
      then have "ctx_org ctx = g_org q" by (rule group_one_org [OF ok(1) gu(1)])
      with gu(2) show ?thesis by simp
    qed
    show ?thesis
    proof (rule db_okI)
      show "keys_ok s'" using ok(1) new by (simp add: keys_ok_def id_defs s')
      show "refs_ok s'" using ok(2) new by (simp add: refs_ok_def s' table_simps)
      show "home_ok s'"
        using ok(3) home by (auto simp: home_defs is_member_def s')
      show "owners_ok s'" "roles_ok s'" using ok(4,5) by (simp_all add: owners_ok_def roles_ok_def s')
    qed
  qed (simp add: assms)
qed

lemma add_group_member_view:
  assumes "add_group_member pg ctx gid uid s = Inr s'" and "db_ok s" and "org \<noteq> ctx_org ctx"
  shows "view org s' = view org s"
proof -
  obtain g u where gu: "group_in s g (ctx_org ctx)"
    and ins: "insert_group_member \<lparr>gm_group = g, gm_user = u\<rparr> s = Inr s'"
    using assms(1) by (auto simp: result_simps)
  have "\<not> group_in s g org"
    using gu group_one_org [OF db_okD(1) [OF assms(2)], of g] assms(3) by blast
  with ins show ?thesis
    by (auto simp: insert_group_member_Inr view_def table_simps is_member_def group_in_def split: if_splits)
qed

lemma remove_group_member_db_ok:
  assumes "remove_group_member pg ctx gid uid s = Inr s'" and "db_ok s"
  shows "db_ok s'"
proof -
  note ok = db_okD [OF assms(2)]
  from assms(1) obtain P where s': "s' = s\<lparr>group_members := delete_where P (group_members s)\<rparr>"
    by (auto simp: result_simps)
  show ?thesis
  proof (rule db_okI)
    show "keys_ok s'" using ok(1) by (simp add: keys_ok_def id_defs s' distinct_delete_where)
    show "refs_ok s'" using ok(2) by (simp add: refs_ok_def s' refs_intros)
    show "home_ok s'"
      using ok(3) by (simp add: home_defs is_member_def s' set_delete_where)
    show "owners_ok s'" "roles_ok s'" using ok(4,5) by (simp_all add: owners_ok_def roles_ok_def s')
  qed
qed

lemma remove_group_member_view:
  assumes "remove_group_member pg ctx gid uid s = Inr s'" and "db_ok s" and "org \<noteq> ctx_org ctx"
  shows "view org s' = view org s"
proof -
  obtain g u where gu: "group_in s g (ctx_org ctx)"
    and s': "s' = s\<lparr>group_members := delete_where (\<lambda>m. gm_group m = g \<and> gm_user m = u) (group_members s)\<rparr>"
    using assms(1) by (auto simp: result_simps)
  have "\<not> group_in s g org"
    using gu group_one_org [OF db_okD(1) [OF assms(2)], of g] assms(3) by blast
  then show ?thesis
    by (auto simp: s' view_def is_member_def group_in_def intro!: select_delete_disjoint)
qed

lemma delete_group_db_ok:
  assumes "delete_group pg ctx gid s = Inr s'" and "db_ok s"
  shows "db_ok s'"
proof -
  note ok = db_okD [OF assms(2)]
  from assms(1) obtain P where s': "s' = delete_groups P s" by (auto simp: result_simps)
  show ?thesis
  proof (rule db_okI)
    show "keys_ok s'" "refs_ok s'"
      using ok(1,2) by (simp_all add: s' keys_ok_cascade refs_ok_cascade)
    show "home_ok s'"
      using ok(3)
      by (auto simp: home_defs is_member_def s' delete_groups_def Let_def table_simps)
    show "owners_ok s'" "roles_ok s'"
      using ok(4,5) by (simp_all add: owners_ok_def roles_ok_def s' delete_groups_def Let_def)
  qed
qed

lemma delete_group_view:
  assumes "delete_group pg ctx gid s = Inr s'" and "db_ok s" and "org \<noteq> ctx_org ctx"
  shows "view org s' = view org s"
proof -
  from assms(1) obtain g where gu: "group_in s g (ctx_org ctx)"
    and s': "s' = delete_groups (\<lambda>r. g_id r = g \<and> g_org r = ctx_org ctx) s"
    by (auto simp: result_simps)
  have no: "\<not> group_in s g org"
    using gu group_one_org [OF db_okD(1) [OF assms(2)], of g] assms(3) by blast
  have keep: "group_in s' x org = group_in s x org" for x
    using assms(3) by (auto simp: s' delete_groups_def Let_def group_in_iff table_simps)
  have "select_where (\<lambda>m. group_in s (gm_group m) org) (group_members s')
      = select_where (\<lambda>m. group_in s (gm_group m) org) (group_members s)"
    unfolding s' delete_groups_def Let_def
    by simp (rule select_delete_disjoint, use no in \<open>auto simp: table_simps\<close>)
  then show ?thesis
    using assms(3) keep
    by (auto simp: view_def s' delete_groups_def Let_def is_member_def intro!: select_delete_disjoint)
qed

lemmas group_ops_db_ok = create_group_db_ok add_group_member_db_ok remove_group_member_db_ok
  delete_group_db_ok

lemmas group_ops_view = create_group_view add_group_member_view remove_group_member_view
  delete_group_view

end
