(* ===== verification/Members.thy ===== *)
theory Members
  imports OrgGroups
begin

text \<open>
  The member operations of \<open>TenantScope\<close>: role changes, removal and the paged listing, with
  \<open>purge_stranded_users\<close> of \<open>accounts.py\<close>, which removal calls.
\<close>

section \<open>Operations\<close>

definition owner_count :: "auth_context \<Rightarrow> db \<Rightarrow> nat" where
  "owner_count ctx s =
     length (select_where (\<lambda>m. m_org m = ctx_org ctx \<and> m_role m = r_owner) (memberships s))"

definition find_membership :: "pystr \<Rightarrow> pystr \<Rightarrow> db \<Rightarrow> membership_row option" where
  "find_membership u org s = find (\<lambda>m. m_user m = u \<and> m_org m = org) (memberships s)"

definition update_role :: "pystr \<Rightarrow> pystr \<Rightarrow> pystr \<Rightarrow> db \<Rightarrow> sql_error + db" where
  "update_role u org role s =
     (if known_role role \<or> \<not> is_member s u org
      then Inr (s\<lparr>memberships := update_where (\<lambda>m. m_user m = u \<and> m_org m = org)
                    (\<lambda>m. m\<lparr>m_role := role\<rparr>) (memberships s)\<rparr>)
      else Inl CheckViolation)"

definition set_member_role ::
  "(pystr \<Rightarrow> pystr option) \<Rightarrow> auth_context \<Rightarrow> pystr \<Rightarrow> pystr \<Rightarrow> db \<Rightarrow> exc + db" where
  "set_member_role pg_uuid ctx uid role s =
     andthen (require_can_grant ctx role) (\<lambda>_.
     andthen (check (uid \<noteq> ctx_user ctx) (Forbidden (ascii ''you cannot change your own role''))) (\<lambda>_.
     andthen (uuid_arg pg_uuid uid) (\<lambda>u.
     andthen (or_raise (find_membership u (ctx_org ctx) s)
                (NotFound (ascii ''member not found: '' @ uid))) (\<lambda>target.
     andthen (check (\<not> (m_role target = r_owner \<and> role \<noteq> r_owner \<and> owner_count ctx s = 1))
                (Forbidden (ascii ''the org must keep at least one owner''))) (\<lambda>_.
       db_raise (update_role u (ctx_org ctx) role s))))))"

definition stranded :: "db \<Rightarrow> pystr list \<Rightarrow> user_row \<Rightarrow> bool" where
  "stranded s ids u \<longleftrightarrow>
     u_id u \<in> set ids \<and> \<not> exists_where (\<lambda>m. m_user m = u_id u) (memberships s)"

definition purge_stranded_users :: "pystr list \<Rightarrow> db \<Rightarrow> nat \<times> db" where
  "purge_stranded_users ids s =
     (if ids = [] then (0, s)
      else (length (select_where (stranded s ids) (users s)), delete_users (stranded s ids) s))"

definition delete_membership :: "pystr \<Rightarrow> pystr \<Rightarrow> db \<Rightarrow> db" where
  "delete_membership u org s =
     s\<lparr>memberships := delete_where (\<lambda>m. m_user m = u \<and> m_org m = org) (memberships s)\<rparr>"

definition remove_member ::
  "(pystr \<Rightarrow> pystr option) \<Rightarrow> auth_context \<Rightarrow> pystr \<Rightarrow> db \<Rightarrow> exc + db" where
  "remove_member pg_uuid ctx uid s =
     andthen (require_role ctx r_admin) (\<lambda>_.
     andthen (check (uid \<noteq> ctx_user ctx) (Forbidden (ascii ''you cannot remove yourself''))) (\<lambda>_.
     andthen (uuid_arg pg_uuid uid) (\<lambda>u.
     andthen (or_raise (find_membership u (ctx_org ctx) s)
                (NotFound (ascii ''member not found: '' @ uid))) (\<lambda>target.
     andthen (check (\<not> (m_role target = r_owner \<and> owner_count ctx s = 1))
                (Forbidden (ascii ''cannot remove the last owner''))) (\<lambda>_.
       Inr (snd (purge_stranded_users [u] (delete_membership u (ctx_org ctx) s))))))))"

definition count_members :: "auth_context \<Rightarrow> db \<Rightarrow> nat" where
  "count_members ctx s = length (select_where (\<lambda>m. m_org m = ctx_org ctx) (memberships s))"

type_synonym member_out = "pystr \<times> pystr \<times> pystr \<times> time"

definition page :: "nat \<Rightarrow> nat \<Rightarrow> 'a list \<Rightarrow> 'a list" where
  "page limit offset rows = take limit (drop offset rows)"

definition member_rows :: "(pystr \<Rightarrow> pystr) \<Rightarrow> auth_context \<Rightarrow> db \<Rightarrow> member_out list" where
  "member_rows coll ctx s =
     map (\<lambda>(m, u). (u_id u, u_email u, m_role m, m_created m))
       (sort_key (\<lambda>(m, u). coll (u_email u))
         (join_where (\<lambda>m u. u_id u = m_user m \<and> m_org m = ctx_org ctx) (memberships s) (users s)))"

definition list_members ::
  "(pystr \<Rightarrow> pystr) \<Rightarrow> auth_context \<Rightarrow> nat \<Rightarrow> nat \<Rightarrow> db \<Rightarrow> member_out list" where
  "list_members coll ctx limit offset s = page limit offset (member_rows coll ctx s)"

section \<open>When the operations succeed\<close>

lemma find_membership_Some:
  "find_membership u org s = Some m \<Longrightarrow> m \<in> set (memberships s) \<and> m_user m = u \<and> m_org m = org"
  by (auto simp: find_membership_def dest!: find_SomeD)

lemma find_membership_ex: "(\<exists>m. find_membership u org s = Some m) \<longleftrightarrow> is_member s u org"
  by (simp add: find_membership_def is_member_iff find_None flip: not_None_eq)

lemma set_member_role_Inr [result_simps]:
  "set_member_role pg ctx uid role s = Inr s' \<longleftrightarrow>
     role_at_least (ctx_role ctx) r_admin \<and> role_at_least (ctx_role ctx) role \<and> uid \<noteq> ctx_user ctx
   \<and> (\<exists>u m. pg uid = Some u \<and> find_membership u (ctx_org ctx) s = Some m
        \<and> \<not> (m_role m = r_owner \<and> role \<noteq> r_owner \<and> owner_count ctx s = 1)
        \<and> update_role u (ctx_org ctx) role s = Inr s')"
  unfolding set_member_role_def by (auto simp: result_simps)

lemma remove_member_Inr [result_simps]:
  "remove_member pg ctx uid s = Inr s' \<longleftrightarrow>
     role_at_least (ctx_role ctx) r_admin \<and> uid \<noteq> ctx_user ctx
   \<and> (\<exists>u m. pg uid = Some u \<and> find_membership u (ctx_org ctx) s = Some m
        \<and> \<not> (m_role m = r_owner \<and> owner_count ctx s = 1)
        \<and> s' = snd (purge_stranded_users [u] (delete_membership u (ctx_org ctx) s)))"
  unfolding remove_member_def by (auto simp: result_simps)

lemma update_role_Inr [result_simps]:
  "known_role role \<Longrightarrow> update_role u org role s = Inr s' \<longleftrightarrow>
     s' = s\<lparr>memberships := update_where (\<lambda>m. m_user m = u \<and> m_org m = org)
                    (\<lambda>m. m\<lparr>m_role := role\<rparr>) (memberships s)\<rparr>"
  by (auto simp: update_role_def)

section \<open>The owner count\<close>

lemma owner_count_pos: "owners_ok s \<Longrightarrow> ctx_org ctx \<in> set (org_ids s) \<Longrightarrow> 0 < owner_count ctx s"
  by (auto simp: owners_ok_def owner_count_def is_owner_def select_where_def id_defs
      filter_empty_conv intro!: Nat.gr0I)

lemma another_owner:
  assumes "owner_count ctx s \<noteq> 1" and "m \<in> set (memberships s)"
    and "m_org m = ctx_org ctx" and "m_role m = r_owner"
    and "distinct (map m_user (memberships s))"
  shows "\<exists>q\<in>set (memberships s). m_org q = ctx_org ctx \<and> m_role q = r_owner \<and> m_user q \<noteq> m_user m"
proof (rule ccontr)
  let ?P = "\<lambda>q. m_org q = ctx_org ctx \<and> m_role q = r_owner"
  assume "\<not> ?thesis"
  then have same: "\<And>q. q \<in> set (memberships s) \<Longrightarrow> ?P q \<Longrightarrow> m_user q = m_user m"
    by blast
  have all: "q = m" if q: "q \<in> set (memberships s)" "?P q" for q
    by (rule distinct_key_eq [OF assms(5) q(1) assms(2) same [OF q]])
  have "set (filter ?P (memberships s)) = {m}"
    unfolding set_filter using all assms(2-4) by blast
  moreover have "distinct (filter ?P (memberships s))"
    using assms(5) by (simp add: distinct_map)
  then have "length (filter ?P (memberships s)) = card (set (filter ?P (memberships s)))"
    by (rule distinct_card [symmetric])
  ultimately have "length (filter ?P (memberships s)) = 1"
    by simp
  with assms(1) show False by (simp add: owner_count_def select_where_def)
qed

text \<open>The count the code reads is the number of owner memberships, and a page never repeats a row.\<close>

lemma page_page: "page a 0 rows @ page b a rows = page (a + b) 0 rows"
  by (simp add: page_def take_add)

section \<open>Member operations keep the invariants and touch no other tenant\<close>

lemma is_member_update_role:
  "is_member (s\<lparr>memberships := update_where P (\<lambda>m. m\<lparr>m_role := role\<rparr>) (memberships s)\<rparr>) u org
     \<longleftrightarrow> is_member s u org"
  by (simp add: is_member_def exists_update_where)

lemma set_member_role_db_ok:
  assumes "set_member_role pg ctx uid role s = Inr s'" and "db_ok s"
  shows "db_ok s'"
proof (rule db_okI)
  note ok = db_okD [OF assms(2)]
  obtain u m where m: "find_membership u (ctx_org ctx) s = Some m"
    and last: "\<not> (m_role m = r_owner \<and> role \<noteq> r_owner \<and> owner_count ctx s = 1)"
    and grant: "role_at_least (ctx_role ctx) role"
    and upd: "update_role u (ctx_org ctx) role s = Inr s'"
    using assms(1) by (auto simp: result_simps)
  let ?hit = "\<lambda>m. m_user m = u \<and> m_org m = ctx_org ctx"
  have known: "known_role role" using roles.closed [OF grant] by simp
  with upd have s': "s' = s\<lparr>memberships := update_where ?hit (\<lambda>m. m\<lparr>m_role := role\<rparr>) (memberships s)\<rparr>"
    by (simp add: update_role_Inr)
  note m' = find_membership_Some [OF m]
  show "keys_ok s'" using ok(1) by (simp add: keys_ok_def id_defs s' map_update_where)
  show "refs_ok s'" using ok(2) by (simp add: refs_ok_def s' refs_intros)
  show "home_ok s'"
    using ok(3) by (simp add: home_defs s' is_member_update_role map_update_where refs_update_parent
        refs_opt_def image_update_where)
  show "roles_ok s'" using ok(5) known by (auto simp: roles_ok_def s' table_simps)
  show "owners_ok s'"
    unfolding owners_ok_def
  proof
    fix org assume "org \<in> set (orgs s')"
    then have "org \<in> set (orgs s)" by (simp add: s')
    then obtain q where q: "q \<in> set (memberships s)" "m_org q = o_id org" "m_role q = r_owner"
      using ok(4) by (auto simp: owners_ok_def is_owner_def)
    show "\<exists>m\<in>set (memberships s'). m_org m = o_id org \<and> is_owner m"
    proof (cases "?hit q \<and> role \<noteq> r_owner")
      case False
      let ?q = "if ?hit q then q\<lparr>m_role := role\<rparr> else q"
      have "?q \<in> set (memberships s')" using q(1) by (auto simp: s' table_simps)
      moreover have "m_org ?q = o_id org \<and> is_owner ?q" using q False by (auto simp: is_owner_def)
      ultimately show ?thesis by blast
    next
      case True
      have "q = m"
        using True q(1) m' ok(3) by (auto simp: home_defs dest: distinct_key_eq)
      with last True q have "owner_count ctx s \<noteq> 1" by auto
      then obtain q' where q': "q' \<in> set (memberships s)" "m_org q' = ctx_org ctx"
        "m_role q' = r_owner" "m_user q' \<noteq> m_user q"
        using another_owner [of ctx s q] q True ok(3) by (auto simp: home_defs)
      then have "q' \<in> set (memberships s')"
        using True by (auto simp: s' table_simps image_iff intro!: bexI [of _ q'])
      with q' q True show ?thesis by (auto simp: is_owner_def)
    qed
  qed
qed

lemma set_member_role_view:
  assumes "set_member_role pg ctx uid role s = Inr s'" and "org \<noteq> ctx_org ctx"
  shows "view org s' = view org s"
proof -
  obtain u where upd: "update_role u (ctx_org ctx) role s = Inr s'"
    and grant: "role_at_least (ctx_role ctx) role"
    using assms(1) by (auto simp: result_simps)
  let ?hit = "\<lambda>m. m_user m = u \<and> m_org m = ctx_org ctx"
  from upd roles.closed [OF grant]
  have s': "s' = s\<lparr>memberships := update_where ?hit (\<lambda>m. m\<lparr>m_role := role\<rparr>) (memberships s)\<rparr>"
    by (simp add: update_role_Inr)
  have "select_where (\<lambda>m. m_org m = org) (memberships s') = select_where (\<lambda>m. m_org m = org) (memberships s)"
    unfolding s' by (simp, rule select_update_disjoint) (use assms(2) in auto)
  moreover have "group_in s' = group_in s" by (simp add: fun_eq_iff group_in_def s')
  ultimately show ?thesis
    by (simp add: view_def s' is_member_update_role)
qed

lemma purge_after_removal:
  assumes "db_ok s" and "is_member s u org"
  shows "snd (purge_stranded_users [u] (delete_membership u org s)) = delete_users (\<lambda>x. u_id x = u) s"
proof -
  note ok = db_okD [OF assms(1)]
  have home: "home_refs s" using ok(3) by (simp add: home_ok_def)
  have only: "m_org m = org" if "m \<in> set (memberships s)" "m_user m = u" for m
    using one_home [OF home, of u "m_org m" org] assms(2) that by (auto simp: is_member_iff)
  then have "stranded (delete_membership u org s) [u] = (\<lambda>x. u_id x = u)"
    by (auto simp: stranded_def delete_membership_def table_simps fun_eq_iff)
  moreover have "set (map u_id (select_where (\<lambda>x. u_id x = u) (users s))) = {u}"
    using assms(2) ok(2) by (auto simp: is_member_iff refs_ok_def refs_def table_simps)
  moreover have "delete_where (\<lambda>m. m_user m = u) (delete_where (\<lambda>m. m_user m = u \<and> m_org m = org) xs)
      = delete_where (\<lambda>m. m_user m = u) xs" for xs :: "membership_row list"
    by (induction xs) auto
  ultimately show ?thesis
    by (simp add: purge_stranded_users_def delete_users_def delete_answers_def
        delete_membership_def Let_def del: set_map)
qed

lemma housed_delete_users:
  assumes "housed s" and "keys_ok s"
  shows "housed (delete_users P s)"
  unfolding housed_def refs_def
proof
  fix x assume "x \<in> set (users (delete_users P s))"
  then have x: "x \<in> set (users s)" "\<not> P x" by (simp_all add: delete_users_fields table_simps)
  then obtain m where m: "m \<in> set (memberships s)" "m_user m = u_id x"
    using assms(1) refsD unfolding housed_def by metis
  have "u_id y \<noteq> u_id x" if "y \<in> set (users s)" "P y" for y
    using that x assms(2) by (auto simp: keys_ok_def id_defs dest: distinct_key_eq)
  with m have "m \<in> set (memberships (delete_users P s))"
    by (force simp: delete_users_def delete_answers_def Let_def table_simps)
  with m(2) show "u_id x \<in> m_user ` set (memberships (delete_users P s))"
    by (metis imageI)
qed

lemma remove_member_state:
  assumes "remove_member pg ctx uid s = Inr s'" and "db_ok s"
  obtains u m where "pg uid = Some u" "m \<in> set (memberships s)" "m_user m = u" "m_org m = ctx_org ctx"
    "m_role m = r_owner \<Longrightarrow> owner_count ctx s \<noteq> 1" "s' = delete_users (\<lambda>x. u_id x = u) s"
proof -
  obtain u m where um: "pg uid = Some u" "find_membership u (ctx_org ctx) s = Some m"
    "\<not> (m_role m = r_owner \<and> owner_count ctx s = 1)"
    "s' = snd (purge_stranded_users [u] (delete_membership u (ctx_org ctx) s))"
    using assms(1) by (auto simp: result_simps)
  have "is_member s u (ctx_org ctx)" using um(2) find_membership_ex by blast
  from that [of u m] um find_membership_Some [OF um(2)] purge_after_removal [OF assms(2) this]
  show thesis by auto
qed

lemma remove_member_db_ok:
  assumes "remove_member pg ctx uid s = Inr s'" and "db_ok s"
  shows "db_ok s'"
proof (rule db_okI)
  note ok = db_okD [OF assms(2)]
  obtain u m where m: "m \<in> set (memberships s)" "m_user m = u" "m_org m = ctx_org ctx"
    and last: "m_role m = r_owner \<Longrightarrow> owner_count ctx s \<noteq> 1"
    and s': "s' = delete_users (\<lambda>x. u_id x = u) s"
    using remove_member_state [OF assms] by metis
  have gone: "memberships s' = delete_where (\<lambda>q. m_user q = u) (memberships s)"
  proof -
    have "set (map u_id (select_where (\<lambda>x. u_id x = u) (users s))) = {u}"
      using m ok(2) by (auto simp: refs_ok_def refs_def table_simps)
    then show ?thesis by (simp add: s' delete_users_def delete_answers_def Let_def del: set_map)
  qed
  show "keys_ok s'" "refs_ok s'" using ok(1,2) by (simp_all add: s' keys_ok_cascade refs_ok_cascade)
  show "home_ok s'"
    using ok(3) by (simp add: home_ok_def s' home_refs_delete_users housed_delete_users ok(1))
  show "roles_ok s'" using ok(5) by (simp add: roles_ok_def gone table_simps)
  have uniq: "q = m" if "q \<in> set (memberships s)" "m_user q = u" for q
    using that m ok(3) by (auto simp: home_defs dest: distinct_key_eq)
  show "owners_ok s'"
    unfolding owners_ok_def
  proof
    fix org assume "org \<in> set (orgs s')"
    then obtain q where q: "q \<in> set (memberships s)" "m_org q = o_id org" "m_role q = r_owner"
      using ok(4) by (auto simp: owners_ok_def is_owner_def s' delete_users_fields)
    show "\<exists>m\<in>set (memberships s'). m_org m = o_id org \<and> is_owner m"
    proof (cases "m_user q = u")
      case False
      with q show ?thesis by (auto simp: gone table_simps is_owner_def)
    next
      case True
      then have "q = m" using uniq q(1) by blast
      with last q m obtain q' where "q' \<in> set (memberships s)" "m_org q' = ctx_org ctx"
        "m_role q' = r_owner" "m_user q' \<noteq> m_user m"
        using another_owner [of ctx s m] ok(3) by (auto simp: home_defs)
      with q m \<open>q = m\<close> show ?thesis by (auto simp: gone table_simps is_owner_def)
    qed
  qed
qed

lemma remove_member_view:
  assumes "remove_member pg ctx uid s = Inr s'" and "db_ok s" and "org \<noteq> ctx_org ctx"
  shows "view org s' = view org s"
proof -
  note ok = db_okD [OF assms(2)]
  have home: "home_refs s" using ok(3) by (simp add: home_ok_def)
  obtain u m where m: "m \<in> set (memberships s)" "m_user m = u" "m_org m = ctx_org ctx"
    and s': "s' = delete_users (\<lambda>x. u_id x = u) s"
    using remove_member_state [OF assms(1,2)] by metis
  have "\<not> is_member s u org"
    using one_home [OF home, of u "ctx_org ctx" org] m assms(3) by (auto simp: is_member_iff)
  then show ?thesis
    unfolding s' by (intro delete_users_view [OF home ok(1)]) auto
qed

end
