(* ===== verification/Documents.thy ===== *)
theory Documents
  imports SyncLaws Members
begin

text \<open>
  The document and retrieval operations of \<open>TenantScope\<close>.  \<open>?|\<close> on a jsonb array of strings is
  \<open>acl_allows\<close>; \<open>cosine\<close> is pgvector's \<open><=>\<close>.  Rows that tie in an ORDER BY keep their table
  order.  \<open>sweep\<close> is the unbounded \<open>while True\<close> loop of \<open>_sweep\<close>, so its not returning is a
  value; \<open>paged_listing\<close> is the contract of a listing under which it returns everything.
\<close>

section \<open>Principals and retrieval\<close>

definition public_principal :: pystr where
  "public_principal = ascii ''public-to-org''"

definition principals :: "auth_context \<Rightarrow> db \<Rightarrow> pystr list" where
  "principals ctx s =
     [public_principal, ascii ''user:'' @ ctx_user ctx] @
     map (\<lambda>(gm, g). ascii ''group:'' @ gm_group gm)
       (join_where (\<lambda>gm g. g_id g = gm_group gm \<and> scoped ctx g_org (\<lambda>_. True) g \<and> gm_user gm = ctx_user ctx)
          (group_members s) (groups s))"

definition acl_allows :: "pystr list \<Rightarrow> pystr list \<Rightarrow> bool" where
  "acl_allows acl ps \<longleftrightarrow> list_ex (\<lambda>p. p \<in> set acl) ps"

definition searchable :: "auth_context \<Rightarrow> chunk_row \<Rightarrow> document_row \<Rightarrow> bool" where
  "searchable ctx c d \<longleftrightarrow>
     d_id d = c_doc c \<and> scoped ctx c_org (\<lambda>_. True) c \<and> rls (Some (ctx_org ctx)) (d_org d) \<and> d_status d = DIngested"

definition retrieval_stats :: "auth_context \<Rightarrow> db \<Rightarrow> nat \<times> nat" where
  "retrieval_stats ctx s =
     (let ps = principals ctx s in
      (length (join_where (searchable ctx) (chunks s) (documents s)),
       length (join_where (\<lambda>c d. searchable ctx c d \<and> acl_allows (c_acl c) ps) (chunks s) (documents s))))"

record hit =
  h_doc :: pystr
  h_ordinal :: nat
  h_text :: pystr
  h_path :: pystr
  h_distance :: real

definition search ::
  "(real list \<Rightarrow> real list \<Rightarrow> real) \<Rightarrow> auth_context \<Rightarrow> real list \<Rightarrow> nat \<Rightarrow> db \<Rightarrow> hit list" where
  "search cosine ctx query_embedding k s =
     (let ps = principals ctx s in
      take k (sort_key h_distance
        (map (\<lambda>(c, d). \<lparr>h_doc = c_doc c, h_ordinal = c_ordinal c, h_text = c_text c, h_path = d_path d,
                        h_distance = cosine (c_embedding c) query_embedding\<rparr>)
          (join_where (\<lambda>c d. searchable ctx c d \<and> acl_allows (c_acl c) ps) (chunks s) (documents s)))))"

definition retrieve ::
  "(pystr \<Rightarrow> exc + real list) \<Rightarrow> (real list \<Rightarrow> real list \<Rightarrow> real) \<Rightarrow> auth_context \<Rightarrow> pystr \<Rightarrow> nat \<Rightarrow> db
     \<Rightarrow> exc + hit list" where
  "retrieve embed_query cosine ctx query k s =
     andthen (embed_query query) (\<lambda>embedding. Inr (search cosine ctx embedding k s))"

section \<open>Documents\<close>

definition content_bytes :: "document_row list \<Rightarrow> nat" where
  "content_bytes ds = sum_list (map (\<lambda>d. utf8_len (d_content d)) ds)"

definition live_documents :: "auth_context \<Rightarrow> db \<Rightarrow> document_row list" where
  "live_documents ctx s = select_where (scoped ctx d_org (\<lambda>d. d_status d \<noteq> DDeleted)) (documents s)"

definition check_caps :: "nat \<Rightarrow> nat \<Rightarrow> auth_context \<Rightarrow> upload_item list \<Rightarrow> db \<Rightarrow> exc + unit" where
  "check_caps byte_cap doc_cap ctx items s =
     (let incoming_bytes = sum_list (map (\<lambda>i. utf8_len (it_content i)) items);
          live = live_documents ctx s in
      andthen (check (content_bytes live + incoming_bytes \<le> byte_cap)
                 (QuotaExceeded (ascii ''org storage cap exceeded''))) (\<lambda>_.
        check (length live + length items \<le> doc_cap)
          (QuotaExceeded (ascii ''org document cap exceeded''))))"

definition sync_source ::
  "(pystr \<Rightarrow> pystr) \<Rightarrow> (pystr \<Rightarrow> pystr list) \<Rightarrow> int \<Rightarrow> nat \<Rightarrow> nat \<Rightarrow> (nat \<Rightarrow> pystr) \<Rightarrow> (nat \<Rightarrow> pystr)
     \<Rightarrow> time \<Rightarrow> (nat \<Rightarrow> time) \<Rightarrow> auth_context \<Rightarrow> pystr \<Rightarrow> upload_item list \<Rightarrow> db \<Rightarrow> (exc + sync_result) \<times> db" where
  "sync_source hash detect job_max_attempts byte_cap doc_cap fresh_doc fresh_job now clock ctx source items s =
     (case require_role ctx r_admin of
        Inl e \<Rightarrow> (Inl e, s)
      | Inr _ \<Rightarrow> sync_documents hash detect job_max_attempts fresh_doc fresh_job now clock (ctx_org ctx) source items
                  (check_caps byte_cap doc_cap ctx items) s)"

definition count_documents :: "auth_context \<Rightarrow> db \<Rightarrow> nat" where
  "count_documents ctx s = length (select_where (scoped ctx d_org (\<lambda>_. True)) (documents s))"

type_synonym document_out = "document_row \<times> nat"

definition document_rows :: "(pystr \<Rightarrow> pystr) \<Rightarrow> auth_context \<Rightarrow> db \<Rightarrow> document_out list" where
  "document_rows coll ctx s =
     map (\<lambda>d. (d\<lparr>d_content := []\<rparr>,
               length (select_where (\<lambda>c. rls (Some (ctx_org ctx)) (c_org c) \<and> c_doc c = d_id d) (chunks s))))
       (sort_key (\<lambda>d. coll (d_path d)) (select_where (scoped ctx d_org (\<lambda>_. True)) (documents s)))"

definition list_documents ::
  "(pystr \<Rightarrow> pystr) \<Rightarrow> auth_context \<Rightarrow> nat \<Rightarrow> nat \<Rightarrow> db \<Rightarrow> document_out list" where
  "list_documents coll ctx limit offset s = page limit offset (document_rows coll ctx s)"

definition document_not_found :: "pystr \<Rightarrow> exc" where
  "document_not_found i = NotFound (ascii ''document not found: '' @ i)"

record document_text =
  dt_id :: pystr
  dt_path :: pystr
  dt_content :: pystr
  dt_chunks :: nat
  dt_updated :: time

definition get_document ::
  "(pystr \<Rightarrow> pystr option) \<Rightarrow> auth_context \<Rightarrow> pystr \<Rightarrow> db \<Rightarrow> exc + document_text" where
  "get_document pg_uuid ctx document_id s =
     (let ps = principals ctx s in
      andthen (uuid_arg pg_uuid document_id) (\<lambda>i.
        case join_where (\<lambda>d c. c_doc c = d_id d \<and> scoped ctx d_org (\<lambda>d. d_id d = i \<and> d_status d = DIngested) d
                 \<and> rls (Some (ctx_org ctx)) (c_org c) \<and> acl_allows (c_acl c) ps) (documents s) (chunks s) of
          [] \<Rightarrow> Inl (document_not_found document_id)
        | (d, c) # rest \<Rightarrow>
            (let parts = sort_key c_ordinal (c # map snd rest) in
             Inr \<lparr>dt_id = d_id d, dt_path = d_path d, dt_content = join_text [10] (map c_text parts),
                  dt_chunks = length parts, dt_updated = d_updated d\<rparr>)))"

definition delete_document :: "(pystr \<Rightarrow> pystr option) \<Rightarrow> auth_context \<Rightarrow> pystr \<Rightarrow> db \<Rightarrow> exc + db" where
  "delete_document pg_uuid ctx document_id s =
     andthen (require_role ctx r_admin) (\<lambda>_.
     andthen (uuid_arg pg_uuid document_id) (\<lambda>i.
       if exists_where (scoped ctx d_org (\<lambda>d. d_id d = i)) (documents s)
       then Inr (delete_documents (scoped ctx d_org (\<lambda>d. d_id d = i)) s)
       else Inl (document_not_found document_id)))"

definition update_document_acl ::
  "(pystr \<Rightarrow> pystr option) \<Rightarrow> auth_context \<Rightarrow> pystr \<Rightarrow> pystr list \<Rightarrow> time \<Rightarrow> db \<Rightarrow> exc + db" where
  "update_document_acl pg_uuid ctx document_id acl now s =
     andthen (require_role ctx r_admin) (\<lambda>_.
     andthen (uuid_arg pg_uuid document_id) (\<lambda>i.
       if exists_where (scoped ctx d_org (\<lambda>d. d_id d = i)) (documents s)
       then Inr (s\<lparr>documents := update_where (scoped ctx d_org (\<lambda>d. d_id d = i))
                     (\<lambda>d. d\<lparr>d_acl := acl, d_updated := now\<rparr>) (documents s),
                  chunks := update_where (scoped ctx c_org (\<lambda>c. c_doc c = i))
                     (\<lambda>c. c\<lparr>c_acl := acl\<rparr>) (chunks s)\<rparr>)
       else Inl (document_not_found document_id)))"

section \<open>Export\<close>

definition SWEEP_PAGE :: nat where
  "SWEEP_PAGE = 500"

partial_function (option) sweep_from :: "(nat \<Rightarrow> nat \<Rightarrow> 'a list) \<Rightarrow> nat \<Rightarrow> 'a list \<Rightarrow> 'a list option" where
  "sweep_from fetch limit rows =
     (let got = fetch limit (length rows); rows' = rows @ got in
      if length got < limit then Some rows' else sweep_from fetch limit rows')"

definition sweep :: "(nat \<Rightarrow> nat \<Rightarrow> 'a list) \<Rightarrow> 'a list option" where
  "sweep fetch = sweep_from fetch SWEEP_PAGE []"

record export_out =
  ex_members :: "member_out list option"
  ex_documents :: "document_out list option"

definition export :: "(pystr \<Rightarrow> pystr) \<Rightarrow> auth_context \<Rightarrow> db \<Rightarrow> exc + export_out" where
  "export coll ctx s =
     andthen (require_role ctx r_admin) (\<lambda>_.
       Inr \<lparr>ex_members = sweep (\<lambda>limit offset. list_members coll ctx limit offset s),
            ex_documents = sweep (\<lambda>limit offset. list_documents coll ctx limit offset s)\<rparr>)"

text \<open>The contract of a paginated listing, and the sweep that relies on it.\<close>

locale paged_listing =
  fixes fetch :: "nat \<Rightarrow> nat \<Rightarrow> 'a list" and everything :: "'a list"
  assumes fetch_page: "fetch limit offset = take limit (drop offset everything)"
begin

lemma sweep_from_complete:
  assumes "0 < limit" and "prefix = take n everything" and "n \<le> length everything"
  shows "sweep_from fetch limit prefix = Some everything"
  using assms(2,3)
proof (induction "length everything - n" arbitrary: n prefix rule: less_induct)
  case less
  have len: "length prefix = n" using less.prems by simp
  let ?got = "take limit (drop n everything)"
  show ?case
  proof (cases "length ?got < limit")
    case True
    then have "?got = drop n everything" by simp
    with True less.prems show ?thesis
      by (subst sweep_from.simps) (simp add: fetch_page len Let_def min_absorb2)
  next
    case False
    with less.prems(2) have more: "n + limit \<le> length everything" by (simp add: min_def split: if_splits)
    then have "length everything - (n + limit) < length everything - n" using assms(1) by simp
    moreover have "prefix @ ?got = take (n + limit) everything"
      using less.prems(1) by (simp add: take_add)
    ultimately have "sweep_from fetch limit (prefix @ ?got) = Some everything"
      using less.hyps more by blast
    with False less.prems show ?thesis
      by (subst sweep_from.simps) (simp add: fetch_page len Let_def min_absorb2)
  qed
qed

lemma sweep_complete: "sweep fetch = Some everything"
  unfolding sweep_def by (rule sweep_from_complete [where n = 0]) (simp_all add: SWEEP_PAGE_def)

end

interpretation members_listing: paged_listing "\<lambda>limit offset. list_members coll ctx limit offset s"
  "member_rows coll ctx s" for coll ctx s
  by unfold_locales (simp add: list_members_def page_def)

interpretation documents_listing: paged_listing "\<lambda>limit offset. list_documents coll ctx limit offset s"
  "document_rows coll ctx s" for coll ctx s
  by unfold_locales (simp add: list_documents_def page_def)


section \<open>Laws\<close>

lemma acl_allows_iff: "acl_allows acl ps \<longleftrightarrow> (\<exists>p\<in>set ps. p \<in> set acl)"
  by (simp add: acl_allows_def list_ex_iff)

lemma principals_iff:
  "p \<in> set (principals ctx s) \<longleftrightarrow>
     p = public_principal \<or> p = ascii ''user:'' @ ctx_user ctx
   \<or> (\<exists>gm\<in>set (group_members s). gm_user gm = ctx_user ctx \<and> group_in s (gm_group gm) (ctx_org ctx)
        \<and> p = ascii ''group:'' @ gm_group gm)"
  by (auto simp: principals_def set_join_where scoped_iff group_in_iff)

lemma set_sorted_take: "set (take k (sort_key f xs)) \<subseteq> set xs"
  by (metis set_sort set_take_subset)

lemma search_hits:
  assumes "h \<in> set (search cosine ctx q k s)"
  obtains c d where "c \<in> set (chunks s)" "d \<in> set (documents s)" "d_id d = c_doc c" "c_org c = ctx_org ctx"
    "d_org d = ctx_org ctx" "d_status d = DIngested" "acl_allows (c_acl c) (principals ctx s)"
    "h = \<lparr>h_doc = c_doc c, h_ordinal = c_ordinal c, h_text = c_text c, h_path = d_path d,
          h_distance = cosine (c_embedding c) q\<rparr>"
  using subsetD [OF set_sorted_take assms [unfolded search_def Let_def]]
  by (auto simp: set_join_where searchable_def scoped_iff)

text \<open>Every read factors through the caller's own part of the database.\<close>

lemma rls_scope: "rls (Some org) o1 \<longleftrightarrow> o1 = org"
  by auto

lemma principals_view: "principals ctx (view (ctx_org ctx) s) = principals ctx s"
  unfolding principals_def view_def db.simps
  by (subst join_select) (auto simp: scoped_iff group_in_iff)

lemma searchable_view:
  "join_where (\<lambda>c d. searchable ctx c d \<and> Q c) (chunks (view (ctx_org ctx) s)) (documents (view (ctx_org ctx) s))
     = join_where (\<lambda>c d. searchable ctx c d \<and> Q c) (chunks s) (documents s)"
  unfolding view_def db.simps by (rule join_select) (auto simp: searchable_def scoped_iff)

lemma search_view: "search cosine ctx q k (view (ctx_org ctx) s) = search cosine ctx q k s"
  by (simp add: search_def principals_view searchable_view)

lemma retrieval_stats_view: "retrieval_stats ctx (view (ctx_org ctx) s) = retrieval_stats ctx s"
  using searchable_view [of ctx "\<lambda>_. True" s]
  by (simp add: retrieval_stats_def principals_view searchable_view)

lemma get_document_view: "get_document pg ctx i (view (ctx_org ctx) s) = get_document pg ctx i s"
proof -
  have "join_where (\<lambda>d c. c_doc c = d_id d \<and> scoped ctx d_org (\<lambda>d. d_id d = j \<and> d_status d = DIngested) d
          \<and> rls (Some (ctx_org ctx)) (c_org c) \<and> acl_allows (c_acl c) ps)
        (documents (view (ctx_org ctx) s)) (chunks (view (ctx_org ctx) s))
      = join_where (\<lambda>d c. c_doc c = d_id d \<and> scoped ctx d_org (\<lambda>d. d_id d = j \<and> d_status d = DIngested) d
          \<and> rls (Some (ctx_org ctx)) (c_org c) \<and> acl_allows (c_acl c) ps) (documents s) (chunks s)" for j ps
    unfolding view_def db.simps by (rule join_select) (auto simp: scoped_iff)
  then show ?thesis by (simp add: get_document_def principals_view)
qed

lemma document_rows_view: "document_rows coll ctx (view (ctx_org ctx) s) = document_rows coll ctx s"
proof -
  have "select_where (\<lambda>c. rls (Some (ctx_org ctx)) (c_org c) \<and> c_doc c = i) (chunks (view (ctx_org ctx) s))
      = select_where (\<lambda>c. rls (Some (ctx_org ctx)) (c_org c) \<and> c_doc c = i) (chunks s)" for i
    unfolding view_def db.simps by (rule select_select) simp
  moreover have "select_where (scoped ctx d_org (\<lambda>_. True)) (documents (view (ctx_org ctx) s))
      = select_where (scoped ctx d_org (\<lambda>_. True)) (documents s)"
    unfolding view_def db.simps by (rule select_select) (simp add: scoped_iff)
  ultimately show ?thesis by (simp add: document_rows_def)
qed

lemma member_rows_view: "member_rows coll ctx (view (ctx_org ctx) s) = member_rows coll ctx s"
proof -
  have "join_where (\<lambda>m u. u_id u = m_user m \<and> m_org m = ctx_org ctx)
        (memberships (view (ctx_org ctx) s)) (users (view (ctx_org ctx) s))
      = join_where (\<lambda>m u. u_id u = m_user m \<and> m_org m = ctx_org ctx) (memberships s) (users s)"
    unfolding view_def db.simps by (rule join_select) (auto simp: is_member_iff)
  then show ?thesis by (simp add: member_rows_def)
qed

section \<open>Writes\<close>

lemma delete_document_Inr [result_simps]:
  "delete_document pg ctx i s = Inr s' \<longleftrightarrow>
     role_at_least (ctx_role ctx) r_admin
   \<and> (\<exists>d. pg i = Some d \<and> (\<exists>x\<in>set (documents s). d_id x = d \<and> d_org x = ctx_org ctx)
        \<and> s' = delete_documents (\<lambda>x. d_id x = d \<and> d_org x = ctx_org ctx) s)"
  by (auto simp: delete_document_def result_simps scoped_eq exists_where_iff split: if_splits)

lemma update_document_acl_Inr [result_simps]:
  "update_document_acl pg ctx i acl now s = Inr s' \<longleftrightarrow>
     role_at_least (ctx_role ctx) r_admin
   \<and> (\<exists>d. pg i = Some d \<and> (\<exists>x\<in>set (documents s). d_id x = d \<and> d_org x = ctx_org ctx)
        \<and> s' = s\<lparr>documents := update_where (\<lambda>x. d_id x = d \<and> d_org x = ctx_org ctx)
                     (\<lambda>x. x\<lparr>d_acl := acl, d_updated := now\<rparr>) (documents s),
                 chunks := update_where (\<lambda>c. c_doc c = d \<and> c_org c = ctx_org ctx)
                     (\<lambda>c. c\<lparr>c_acl := acl\<rparr>) (chunks s)\<rparr>)"
  by (auto simp: update_document_acl_def result_simps scoped_eq exists_where_iff split: if_splits)


lemma delete_documents_laws:
  assumes "db_ok s" and only: "\<And>d. P d \<Longrightarrow> d_org d = org"
  shows "db_ok (delete_documents P s)" "index_ok cs co s \<Longrightarrow> index_ok cs co (delete_documents P s)"
    "other \<noteq> org \<Longrightarrow> view other (delete_documents P s) = view other s" "jobs (delete_documents P s) = jobs s"
proof -
  note ok = db_okD [OF assms(1)] and docs = docs_ok [OF assms(1)]
  let ?gone = "set (map d_id (select_where P (documents s)))"
  have state: "delete_documents P s = s\<lparr>documents := delete_where P (documents s),
      chunks := delete_where (\<lambda>c. c_doc c \<in> ?gone) (chunks s)\<rparr>"
    by (simp add: delete_documents_def Let_def)
  show "db_ok (delete_documents P s)"
    unfolding state
  proof (rule docs_db_ok [OF assms(1)])
    show "refs (\<lambda>c. (c_doc c, c_org c)) (delete_where (\<lambda>c. c_doc c \<in> ?gone) (chunks s))
        (\<lambda>d. (d_id d, d_org d)) (delete_where P (documents s))"
      using docs(6) by (rule refs_delete_pair_parent)
  qed (use docs in \<open>simp_all add: distinct_delete_where refs_delete_child\<close>)
  have same_doc: "P d" if "d \<in> set (documents s)" "d_id d \<in> ?gone" for d
    using that docs(1) by (auto simp: set_select_where dest: distinct_key_eq)
  show "index_ok cs co (delete_documents P s)" if "index_ok cs co s"
    using that
  proof (rule index_okI)
    fix d assume "d \<in> set (documents (delete_documents P s))"
    then have d: "d \<in> set (documents s)" "\<not> P d" by (simp_all add: state set_delete_where)
    with same_doc have "d_id d \<notin> ?gone" by blast
    then have "select_where (\<lambda>c. c_doc c = d_id d) (delete_where (\<lambda>c. c_doc c \<in> ?gone) (chunks s))
        = select_where (\<lambda>c. c_doc c = d_id d) (chunks s)"
      by (intro select_delete_disjoint) metis
    then have "doc_chunks (d_id d) (delete_documents P s) = doc_chunks (d_id d) s"
      by (simp add: doc_chunks_def state)
    with d(1) show "(d \<in> set (documents s) \<and> doc_chunks (d_id d) (delete_documents P s) = doc_chunks (d_id d) s)
        \<or> indexed cs co d (doc_chunks (d_id d) (delete_documents P s))" by simp
  qed
  show "view other (delete_documents P s) = view other s" if "other \<noteq> org"
    unfolding state
  proof (rule docs_view)
    show "select_where (\<lambda>d. d_org d = other) (delete_where P (documents s))
        = select_where (\<lambda>d. d_org d = other) (documents s)"
      by (rule select_delete_disjoint) (use that only in auto)
    show "select_where (\<lambda>c. c_org c = other) (delete_where (\<lambda>c. c_doc c \<in> ?gone) (chunks s))
        = select_where (\<lambda>c. c_org c = other) (chunks s)"
    proof (rule select_delete_disjoint)
      fix c assume c: "c \<in> set (chunks s)" "c_doc c \<in> ?gone"
      then obtain d where "d \<in> set (documents s)" "P d" "d_id d = c_doc c" by (auto simp: set_select_where)
      with chunk_home [OF assms(1) c(1)] only that show "c_org c \<noteq> other" by metis
    qed
  qed
  show "jobs (delete_documents P s) = jobs s" by (simp add: state)
qed

lemma delete_document_laws:
  assumes "delete_document pg ctx i s = Inr s'" and "db_ok s"
  shows "db_ok s'" "index_ok cs co s \<Longrightarrow> index_ok cs co s'" "other \<noteq> ctx_org ctx \<Longrightarrow> view other s' = view other s"
proof -
  obtain d where s': "s' = delete_documents (\<lambda>x. d_id x = d \<and> d_org x = ctx_org ctx) s"
    using assms(1) by (auto simp: result_simps)
  note laws = delete_documents_laws [OF assms(2), of "\<lambda>x. d_id x = d \<and> d_org x = ctx_org ctx" "ctx_org ctx"]
  show "db_ok s'" "index_ok cs co s \<Longrightarrow> index_ok cs co s'" "other \<noteq> ctx_org ctx \<Longrightarrow> view other s' = view other s"
    using laws by (simp_all add: s')
qed

lemma indexed_acl:
  assumes "indexed cs co d rows"
  shows "indexed cs co (d\<lparr>d_acl := acl, d_updated := now\<rparr>) (map (\<lambda>c. c\<lparr>c_acl := acl\<rparr>) rows)"
proof -
  obtain texts where texts: "chunk_text cs co (d_content d) None None = Inr texts"
    and rows: "map (\<lambda>c. (c_ordinal c, c_text c, c_acl c)) rows = map (\<lambda>(i, t). (i, t, d_acl d)) (enumerate 0 texts)"
    using assms by (auto simp: indexed_def split: sum.splits)
  show ?thesis
    using arg_cong [OF rows, of "map (\<lambda>(i, t, a). (i, t, acl))"]
    by (simp add: indexed_def texts o_def case_prod_unfold)
qed

lemma update_document_acl_laws:
  assumes "update_document_acl pg ctx i acl now s = Inr s'" and ok: "db_ok s"
  shows "db_ok s'" "index_ok cs co s \<Longrightarrow> index_ok cs co s'" "other \<noteq> ctx_org ctx \<Longrightarrow> view other s' = view other s"
proof -
  note docs = docs_ok [OF ok]
  obtain i where s': "s' = s\<lparr>documents := update_where (\<lambda>x. d_id x = i \<and> d_org x = ctx_org ctx)
                     (\<lambda>x. x\<lparr>d_acl := acl, d_updated := now\<rparr>) (documents s),
                 chunks := update_where (\<lambda>c. c_doc c = i \<and> c_org c = ctx_org ctx)
                     (\<lambda>c. c\<lparr>c_acl := acl\<rparr>) (chunks s)\<rparr>"
    using assms(1) by (auto simp: result_simps)
  let ?ds = "update_where (\<lambda>x. d_id x = i \<and> d_org x = ctx_org ctx)
                     (\<lambda>x. x\<lparr>d_acl := acl, d_updated := now\<rparr>) (documents s)"
  let ?cs = "update_where (\<lambda>c. c_doc c = i \<and> c_org c = ctx_org ctx) (\<lambda>c. c\<lparr>c_acl := acl\<rparr>) (chunks s)"
  show "db_ok s'"
    unfolding s' using docs
    by (intro docs_db_ok [OF ok]) (simp_all add: map_update_where refs_update_child refs_update_parent)
  show "view other s' = view other s" if "other \<noteq> ctx_org ctx"
    unfolding s'
  proof (rule docs_view)
    show "select_where (\<lambda>d. d_org d = other) ?ds = select_where (\<lambda>d. d_org d = other) (documents s)"
      by (rule select_update_disjoint) (use that in auto)
    show "select_where (\<lambda>c. c_org c = other) ?cs = select_where (\<lambda>c. c_org c = other) (chunks s)"
      by (rule select_update_disjoint) (use that in auto)
  qed
  show "index_ok cs co s'" if idx: "index_ok cs co s"
    unfolding index_ok_def
  proof (intro ballI impI)
    fix d assume d: "d \<in> set (documents s')" "d_status d = DIngested"
    then obtain e where e: "e \<in> set (documents s)"
      "d = (if d_id e = i \<and> d_org e = ctx_org ctx then e\<lparr>d_acl := acl, d_updated := now\<rparr> else e)"
      by (auto simp: s' set_update_where)
    then have st: "d_status e = DIngested" and eid: "d_id d = d_id e" using d(2) by (simp_all split: if_splits)
    have old: "indexed cs co e (doc_chunks (d_id e) s)" using idx e(1) st by (simp add: index_ok_def)
    have home: "c_org c = d_org e" if "c \<in> set (chunks s)" "c_doc c = d_id e" for c
      using chunk_home [OF ok that(1) e(1)] that(2) by simp
    show "indexed cs co d (doc_chunks (d_id d) s')"
    proof (cases "d_id e = i \<and> d_org e = ctx_org ctx")
      case True
      have "doc_chunks (d_id e) s' = map (\<lambda>c. c\<lparr>c_acl := acl\<rparr>) (doc_chunks (d_id e) s)"
        using home True by (simp add: s' doc_chunks_def) (rule select_update_all, auto)
      with indexed_acl [OF old] True e(2) eid show ?thesis by simp
    next
      case False
      have "doc_chunks (d_id e) s' = doc_chunks (d_id e) s"
        using home False by (simp add: s' doc_chunks_def) (rule select_update_disjoint, auto)
      moreover have "d = e" using e(2) False by simp
      ultimately show ?thesis using old by simp
    qed
  qed
qed

lemma sync_source_laws:
  assumes "sync_source hash detect m bc dc fresh_doc fresh_job now clock ctx source items s = (r, s')" and "db_ok s"
  shows "db_ok s'" "index_ok cs co s \<Longrightarrow> index_ok cs co s'" "other \<noteq> ctx_org ctx \<Longrightarrow> view other s' = view other s"
  using assms sync_documents_laws
  by (auto simp: sync_source_def split: sum.splits)

section \<open>The export ends and is complete\<close>



end
