(* ===== verification/Accounts.thy ===== *)
theory Accounts
  imports Members
begin

text \<open>
  \<open>accounts.py\<close>: identities, memberships and sessions, the operations that cross one
  organisation's boundary.  Parameters: \<open>lower\<close> is \<open>str.lower\<close>, \<open>pw_hash\<close> is
  \<open>hash_password\<close> with the salt it drew, \<open>verify\<close> is \<open>verify_password\<close> and \<open>hash_token\<close> its
  namesake (all of \<open>Auth\<close>); \<open>fresh\<close> identifiers, the raw token and the clock are arguments.
\<close>

section \<open>Inserts\<close>

definition insert_org :: "org_row \<Rightarrow> db \<Rightarrow> sql_error + db" where
  "insert_org row s =
     (if exists_where (\<lambda>r. o_id r = o_id row \<or> o_slug r = o_slug row) (orgs s) then Inl UniqueViolation
      else Inr (s\<lparr>orgs := orgs s @ [row]\<rparr>))"

definition insert_user :: "user_row \<Rightarrow> db \<Rightarrow> sql_error + db" where
  "insert_user row s =
     (if exists_where (\<lambda>r. u_id r = u_id row \<or> u_email r = u_email row) (users s) then Inl UniqueViolation
      else Inr (s\<lparr>users := users s @ [row]\<rparr>))"

definition insert_membership :: "membership_row \<Rightarrow> db \<Rightarrow> sql_error + db" where
  "insert_membership row s =
     (if \<not> known_role (m_role row) then Inl CheckViolation
      else if exists_where (\<lambda>r. m_user r = m_user row \<and> m_org r = m_org row) (memberships s)
      then Inl UniqueViolation
      else if m_user row \<notin> set (user_ids s) \<or> m_org row \<notin> set (org_ids s)
      then Inl ForeignKeyViolation
      else Inr (s\<lparr>memberships := memberships s @ [row]\<rparr>))"

definition insert_session :: "session_row \<Rightarrow> db \<Rightarrow> sql_error + db" where
  "insert_session row s =
     (if exists_where (\<lambda>r. s_token r = s_token row) (sessions s) then Inl UniqueViolation
      else if s_user row \<notin> set (user_ids s) \<or> s_org row \<notin> set (org_ids s) then Inl ForeignKeyViolation
      else Inr (s\<lparr>sessions := sessions s @ [row]\<rparr>))"

section \<open>Operations\<close>

definition create_org_with_owner ::
  "(pystr \<Rightarrow> pystr) \<Rightarrow> (pystr \<Rightarrow> pystr) \<Rightarrow> pystr \<Rightarrow> pystr \<Rightarrow> pystr \<Rightarrow> pystr
    \<Rightarrow> pystr \<Rightarrow> pystr \<Rightarrow> time \<Rightarrow> db \<Rightarrow> exc + (auth_context \<times> db)" where
  "create_org_with_owner lower pw_hash slug name email0 password fresh_org fresh_user now s =
     (let email = lower (strip email0) in
      andthen
        (on_unique (Conflict (ascii ''org slug or email already taken''))
          (andthen (insert_org \<lparr>o_id = fresh_org, o_slug = slug, o_name = name\<rparr> s) (\<lambda>s1.
           andthen (insert_user \<lparr>u_id = fresh_user, u_email = email, u_hash = pw_hash password\<rparr> s1) (\<lambda>s2.
             insert_membership \<lparr>m_user = fresh_user, m_org = fresh_org, m_role = r_owner, m_created = now\<rparr> s2))))
        (\<lambda>s'. Inr (\<lparr>ctx_user = fresh_user, ctx_org = fresh_org, ctx_role = r_owner, ctx_email = email\<rparr>, s')))"

definition add_member ::
  "(pystr \<Rightarrow> pystr) \<Rightarrow> (pystr \<Rightarrow> pystr) \<Rightarrow> pystr \<Rightarrow> pystr \<Rightarrow> pystr \<Rightarrow> pystr
    \<Rightarrow> pystr \<Rightarrow> time \<Rightarrow> db \<Rightarrow> exc + (pystr \<times> db)" where
  "add_member lower pw_hash org email0 password role fresh_user now s =
     (let email = lower (strip email0) in
      andthen
        (on_unique (Conflict (ascii ''that email already has an account; an existing account can only'' @
                              ascii '' join another org by invitation''))
          (andthen (insert_user \<lparr>u_id = fresh_user, u_email = email, u_hash = pw_hash password\<rparr> s) (\<lambda>s1.
             insert_membership \<lparr>m_user = fresh_user, m_org = org, m_role = role, m_created = now\<rparr> s1)))
        (\<lambda>s'. Inr (fresh_user, s')))"

definition memberships_of :: "pystr \<Rightarrow> db \<Rightarrow> (membership_row \<times> org_row) list" where
  "memberships_of u s = [(m, r). m \<leftarrow> memberships s, r \<leftarrow> orgs s, o_id r = m_org m \<and> m_user m = u]"

definition choose_membership ::
  "(membership_row \<times> org_row) list \<Rightarrow> pystr option \<Rightarrow> exc + membership_row" where
  "choose_membership ms org_slug =
     (if ms = [] then Inl (AuthError (ascii ''user has no org memberships''))
      else case org_slug of
        Some slug \<Rightarrow>
          or_raise (map_option fst (find (\<lambda>(m, r). o_slug r = slug) ms))
            (AuthError (ascii ''not a member of org: '' @ slug))
      | None \<Rightarrow>
          (if length ms = 1 then Inr (fst (ms ! 0))
           else Inl (AuthError (ascii ''multiple orgs; specify org_slug''))))"

definition bad_login :: exc where
  "bad_login = AuthError (ascii ''invalid email or password'')"

definition authenticate ::
  "(pystr \<Rightarrow> pystr) \<Rightarrow> (pystr \<Rightarrow> pystr \<Rightarrow> bool) \<Rightarrow> pystr \<Rightarrow> pystr \<Rightarrow> pystr option
    \<Rightarrow> db \<Rightarrow> exc + auth_context" where
  "authenticate lower verify email0 password org_slug s =
     (let email = lower (strip email0) in
      andthen (or_raise (find (\<lambda>u. u_email u = email) (users s)) bad_login) (\<lambda>user.
      andthen (check (verify password (u_hash user)) bad_login) (\<lambda>_.
      andthen (choose_membership (memberships_of (u_id user) s) org_slug) (\<lambda>chosen.
        Inr \<lparr>ctx_user = u_id user, ctx_org = m_org chosen, ctx_role = m_role chosen,
             ctx_email = email\<rparr>))))"

definition hours :: "int \<Rightarrow> time" where
  "hours n = n * 3600 * 1000000"

definition create_session ::
  "(pystr \<Rightarrow> pystr) \<Rightarrow> int \<Rightarrow> auth_context \<Rightarrow> pystr \<Rightarrow> time \<Rightarrow> db \<Rightarrow> exc + (pystr \<times> db)" where
  "create_session hash_token session_ttl_hours ctx raw now s =
     andthen (db_raise (insert_session
        \<lparr>s_token = snd (new_session_token hash_token raw), s_user = ctx_user ctx, s_org = ctx_org ctx,
         s_expires = now + hours session_ttl_hours\<rparr> s)) (\<lambda>s'.
       Inr (fst (new_session_token hash_token raw), s'))"

definition resolve_session ::
  "(pystr \<Rightarrow> pystr) \<Rightarrow> pystr \<Rightarrow> time \<Rightarrow> db \<Rightarrow> auth_context option" where
  "resolve_session hash_token raw now s =
     (case [(x, m, u). x \<leftarrow> sessions s, m \<leftarrow> memberships s, u \<leftarrow> users s,
              m_user m = s_user x \<and> m_org m = s_org x \<and> u_id u = s_user x \<and> s_token x = hash_token raw] of
        [] \<Rightarrow> None
      | (x, m, u) # _ \<Rightarrow>
          (if s_expires x \<le> now then None
           else Some \<lparr>ctx_user = s_user x, ctx_org = s_org x, ctx_role = m_role m, ctx_email = u_email u\<rparr>))"

definition delete_session :: "(pystr \<Rightarrow> pystr) \<Rightarrow> pystr \<Rightarrow> db \<Rightarrow> db" where
  "delete_session hash_token raw s =
     s\<lparr>sessions := delete_where (\<lambda>x. s_token x = hash_token raw) (sessions s)\<rparr>"

definition change_password ::
  "(pystr \<Rightarrow> pystr) \<Rightarrow> (pystr \<Rightarrow> pystr \<Rightarrow> bool) \<Rightarrow> pystr \<Rightarrow> pystr \<Rightarrow> pystr \<Rightarrow> pystr
    \<Rightarrow> db \<Rightarrow> exc + (nat \<times> db)" where
  "change_password pw_hash verify user_id current_password new_password keep_token_hash s =
     (let wrong = AuthError (ascii ''current password is incorrect'');
          others = (\<lambda>x. s_user x = user_id \<and> s_token x \<noteq> keep_token_hash) in
      andthen (or_raise (find (\<lambda>u. u_id u = user_id) (users s)) wrong) (\<lambda>row.
      andthen (check (verify current_password (u_hash row)) wrong) (\<lambda>_.
        Inr (length (select_where others (sessions s)),
             s\<lparr>users := update_where (\<lambda>u. u_id u = user_id) (\<lambda>u. u\<lparr>u_hash := pw_hash new_password\<rparr>) (users s),
               sessions := delete_where others (sessions s)\<rparr>))))"

definition purge_expired_sessions :: "time \<Rightarrow> db \<Rightarrow> nat \<times> db" where
  "purge_expired_sessions now s =
     (length (select_where (\<lambda>x. s_expires x \<le> now) (sessions s)),
      s\<lparr>sessions := delete_where (\<lambda>x. s_expires x \<le> now) (sessions s)\<rparr>)"

definition delete_org :: "pystr \<Rightarrow> db \<Rightarrow> db" where
  "delete_org org s =
     (let members = map m_user (select_where (\<lambda>m. m_org m = org) (memberships s)) in
      snd (purge_stranded_users members (delete_orgs (\<lambda>r. o_id r = org) s)))"

section \<open>When the operations succeed\<close>

lemma insert_org_Inr [result_simps]:
  "insert_org row s = Inr s' \<longleftrightarrow>
     o_id row \<notin> o_id ` set (orgs s) \<and> o_slug row \<notin> o_slug ` set (orgs s) \<and> s' = s\<lparr>orgs := orgs s @ [row]\<rparr>"
  unfolding insert_org_def exists_where_iff image_iff by (auto; metis)

lemma insert_user_Inr [result_simps]:
  "insert_user row s = Inr s' \<longleftrightarrow>
     u_id row \<notin> u_id ` set (users s) \<and> u_email row \<notin> u_email ` set (users s)
   \<and> s' = s\<lparr>users := users s @ [row]\<rparr>"
  unfolding insert_user_def exists_where_iff image_iff by (auto; metis)

lemma insert_membership_Inr [result_simps]:
  "insert_membership row s = Inr s' \<longleftrightarrow>
     known_role (m_role row) \<and> \<not> is_member s (m_user row) (m_org row)
   \<and> m_user row \<in> u_id ` set (users s) \<and> m_org row \<in> o_id ` set (orgs s)
   \<and> s' = s\<lparr>memberships := memberships s @ [row]\<rparr>"
  by (auto simp: insert_membership_def is_member_def id_defs)

lemma insert_session_Inr [result_simps]:
  "insert_session row s = Inr s' \<longleftrightarrow>
     s_token row \<notin> s_token ` set (sessions s)
   \<and> s_user row \<in> u_id ` set (users s) \<and> s_org row \<in> o_id ` set (orgs s)
   \<and> s' = s\<lparr>sessions := sessions s @ [row]\<rparr>"
  unfolding insert_session_def exists_where_iff id_defs set_map by (auto simp del: image_iff simp: image_def; metis)

lemma create_org_Inr:
  assumes "create_org_with_owner lower pw_hash slug name email password org u now s = Inr (ctx, s')"
  shows "org \<notin> o_id ` set (orgs s)" "slug \<notin> o_slug ` set (orgs s)" "u \<notin> u_id ` set (users s)"
    "lower (strip email) \<notin> u_email ` set (users s)"
    "ctx = \<lparr>ctx_user = u, ctx_org = org, ctx_role = r_owner, ctx_email = lower (strip email)\<rparr>"
    "s' = s\<lparr>orgs := orgs s @ [\<lparr>o_id = org, o_slug = slug, o_name = name\<rparr>],
           users := users s @ [\<lparr>u_id = u, u_email = lower (strip email), u_hash = pw_hash password\<rparr>],
           memberships := memberships s @ [\<lparr>m_user = u, m_org = org, m_role = r_owner, m_created = now\<rparr>]\<rparr>"
  using assms
  by (auto simp: create_org_with_owner_def Let_def andthen_Inr on_unique_Inr insert_org_Inr
      insert_user_Inr insert_membership_Inr)

lemma add_member_Inr:
  assumes "add_member lower pw_hash org email password role u now s = Inr (r, s')"
  shows "r = u" "u \<notin> u_id ` set (users s)" "lower (strip email) \<notin> u_email ` set (users s)"
    "org \<in> o_id ` set (orgs s)" "known_role role"
    "s' = s\<lparr>users := users s @ [\<lparr>u_id = u, u_email = lower (strip email), u_hash = pw_hash password\<rparr>],
           memberships := memberships s @ [\<lparr>m_user = u, m_org = org, m_role = role, m_created = now\<rparr>]\<rparr>"
  using assms
  by (auto simp: add_member_def Let_def andthen_Inr on_unique_Inr insert_user_Inr insert_membership_Inr)

lemma create_session_Inr:
  assumes "create_session hash_token ttl ctx raw now s = Inr (r, s')"
  shows "r = raw" "hash_token raw \<notin> s_token ` set (sessions s)" "ctx_user ctx \<in> u_id ` set (users s)"
    "ctx_org ctx \<in> o_id ` set (orgs s)"
    "s' = s\<lparr>sessions := sessions s @ [\<lparr>s_token = hash_token raw, s_user = ctx_user ctx,
              s_org = ctx_org ctx, s_expires = now + hours ttl\<rparr>]\<rparr>"
  using assms
  by (auto simp: create_session_def andthen_Inr db_raise_Inr insert_session_Inr new_session_token_def)

lemma change_password_Inr:
  assumes "change_password pw_hash verify u current new keep s = Inr (n, s')"
  shows "\<exists>row\<in>set (users s). u_id row = u \<and> verify current (u_hash row)"
    "n = length (select_where (\<lambda>x. s_user x = u \<and> s_token x \<noteq> keep) (sessions s))"
    "s' = s\<lparr>users := update_where (\<lambda>x. u_id x = u) (\<lambda>x. x\<lparr>u_hash := pw_hash new\<rparr>) (users s),
           sessions := delete_where (\<lambda>x. s_user x = u \<and> s_token x \<noteq> keep) (sessions s)\<rparr>"
  using assms by (auto simp: change_password_def Let_def result_simps dest!: find_SomeD)


section \<open>New accounts keep the invariants and touch no other tenant\<close>

lemma create_org_db_ok:
  assumes "create_org_with_owner lower pw_hash slug name email password org u now s = Inr (ctx, s')"
    and "db_ok s"
  shows "db_ok s'"
proof (rule db_okI)
  note new = create_org_Inr [OF assms(1)] and ok = db_okD [OF assms(2)]
  have fresh: "u \<notin> m_user ` set (memberships s)"
    using new(3) member_is_user [OF ok(2)] by auto
  then show "keys_ok s'"
    using ok(1) new(1-4) by (auto simp: keys_ok_def id_defs new(6))
  show "refs_ok s'" using ok(2) by (simp add: refs_ok_def new(6) table_simps refs_intros)
  show "home_ok s'"
    using ok(3) fresh
    by (auto simp: home_defs is_member_iff new(6) table_simps refs_intros refs_append_parent refs_def)
  show "owners_ok s'" using ok(4) by (auto simp: owners_ok_def new(6) is_owner_def)
  show "roles_ok s'" using ok(5) by (auto simp: roles_ok_def new(6) known_role_def)
qed

lemma add_member_db_ok:
  assumes "add_member lower pw_hash org email password role u now s = Inr (r, s')" and "db_ok s"
  shows "db_ok s'"
proof (rule db_okI)
  note new = add_member_Inr [OF assms(1)] and ok = db_okD [OF assms(2)]
  have fresh: "u \<notin> m_user ` set (memberships s)"
    using new(2) member_is_user [OF ok(2)] by auto
  then show "keys_ok s'"
    using ok(1) new(2,3) by (auto simp: keys_ok_def id_defs new(6))
  show "refs_ok s'" using ok(2) new(4) by (simp add: refs_ok_def new(6) table_simps refs_intros)
  show "home_ok s'"
    using ok(3) fresh
    by (auto simp: home_defs is_member_iff new(6) table_simps refs_intros refs_append_parent refs_def)
  show "owners_ok s'" using ok(4) by (auto simp: owners_ok_def new(6))
  show "roles_ok s'" using ok(5) new(5) by (auto simp: roles_ok_def new(6))
qed

lemma new_user_view:
  assumes "db_ok s" and "u_id row \<notin> u_id ` set (users s)" and "m_user m = u_id row" and "m_org m \<noteq> org"
  shows "view org (s\<lparr>users := users s @ [row], memberships := memberships s @ [m]\<rparr>) = view org s"
proof -
  have "is_member (s\<lparr>users := users s @ [row], memberships := memberships s @ [m]\<rparr>) u org \<longleftrightarrow> is_member s u org" for u
    using assms(3,4) by (auto simp: is_member_iff)
  moreover have "\<not> is_member s (u_id row) org"
    using assms(2) member_is_user [OF db_okD(2) [OF assms(1)]] by (metis is_member_iff)
  ultimately show ?thesis
    using assms(4) by (simp add: view_def table_simps group_in_def)
qed


lemma create_org_view:
  assumes "create_org_with_owner lower pw_hash slug name email password new_org u now s = Inr (ctx, s')"
    and "db_ok s" and "org \<noteq> new_org"
  shows "view org s' = view org s"
proof -
  note new = create_org_Inr [OF assms(1)]
  let ?s = "s\<lparr>orgs := orgs s @ [\<lparr>o_id = new_org, o_slug = slug, o_name = name\<rparr>]\<rparr>"
  have "view org s' = (view org (s\<lparr>users := users s'\<rparr>\<lparr>memberships := memberships s'\<rparr>))"
    using assms(3) by (simp add: view_def new(6) table_simps is_member_def group_in_def)
  also have "\<dots> = view org s"
    using new_user_view [OF assms(2), of "\<lparr>u_id = u, u_email = lower (strip email), u_hash = pw_hash password\<rparr>"
        "\<lparr>m_user = u, m_org = new_org, m_role = r_owner, m_created = now\<rparr>" org] new(3) assms(3)
    by (simp add: new(6))
  finally show ?thesis .
qed

lemma add_member_view:
  assumes "add_member lower pw_hash home email password role u now s = Inr (r, s')"
    and "db_ok s" and "org \<noteq> home"
  shows "view org s' = view org s"
  using add_member_Inr [OF assms(1)] assms(2,3) by (simp add: new_user_view)

section \<open>Sessions\<close>

lemma create_session_db_ok:
  assumes "create_session hash_token ttl ctx raw now s = Inr (r, s')" and "db_ok s"
    and "is_member s (ctx_user ctx) (ctx_org ctx)"
  shows "db_ok s'"
proof (rule db_okI)
  note new = create_session_Inr [OF assms(1)] and ok = db_okD [OF assms(2)]
  show "keys_ok s'" using ok(1) new(2) by (simp add: keys_ok_def id_defs new(5))
  show "refs_ok s'" using ok(2) new(3,4) by (simp add: refs_ok_def new(5) table_simps)
  show "home_ok s'"
    using ok(3) assms(3) by (simp add: home_defs is_member_iff new(5) table_simps) force
  show "owners_ok s'" "roles_ok s'" using ok(4,5) by (simp_all add: owners_ok_def roles_ok_def new(5))
qed

lemma sessions_view:
  "select_where (\<lambda>x. s_org x = org) xs = select_where (\<lambda>x. s_org x = org) (sessions s) \<Longrightarrow>
     view org (s\<lparr>sessions := xs\<rparr>) = view org s"
  by (simp add: view_def is_member_def group_in_def)

lemma create_session_view:
  assumes "create_session hash_token ttl ctx raw now s = Inr (r, s')" and "org \<noteq> ctx_org ctx"
  shows "view org s' = view org s"
  using create_session_Inr(5) [OF assms(1)] assms(2) by (auto intro!: sessions_view simp: table_simps)

lemma delete_sessions_db_ok:
  assumes "db_ok s"
  shows "db_ok (s\<lparr>sessions := delete_where P (sessions s)\<rparr>)"
  using assms
  by (simp add: db_ok_def keys_ok_def id_defs refs_ok_def home_defs is_member_def owners_ok_def
      roles_ok_def distinct_delete_where refs_delete_child)

lemma delete_session_db_ok: "db_ok s \<Longrightarrow> db_ok (delete_session hash_token raw s)"
  by (simp add: delete_session_def delete_sessions_db_ok)

lemma purge_expired_sessions_db_ok: "db_ok s \<Longrightarrow> db_ok (snd (purge_expired_sessions now s))"
  by (simp add: purge_expired_sessions_def delete_sessions_db_ok)

lemma change_password_db_ok:
  assumes "change_password pw_hash verify u current new keep s = Inr (n, s')" and "db_ok s"
  shows "db_ok s'"
proof -
  note s' = change_password_Inr(3) [OF assms(1)]
  have "db_ok (s\<lparr>users := update_where (\<lambda>x. u_id x = u) (\<lambda>x. x\<lparr>u_hash := pw_hash new\<rparr>) (users s)\<rparr>)"
    using assms(2)
    by (simp add: db_ok_def keys_ok_def id_defs refs_ok_def home_defs is_member_def owners_ok_def
        roles_ok_def map_update_where refs_update_child refs_update_parent refs_opt_def image_update_where)
  from delete_sessions_db_ok [OF this] show ?thesis by (simp add: s')
qed


section \<open>Deleting an organisation\<close>

lemma delete_orgs_fields:
  "orgs (delete_orgs P s) = delete_where P (orgs s)" "users (delete_orgs P s) = users s"
  "memberships (delete_orgs P s) =
     delete_where (\<lambda>m. m_org m \<in> set (map o_id (select_where P (orgs s)))) (memberships s)"
  by (simp_all add: delete_orgs_def delete_groups_def delete_documents_def delete_answers_def Let_def)

lemma home_refs_delete_orgs:
  assumes "home_refs s"
  shows "home_refs (delete_orgs P s)"
proof -
  let ?gone = "set (map o_id (select_where P (orgs s)))"
  let ?ans = "select_where (\<lambda>a. a_org a \<in> ?gone) (answers s)"
  let ?docs = "select_where (\<lambda>d. d_org d \<in> ?gone) (documents s)"
  have "refs (\<lambda>f. (f_answer f, f_org f))
          (delete_where (\<lambda>f. f_org f \<in> ?gone) (delete_where (\<lambda>f. f_answer f \<in> set (map a_id ?ans)) (feedback s)))
          (\<lambda>a. (a_id a, a_org a)) (delete_where (\<lambda>a. a_org a \<in> ?gone) (answers s))"
    using assms by (intro refs_delete_child refs_delete_pair_parent) (simp add: home_refs_def)
  moreover have "refs (\<lambda>f. (f_user f, f_org f))
          (delete_where (\<lambda>f. f_org f \<in> ?gone) (delete_where (\<lambda>f. f_answer f \<in> set (map a_id ?ans)) (feedback s)))
          (\<lambda>m. (m_user m, m_org m)) (delete_where (\<lambda>m. m_org m \<in> ?gone) (memberships s))"
    using assms by (intro refs_delete_pair(2) refs_delete_child) (simp add: home_refs_def)
  moreover have "refs (\<lambda>c. (c_doc c, c_org c))
          (delete_where (\<lambda>c. c_org c \<in> ?gone) (delete_where (\<lambda>c. c_doc c \<in> set (map d_id ?docs)) (chunks s)))
          (\<lambda>d. (d_id d, d_org d)) (delete_where (\<lambda>d. d_org d \<in> ?gone) (documents s))"
    using assms by (intro refs_delete_child refs_delete_pair_parent) (simp add: home_refs_def)
  moreover have "refs_opt (\<lambda>l. map_option (\<lambda>u. (u, l_org l)) (l_actor l))
          (delete_where (\<lambda>l. l_org l \<in> ?gone) (audit_log s))
          (\<lambda>m. (m_user m, m_org m)) (delete_where (\<lambda>m. m_org m \<in> ?gone) (memberships s))"
    unfolding refs_opt_def
  proof (intro ballI allI impI)
    fix l k assume "l \<in> set (delete_where (\<lambda>l. l_org l \<in> ?gone) (audit_log s))"
      and "map_option (\<lambda>u. (u, l_org l)) (l_actor l) = Some k"
    then obtain u where u: "l \<in> set (audit_log s)" "l_org l \<notin> ?gone" "l_actor l = Some u" "k = (u, l_org l)"
      by (auto simp only: set_delete_where mem_Collect_eq map_option_eq_Some)
    then obtain m where "m \<in> set (memberships s)" "m_user m = u" "m_org m = l_org l"
      using home_refsD(7) [OF assms] by (meson is_member_iff)
    with u show "k \<in> (\<lambda>m. (m_user m, m_org m)) ` set (delete_where (\<lambda>m. m_org m \<in> ?gone) (memberships s))"
      by (intro rev_image_eqI [of m]) (simp_all add: set_delete_where)
  qed
  moreover have "group_home_ok (delete_orgs P s)"
    unfolding group_home_ok_def
  proof (intro ballI impI)
    fix m g assume "m \<in> set (group_members (delete_orgs P s))" "g \<in> set (groups (delete_orgs P s))"
      "g_id g = gm_group m"
    then have "m \<in> set (group_members s)" "g \<in> set (groups s)" "g_org g \<notin> ?gone" "g_id g = gm_group m"
      by (simp_all add: delete_orgs_def delete_groups_def delete_documents_def delete_answers_def
          Let_def table_simps)
    moreover from this have "is_member s (gm_user m) (g_org g)"
      using assms by (simp add: home_refs_def group_home_ok_def)
    ultimately show "is_member (delete_orgs P s) (gm_user m) (g_org g)"
      unfolding is_member_iff delete_orgs_fields set_delete_where by (metis (mono_tags, lifting) mem_Collect_eq)
  qed
  ultimately show ?thesis
    using assms unfolding home_refs_def
    by (simp add: delete_orgs_def delete_groups_def delete_documents_def delete_answers_def Let_def
        distinct_delete_where refs_delete_pair del: set_map)
qed

text \<open>Erasing the stranded users of an organisation leaves every membership in place.\<close>

lemma purge_keeps_memberships:
  assumes "snd (purge_stranded_users ids s) = s'"
  shows "memberships s' = memberships s" "orgs s' = orgs s"
proof -
  have "delete_where (\<lambda>m. m_user m \<in> set (map u_id (select_where (stranded s ids) (users s)))) (memberships s)
      = memberships s"
    by (auto simp: delete_where_def filter_id_conv stranded_def table_simps)
  then show "memberships s' = memberships s" "orgs s' = orgs s"
    using assms by (auto simp: purge_stranded_users_def delete_users_def delete_answers_def Let_def
        simp del: set_map split: if_splits)
qed

lemma purge_housed:
  assumes "\<And>u. u \<in> set (users s) \<Longrightarrow> u_id u \<notin> set ids \<Longrightarrow> u_id u \<in> m_user ` set (memberships s)"
  shows "housed (snd (purge_stranded_users ids s))"
proof -
  let ?s' = "snd (purge_stranded_users ids s)"
  have "u_id u \<in> m_user ` set (memberships s)" if "u \<in> set (users ?s')" for u
    using that assms [of u]
    by (cases "ids = []")
      (auto simp: purge_stranded_users_def delete_users_fields table_simps stranded_def intro: rev_image_eqI)
  then show ?thesis
    by (simp add: housed_def refs_def purge_keeps_memberships [OF refl])
qed

lemma delete_org_db_ok:
  assumes "db_ok s"
  shows "db_ok (delete_org org s)"
proof (rule db_okI)
  note ok = db_okD [OF assms]
  let ?ids = "map m_user (select_where (\<lambda>m. m_org m = org) (memberships s))"
  let ?s1 = "delete_orgs (\<lambda>r. o_id r = org) s"
  have s': "delete_org org s = snd (purge_stranded_users ?ids ?s1)"
    by (simp add: delete_org_def Let_def)
  have purge: "snd (purge_stranded_users ids x) = x
      \<or> snd (purge_stranded_users ids x) = delete_users (stranded x ids) x" for ids x
    by (simp add: purge_stranded_users_def)
  have "keys_ok ?s1" "refs_ok ?s1" "home_refs ?s1"
    using ok by (simp_all add: keys_ok_cascade refs_ok_cascade home_refs_delete_orgs home_ok_def)
  with purge [of ?ids ?s1] show k: "keys_ok (delete_org org s)" "refs_ok (delete_org org s)"
    by (auto simp: s' keys_ok_cascade refs_ok_cascade)
  from purge [of ?ids ?s1] \<open>home_refs ?s1\<close> have "home_refs (delete_org org s)"
    by (auto simp: s' home_refs_delete_users)
  moreover have "housed (delete_org org s)"
    unfolding s'
  proof (rule purge_housed)
    fix u assume "u \<in> set (users ?s1)" and out: "u_id u \<notin> set ?ids"
    then have "u \<in> set (users s)" by (simp add: delete_orgs_fields)
    with ok(3) obtain m where m: "m \<in> set (memberships s)" "m_user m = u_id u"
      unfolding home_ok_def housed_def using refsD by metis
    with out have "m_org m \<noteq> org" by (auto simp: table_simps image_iff)
    with m show "u_id u \<in> m_user ` set (memberships ?s1)"
      by (force simp: delete_orgs_fields table_simps)
  qed
  ultimately show "home_ok (delete_org org s)" by (simp add: home_ok_def)
  note kept = purge_keeps_memberships [OF s' [symmetric]]
  show "roles_ok (delete_org org s)"
    using ok(5) by (simp add: roles_ok_def kept delete_orgs_fields table_simps)
  show "owners_ok (delete_org org s)"
    using ok(4) by (fastforce simp: owners_ok_def kept delete_orgs_fields table_simps)
qed


lemma delete_orgs_view:
  assumes "home_refs s" and "keys_ok s" and "org \<notin> set (map o_id (select_where P (orgs s)))"
  shows "view org (delete_orgs P s) = view org s"
proof (rule db_eqI)
  define gone where "gone = set (map o_id (select_where P (orgs s)))"
  note home = home_refsD [OF assms(1)]
  have out: "org \<notin> gone" using assms(3) by (simp add: gone_def)
  have member: "is_member (delete_orgs P s) u org \<longleftrightarrow> is_member s u org" for u
    using out by (auto simp: is_member_iff delete_orgs_fields table_simps gone_def)
  have groups': "groups (delete_orgs P s) = delete_where (\<lambda>g. g_org g \<in> gone) (groups s)"
    by (simp add: delete_orgs_def delete_groups_def delete_documents_def delete_answers_def Let_def gone_def)
  have group_in: "group_in (delete_orgs P s) g org \<longleftrightarrow> group_in s g org" for g
    using out by (auto simp: group_in_iff groups' table_simps)
  have gm: "group_members (delete_orgs P s) =
      delete_where (\<lambda>m. gm_group m \<in> g_id ` {g \<in> set (groups s). g_org g \<in> gone}) (group_members s)"
    by (simp add: delete_orgs_def delete_groups_def delete_documents_def delete_answers_def Let_def
        gone_def table_simps)
  have doc: "c_org c \<in> gone" if c: "c \<in> set (chunks s)" and hit: "c_doc c \<in> d_id ` {d \<in> set (documents s). d_org d \<in> gone}" for c
  proof -
    obtain d e where "d \<in> set (documents s)" "d_org d \<in> gone" "d_id d = c_doc c"
      "e \<in> set (documents s)" "d_id e = c_doc c" "d_org e = c_org c"
      using hit home(6) [OF c] by auto
    moreover from this have "d = e" using assms(2) by (auto simp: keys_ok_def id_defs dest: distinct_key_eq)
    ultimately show ?thesis by simp
  qed
  have ans: "f_org f \<in> gone" if f: "f \<in> set (feedback s)" and hit: "f_answer f \<in> a_id ` {a \<in> set (answers s). a_org a \<in> gone}" for f
  proof -
    obtain a b where "a \<in> set (answers s)" "a_org a \<in> gone" "a_id a = f_answer f"
      "b \<in> set (answers s)" "a_id b = f_answer f" "a_org b = f_org f"
      using hit home(5) [OF f] by auto
    moreover from this have "a = b" using assms(2) by (auto simp: keys_ok_def id_defs dest: distinct_key_eq)
    ultimately show ?thesis by simp
  qed
  have chunks': "chunks (delete_orgs P s) = delete_where (\<lambda>c. c_org c \<in> gone)
      (delete_where (\<lambda>c. c_doc c \<in> d_id ` {d \<in> set (documents s). d_org d \<in> gone}) (chunks s))"
    and feedback': "feedback (delete_orgs P s) = delete_where (\<lambda>f. f_org f \<in> gone)
      (delete_where (\<lambda>f. f_answer f \<in> a_id ` {a \<in> set (answers s). a_org a \<in> gone}) (feedback s))"
    by (simp_all add: delete_orgs_def delete_groups_def delete_documents_def delete_answers_def Let_def
        gone_def table_simps)
  show "users (view org (delete_orgs P s)) = users (view org s)"
    by (simp add: view_def member delete_orgs_fields)
  show "orgs (view org (delete_orgs P s)) = orgs (view org s)"
    unfolding view_def delete_orgs_fields db.simps
    by (rule select_delete_disjoint) (use assms(3) in \<open>auto simp: table_simps\<close>)
  show "group_members (view org (delete_orgs P s)) = group_members (view org s)"
    unfolding view_def group_in gm db.simps
    by (rule select_delete_disjoint)
      (use out assms(2) in \<open>auto simp: group_in_iff keys_ok_def id_defs dest: distinct_key_eq\<close>)
  have "select_where (\<lambda>c. c_org c = org) (delete_where (\<lambda>c. c_doc c \<in> d_id ` {d \<in> set (documents s). d_org d \<in> gone}) (chunks s))
      = select_where (\<lambda>c. c_org c = org) (chunks s)"
    by (rule select_delete_disjoint) (use out doc in blast)
  then show "chunks (view org (delete_orgs P s)) = chunks (view org s)"
    by (simp add: view_def chunks' select_delete_others [OF out])
  have "select_where (\<lambda>f. f_org f = org) (delete_where (\<lambda>f. f_answer f \<in> a_id ` {a \<in> set (answers s). a_org a \<in> gone}) (feedback s))
      = select_where (\<lambda>f. f_org f = org) (feedback s)"
    by (rule select_delete_disjoint) (use out ans in blast)
  then show "feedback (view org (delete_orgs P s)) = feedback (view org s)"
    by (simp add: view_def feedback' select_delete_others [OF out])
qed (simp_all add: view_def delete_orgs_def delete_groups_def delete_documents_def delete_answers_def Let_def
      select_delete_others [OF assms(3)] del: set_map)

lemma delete_org_view:
  assumes "db_ok s" and "other \<noteq> org"
  shows "view other (delete_org org s) = view other s"
proof -
  note ok = db_okD [OF assms(1)]
  let ?ids = "map m_user (select_where (\<lambda>m. m_org m = org) (memberships s))"
  let ?s1 = "delete_orgs (\<lambda>r. o_id r = org) s"
  have home: "home_refs s" using ok(3) by (simp add: home_ok_def)
  have "view other (delete_users (stranded ?s1 ?ids) ?s1) = view other ?s1"
    by (rule delete_users_view) (auto simp: ok home home_refs_delete_orgs keys_ok_cascade
        stranded_def is_member_iff table_simps)
  moreover have "view other ?s1 = view other s"
    by (rule delete_orgs_view [OF home ok(1)]) (use assms(2) in \<open>auto simp: table_simps\<close>)
  ultimately show ?thesis
    by (simp add: delete_org_def Let_def purge_stranded_users_def)
qed

end
