(* ===== verification/Ledger.thy ===== *)
theory Ledger
  imports Documents Accounts
begin

text \<open>
  The answer ledger, feedback, usage and audit operations of \<open>TenantScope\<close>, and \<open>audit.log\<close>.
  \<open>day_of\<close> is \<open>current_date\<close> and \<open>month_start\<close> is \<open>date_trunc('month', now())\<close> in the database's
  time zone; \<open>redact\<close> is \<open>pii.redact\<close>; \<open>round6\<close> is \<open>round(x, 6)\<close>.  Dollars are reals.
\<close>

section \<open>Answers\<close>

definition insert_answer :: "answer_row \<Rightarrow> db \<Rightarrow> sql_error + db" where
  "insert_answer row s =
     (if exists_where (\<lambda>a. a_id a = a_id row) (answers s) then Inl UniqueViolation
      else if a_org row \<notin> set (org_ids s) \<or> a_user row \<notin> set (user_ids s) then Inl ForeignKeyViolation
      else Inr (s\<lparr>answers := answers s @ [row]\<rparr>))"

definition record_answer ::
  "auth_context \<Rightarrow> pystr \<Rightarrow> pystr \<Rightarrow> bool \<Rightarrow> pystr \<Rightarrow> time \<Rightarrow> db \<Rightarrow> exc + (pystr \<times> db)" where
  "record_answer ctx question provider refused fresh now s =
     andthen (db_raise (insert_answer
        \<lparr>a_id = fresh, a_org = ctx_org ctx, a_user = ctx_user ctx, a_question = question,
         a_provider = provider, a_refused = refused, a_blocked = False, a_input = 0, a_output = 0,
         a_cost = 0, a_estimated = False, a_created = now\<rparr> s)) (\<lambda>s'. Inr (fresh, s'))"

definition add_spend :: "int \<Rightarrow> real \<Rightarrow> spend_row list \<Rightarrow> spend_row list" where
  "add_spend day cost rows =
     (if exists_where (\<lambda>p. ps_day p = day) rows
      then update_where (\<lambda>p. ps_day p = day) (\<lambda>p. p\<lparr>ps_cost := ps_cost p + cost\<rparr>) rows
      else rows @ [\<lparr>ps_day = day, ps_cost = cost\<rparr>])"

definition finalize_answer ::
  "(pystr \<Rightarrow> pystr option) \<Rightarrow> (time \<Rightarrow> int) \<Rightarrow> auth_context \<Rightarrow> pystr \<Rightarrow> int \<Rightarrow> int \<Rightarrow> real \<Rightarrow> bool
     \<Rightarrow> time \<Rightarrow> db \<Rightarrow> exc + db" where
  "finalize_answer pg_uuid day_of ctx answer_id input_tokens output_tokens cost_usd estimated now s =
     andthen (uuid_arg pg_uuid answer_id) (\<lambda>a.
       Inr (s\<lparr>answers := update_where (scoped ctx a_org (\<lambda>r. a_id r = a))
                (\<lambda>r. r\<lparr>a_input := input_tokens, a_output := output_tokens, a_cost := cost_usd,
                       a_estimated := estimated\<rparr>) (answers s),
              platform_spend := add_spend (day_of now) cost_usd (platform_spend s)\<rparr>))"

definition mark_blocked :: "(pystr \<Rightarrow> pystr option) \<Rightarrow> auth_context \<Rightarrow> pystr \<Rightarrow> db \<Rightarrow> exc + db" where
  "mark_blocked pg_uuid ctx answer_id s =
     andthen (uuid_arg pg_uuid answer_id) (\<lambda>a.
       Inr (s\<lparr>answers := update_where (scoped ctx a_org (\<lambda>r. a_id r = a)) (\<lambda>r. r\<lparr>a_blocked := True\<rparr>) (answers s)\<rparr>))"

definition spend_last_24h :: "auth_context \<Rightarrow> time \<Rightarrow> db \<Rightarrow> real" where
  "spend_last_24h ctx now s =
     sum_list (map a_cost (select_where (scoped ctx a_org (\<lambda>a. now - hours 24 < a_created a)) (answers s)))"

definition platform_spend_today :: "(time \<Rightarrow> int) \<Rightarrow> time \<Rightarrow> db \<Rightarrow> real" where
  "platform_spend_today day_of now s =
     (case find (\<lambda>p. ps_day p = day_of now) (platform_spend s) of None \<Rightarrow> 0 | Some p \<Rightarrow> ps_cost p)"

definition questions_this_month :: "(time \<Rightarrow> time) \<Rightarrow> auth_context \<Rightarrow> time \<Rightarrow> db \<Rightarrow> nat" where
  "questions_this_month month_start ctx now s =
     length (select_where (scoped ctx a_org (\<lambda>a. month_start now \<le> a_created a)) (answers s))"

definition storage_usage :: "auth_context \<Rightarrow> db \<Rightarrow> nat \<times> nat" where
  "storage_usage ctx s = (length (live_documents ctx s), content_bytes (live_documents ctx s))"

definition top_queries ::
  "(pystr \<Rightarrow> pystr) \<Rightarrow> (time \<Rightarrow> time) \<Rightarrow> auth_context \<Rightarrow> nat \<Rightarrow> time \<Rightarrow> db \<Rightarrow> (pystr \<times> nat) list" where
  "top_queries coll month_start ctx limit now s =
     (let asked = map a_question
            (select_where (scoped ctx a_org (\<lambda>a. month_start now \<le> a_created a)) (answers s)) in
      take limit (sort_key (\<lambda>(q, n). - int n) (sort_key (\<lambda>(q, n). coll q)
        (map (\<lambda>q. (q, count_list asked q)) (remdups asked)))))"

record usage_out =
  uo_questions :: "nat \<times> int"
  uo_spend :: "real \<times> real"
  uo_storage :: "(nat \<times> nat) \<times> (nat \<times> nat)"
  uo_top :: "(pystr \<times> nat) list"

definition usage_summary ::
  "(pystr \<Rightarrow> pystr) \<Rightarrow> (time \<Rightarrow> time) \<Rightarrow> (real \<Rightarrow> real) \<Rightarrow> int \<Rightarrow> real \<Rightarrow> nat \<Rightarrow> nat \<Rightarrow> auth_context \<Rightarrow> time \<Rightarrow> db
     \<Rightarrow> exc + usage_out" where
  "usage_summary coll month_start round6 monthly_question_cap daily_budget_usd doc_cap byte_cap ctx now s =
     andthen (require_role ctx r_admin) (\<lambda>_.
       let (docs, bytes) = storage_usage ctx s in
       Inr \<lparr>uo_questions = (questions_this_month month_start ctx now s, monthly_question_cap),
            uo_spend = (round6 (spend_last_24h ctx now s), daily_budget_usd),
            uo_storage = ((docs, doc_cap), (bytes, byte_cap)),
            uo_top = top_queries coll month_start ctx 5 now s\<rparr>)"

section \<open>Feedback\<close>

definition insert_feedback :: "feedback_row \<Rightarrow> db \<Rightarrow> sql_error + db" where
  "insert_feedback row s =
     (if f_rating row \<noteq> ascii ''up'' \<and> f_rating row \<noteq> ascii ''down'' then Inl CheckViolation
      else if exists_where (\<lambda>f. f_answer f = f_answer row \<and> f_user f = f_user row) (feedback s)
      then Inl UniqueViolation
      else if f_org row \<notin> set (org_ids s) \<or> f_user row \<notin> set (user_ids s) \<or> f_answer row \<notin> set (answer_ids s)
      then Inl ForeignKeyViolation
      else Inr (s\<lparr>feedback := feedback s @ [row]\<rparr>))"

definition add_feedback ::
  "(pystr \<Rightarrow> pystr option) \<Rightarrow> auth_context \<Rightarrow> pystr \<Rightarrow> pystr \<Rightarrow> pystr option \<Rightarrow> db \<Rightarrow> exc + db" where
  "add_feedback pg_uuid ctx answer_id rating note s =
     andthen (uuid_arg pg_uuid answer_id) (\<lambda>a.
     andthen (check (exists_where (scoped ctx a_org (\<lambda>r. a_id r = a)) (answers s))
                (NotFound (ascii ''answer not found: '' @ answer_id))) (\<lambda>_.
       on_unique (Conflict (ascii ''feedback already recorded for this answer''))
         (insert_feedback \<lparr>f_org = ctx_org ctx, f_user = ctx_user ctx, f_answer = a, f_rating = rating,
                           f_note = note\<rparr> s)))"

section \<open>Audit\<close>

definition redact_detail :: "(pystr \<Rightarrow> pystr) \<Rightarrow> (pystr \<times> json) list \<Rightarrow> (pystr \<times> json) list" where
  "redact_detail redact detail =
     map (\<lambda>(k, v). (k, case v of JStr t \<Rightarrow> JStr (redact t) | _ \<Rightarrow> v)) detail"

definition insert_audit :: "audit_row \<Rightarrow> db \<Rightarrow> sql_error + db" where
  "insert_audit row s =
     (if l_org row \<notin> set (org_ids s) \<or> (\<exists>u. l_actor row = Some u \<and> u \<notin> set (user_ids s))
      then Inl ForeignKeyViolation
      else Inr (s\<lparr>audit_log := audit_log s @ [row]\<rparr>))"

definition audit ::
  "(pystr \<Rightarrow> pystr) \<Rightarrow> pystr \<Rightarrow> pystr option \<Rightarrow> pystr \<Rightarrow> (pystr \<times> json) list option \<Rightarrow> time \<Rightarrow> db \<Rightarrow> db" where
  "audit redact org actor action detail now s =
     (case insert_audit
        \<lparr>l_org = org, l_actor = actor, l_action = action,
         l_detail = redact_detail redact (case detail of None \<Rightarrow> [] | Some d \<Rightarrow> d), l_created = now\<rparr> s of
        Inl e \<Rightarrow> s
      | Inr s' \<Rightarrow> s')"

definition count_audit :: "auth_context \<Rightarrow> db \<Rightarrow> exc + nat" where
  "count_audit ctx s =
     andthen (require_role ctx r_admin) (\<lambda>_.
       Inr (length (select_where (scoped ctx l_org (\<lambda>_. True)) (audit_log s))))"

record audit_out =
  ao_action :: pystr
  ao_detail :: "(pystr \<times> json) list"
  ao_created :: time
  ao_actor :: "pystr option"

definition audit_rows :: "auth_context \<Rightarrow> db \<Rightarrow> audit_out list" where
  "audit_rows ctx s =
     map (\<lambda>l. \<lparr>ao_action = l_action l, ao_detail = l_detail l, ao_created = l_created l,
              ao_actor = Option.bind (l_actor l) (\<lambda>i. map_option u_email (find (\<lambda>u. u_id u = i) (users s)))\<rparr>)
       (sort_key (\<lambda>l. - l_created l) (select_where (scoped ctx l_org (\<lambda>_. True)) (audit_log s)))"

definition list_audit :: "auth_context \<Rightarrow> nat \<Rightarrow> nat \<Rightarrow> db \<Rightarrow> exc + audit_out list" where
  "list_audit ctx limit offset s =
     andthen (require_role ctx r_admin) (\<lambda>_. Inr (page limit offset (audit_rows ctx s)))"

section \<open>The ledger keeps the invariants and touches no other tenant\<close>

lemma group_home_ledger [simp]:
  "group_home_ok (s\<lparr>answers := x\<rparr>) = group_home_ok s" "group_home_ok (s\<lparr>feedback := y\<rparr>) = group_home_ok s"
  "group_home_ok (s\<lparr>audit_log := z\<rparr>) = group_home_ok s"
  by (simp_all add: group_home_ok_def is_member_def)

lemmas ok_defs = db_ok_def keys_ok_def id_defs refs_ok_def home_ok_def home_refs_def housed_def
  owners_ok_def roles_ok_def

lemma insert_answer_Inr [result_simps]:
  "insert_answer row s = Inr s' \<longleftrightarrow>
     a_id row \<notin> a_id ` set (answers s) \<and> a_org row \<in> o_id ` set (orgs s) \<and> a_user row \<in> u_id ` set (users s)
   \<and> s' = s\<lparr>answers := answers s @ [row]\<rparr>"
  unfolding insert_answer_def exists_where_iff id_defs set_map image_iff by (auto; metis)

lemma record_answer_Inr:
  assumes "record_answer ctx q p refused fresh now s = Inr (i, s')"
  shows "i = fresh" "fresh \<notin> a_id ` set (answers s)" "ctx_org ctx \<in> o_id ` set (orgs s)"
    "ctx_user ctx \<in> u_id ` set (users s)"
    "s' = s\<lparr>answers := answers s @
        [\<lparr>a_id = fresh, a_org = ctx_org ctx, a_user = ctx_user ctx, a_question = q, a_provider = p,
          a_refused = refused, a_blocked = False, a_input = 0, a_output = 0, a_cost = 0,
          a_estimated = False, a_created = now\<rparr>]\<rparr>"
  using assms unfolding record_answer_def by (auto simp: andthen_Inr db_raise_Inr insert_answer_Inr)

lemma member_of_iff:
  "is_member s u org \<longleftrightarrow> (u, org) \<in> (\<lambda>m. (m_user m, m_org m)) ` set (memberships s)"
  by (auto simp: is_member_iff)

lemma record_answer_laws:
  assumes "record_answer ctx q p refused fresh now s = Inr (i, s')" and "db_ok s"
    and "is_member s (ctx_user ctx) (ctx_org ctx)"
  shows "db_ok s'" "org \<noteq> ctx_org ctx \<Longrightarrow> view org s' = view org s"
    "documents s' = documents s" "chunks s' = chunks s"
proof -
  define row where "row = \<lparr>a_id = fresh, a_org = ctx_org ctx, a_user = ctx_user ctx, a_question = q, a_provider = p,
          a_refused = refused, a_blocked = False, a_input = 0, a_output = 0, a_cost = 0,
          a_estimated = False, a_created = now\<rparr>"
  note new = record_answer_Inr [OF assms(1), folded row_def]
  have row: "a_id row = fresh" "a_org row = ctx_org ctx" "a_user row = ctx_user ctx"
    "fresh \<notin> a_id ` set (answers s)" "ctx_org ctx \<in> o_id ` set (orgs s)"
    "ctx_user ctx \<in> u_id ` set (users s)" and s': "s' = s\<lparr>answers := answers s @ [row]\<rparr>"
    using new by (simp_all add: row_def)
  show "db_ok s'"
    using assms(2,3) row
    unfolding member_of_iff
    by (simp add: ok_defs s' refs_append_iff refs_single refs_append_parent)
  show "view org s' = view org s" if "org \<noteq> ctx_org ctx"
    using that row(2) by (simp add: s' view_def is_member_def group_in_def select_append)
  show "documents s' = documents s" "chunks s' = chunks s" by (simp_all add: s')
qed

lemma update_answers_laws:
  assumes "db_ok s" and "\<And>a. a_id (f a) = a_id a" "\<And>a. a_org (f a) = a_org a" "\<And>a. a_user (f a) = a_user a"
    and "\<And>a. P a \<Longrightarrow> a_org a = org" and "distinct (map ps_day spend)"
  shows "db_ok (s\<lparr>answers := update_where P f (answers s), platform_spend := spend\<rparr>)"
    "other \<noteq> org \<Longrightarrow> view other (s\<lparr>answers := update_where P f (answers s), platform_spend := spend\<rparr>) = view other s"
proof -
  show "db_ok (s\<lparr>answers := update_where P f (answers s), platform_spend := spend\<rparr>)"
    using assms
    by (simp add: db_ok_def keys_ok_def id_defs refs_ok_def home_defs owners_ok_def roles_ok_def
        is_member_def map_update_where refs_update_child refs_update_parent)
  assume "other \<noteq> org"
  then have "select_where (\<lambda>a. a_org a = other) (update_where P f (answers s)) = select_where (\<lambda>a. a_org a = other) (answers s)"
    by (intro select_update_disjoint) (use assms in auto)
  then show "view other (s\<lparr>answers := update_where P f (answers s), platform_spend := spend\<rparr>) = view other s"
    by (simp add: view_def is_member_def group_in_def)
qed

lemma add_spend_days: "distinct (map ps_day rows) \<Longrightarrow> distinct (map ps_day (add_spend day cost rows))"
  by (auto simp: add_spend_def map_update_where exists_where_iff)

lemma finalize_answer_laws:
  assumes "finalize_answer pg day_of ctx i it ot cost est now s = Inr s'" and ok: "db_ok s"
  shows "db_ok s'" "org \<noteq> ctx_org ctx \<Longrightarrow> view org s' = view org s"
    "documents s' = documents s" "chunks s' = chunks s"
proof -
  have days: "distinct (map ps_day (add_spend (day_of now) cost (platform_spend s)))"
    using ok by (simp add: db_ok_def keys_ok_def add_spend_days)
  obtain a where s': "s' = s\<lparr>answers := update_where (scoped ctx a_org (\<lambda>r. a_id r = a))
                (\<lambda>r. r\<lparr>a_input := it, a_output := ot, a_cost := cost, a_estimated := est\<rparr>) (answers s),
              platform_spend := add_spend (day_of now) cost (platform_spend s)\<rparr>"
    using assms(1) by (auto simp: finalize_answer_def result_simps)
  note laws = update_answers_laws [OF ok, of "\<lambda>r. r\<lparr>a_input := it, a_output := ot, a_cost := cost, a_estimated := est\<rparr>"
      "scoped ctx a_org (\<lambda>r. a_id r = a)" "ctx_org ctx", OF _ _ _ _ days]
  show "db_ok s'" "org \<noteq> ctx_org ctx \<Longrightarrow> view org s' = view org s"
    unfolding s' by (rule laws; simp add: scoped_iff)+
  show "documents s' = documents s" "chunks s' = chunks s" by (simp_all add: s')
qed

lemma mark_blocked_laws:
  assumes "mark_blocked pg ctx i s = Inr s'" and ok: "db_ok s"
  shows "db_ok s'" "org \<noteq> ctx_org ctx \<Longrightarrow> view org s' = view org s"
    "documents s' = documents s" "chunks s' = chunks s"
proof -
  have days: "distinct (map ps_day (platform_spend s))" using ok by (simp add: db_ok_def keys_ok_def)
  obtain a where s': "s' = s\<lparr>answers := update_where (scoped ctx a_org (\<lambda>r. a_id r = a))
        (\<lambda>r. r\<lparr>a_blocked := True\<rparr>) (answers s), platform_spend := platform_spend s\<rparr>"
    using assms(1) by (auto simp: mark_blocked_def result_simps)
  note laws = update_answers_laws [OF ok, of "\<lambda>r. r\<lparr>a_blocked := True\<rparr>"
      "scoped ctx a_org (\<lambda>r. a_id r = a)" "ctx_org ctx", OF _ _ _ _ days]
  show "db_ok s'" "org \<noteq> ctx_org ctx \<Longrightarrow> view org s' = view org s"
    unfolding s' by (rule laws; simp add: scoped_iff)+
  show "documents s' = documents s" "chunks s' = chunks s" by (simp_all add: s')
qed


lemma add_feedback_Inr:
  assumes "add_feedback pg ctx i rating note s = Inr s'"
  obtains a row where "pg i = Some a" "\<exists>r\<in>set (answers s). a_id r = a \<and> a_org r = ctx_org ctx"
    "row = \<lparr>f_org = ctx_org ctx, f_user = ctx_user ctx, f_answer = a, f_rating = rating, f_note = note\<rparr>"
    "(f_answer row, f_user row) \<notin> (\<lambda>f. (f_answer f, f_user f)) ` set (feedback s)"
    "ctx_org ctx \<in> o_id ` set (orgs s)" "ctx_user ctx \<in> u_id ` set (users s)" "a \<in> a_id ` set (answers s)"
    "rating = ascii ''up'' \<or> rating = ascii ''down''"
    "s' = s\<lparr>feedback := feedback s @ [row]\<rparr>"
proof -
  let ?row = "\<lambda>a. \<lparr>f_org = ctx_org ctx, f_user = ctx_user ctx, f_answer = a, f_rating = rating, f_note = note\<rparr>"
  obtain a where a: "pg i = Some a" "\<exists>r\<in>set (answers s). a_id r = a \<and> a_org r = ctx_org ctx"
    and ins: "insert_feedback (?row a) s = Inr s'"
    using assms by (auto simp: add_feedback_def result_simps exists_where_iff scoped_iff)
  then have "rating = ascii ''up'' \<or> rating = ascii ''down''"
    and no: "\<not> exists_where (\<lambda>f. f_answer f = a \<and> f_user f = ctx_user ctx) (feedback s)"
    and "ctx_org ctx \<in> set (org_ids s)" "ctx_user ctx \<in> set (user_ids s)" "a \<in> set (answer_ids s)"
    and "s' = s\<lparr>feedback := feedback s @ [?row a]\<rparr>"
    by (simp_all add: insert_feedback_def split: if_splits)
  moreover from no have "(a, ctx_user ctx) \<notin> (\<lambda>f. (f_answer f, f_user f)) ` set (feedback s)"
    by (auto simp: exists_where_iff)
  ultimately show thesis
    by (intro that [OF a refl]) (simp_all add: id_defs)
qed

lemma add_feedback_laws:
  assumes "add_feedback pg ctx i rating note s = Inr s'" and "db_ok s"
    and "is_member s (ctx_user ctx) (ctx_org ctx)"
  shows "db_ok s'" "org \<noteq> ctx_org ctx \<Longrightarrow> view org s' = view org s"
    "documents s' = documents s" "chunks s' = chunks s"
proof -
  obtain a row where "pg i = Some a" and a: "\<exists>r\<in>set (answers s). a_id r = a \<and> a_org r = ctx_org ctx"
    and row: "row = \<lparr>f_org = ctx_org ctx, f_user = ctx_user ctx, f_answer = a, f_rating = rating, f_note = note\<rparr>"
    and key: "(f_answer row, f_user row) \<notin> (\<lambda>f. (f_answer f, f_user f)) ` set (feedback s)"
    and fk: "ctx_org ctx \<in> o_id ` set (orgs s)" "ctx_user ctx \<in> u_id ` set (users s)" "a \<in> a_id ` set (answers s)"
    and "rating = ascii ''up'' \<or> rating = ascii ''down''"
    and s': "s' = s\<lparr>feedback := feedback s @ [row]\<rparr>"
    by (rule add_feedback_Inr [OF assms(1)])
  have "(a, ctx_org ctx) \<in> (\<lambda>r. (a_id r, a_org r)) ` set (answers s)" using a by force
  show "db_ok s'"
  proof (rule db_okI)
    note ok = db_okD [OF assms(2)]
    show "keys_ok s'" using ok(1) key by (simp add: keys_ok_def id_defs s')
    show "refs_ok s'" using ok(2) fk by (simp add: refs_ok_def s' refs_append_iff refs_single row)
    show "home_ok s'"
      using ok(3) \<open>(a, ctx_org ctx) \<in> _\<close> assms(3) [unfolded member_of_iff]
      by (simp add: home_ok_def home_refs_def housed_def s' refs_append_iff refs_single row)
    show "owners_ok s'" "roles_ok s'" using ok(4,5) by (simp_all add: owners_ok_def roles_ok_def s')
  qed
  show "view org s' = view org s" if "org \<noteq> ctx_org ctx"
    using that by (simp add: s' row view_def is_member_def group_in_def select_append)
  show "documents s' = documents s" "chunks s' = chunks s" by (simp_all add: s')
qed

lemma audit_laws:
  assumes "db_ok s" and "\<And>u. actor = Some u \<Longrightarrow> u \<in> u_id ` set (users s) \<Longrightarrow> is_member s u org"
  shows "db_ok (audit redact org actor action detail now s)"
    "other \<noteq> org \<Longrightarrow> view other (audit redact org actor action detail now s) = view other s"
    "documents (audit redact org actor action detail now s) = documents s"
    "chunks (audit redact org actor action detail now s) = chunks s"
proof -
  let ?row = "\<lparr>l_org = org, l_actor = actor, l_action = action,
     l_detail = redact_detail redact (case detail of None \<Rightarrow> [] | Some d \<Rightarrow> d), l_created = now\<rparr>"
  let ?s' = "audit redact org actor action detail now s"
  have cases: "?s' = s \<or> (?s' = s\<lparr>audit_log := audit_log s @ [?row]\<rparr> \<and> org \<in> o_id ` set (orgs s)
      \<and> (\<forall>u. actor = Some u \<longrightarrow> u \<in> u_id ` set (users s)))"
    by (auto simp: audit_def insert_audit_def id_defs)
  have grown: "db_ok (s\<lparr>audit_log := audit_log s @ [?row]\<rparr>)"
    if "org \<in> o_id ` set (orgs s)" "\<forall>u. actor = Some u \<longrightarrow> u \<in> u_id ` set (users s)"
  proof (rule db_okI)
    note ok = db_okD [OF assms(1)]
    show "keys_ok (s\<lparr>audit_log := audit_log s @ [?row]\<rparr>)" using ok(1) by (simp add: keys_ok_def id_defs)
    show "refs_ok (s\<lparr>audit_log := audit_log s @ [?row]\<rparr>)"
      using ok(2) that by (simp add: refs_ok_def refs_append_iff refs_single refs_opt_append_iff refs_opt_single)
    have "refs_opt (\<lambda>l. map_option (\<lambda>u. (u, l_org l)) (l_actor l)) [?row] (\<lambda>m. (m_user m, m_org m)) (memberships s)"
      using assms(2) that(2) by (auto simp: refs_opt_def member_of_iff)
    then show "home_ok (s\<lparr>audit_log := audit_log s @ [?row]\<rparr>)"
      using ok(3) by (simp add: home_ok_def home_refs_def housed_def refs_opt_append_iff)
    show "owners_ok (s\<lparr>audit_log := audit_log s @ [?row]\<rparr>)" "roles_ok (s\<lparr>audit_log := audit_log s @ [?row]\<rparr>)"
      using ok(4,5) by (simp_all add: owners_ok_def roles_ok_def)
  qed
  from cases grown assms(1) show "db_ok ?s'" by metis
  have "view other (s\<lparr>audit_log := audit_log s @ [?row]\<rparr>) = view other s" if "other \<noteq> org"
    using that by (simp add: view_def is_member_def group_in_def select_append)
  then show "other \<noteq> org \<Longrightarrow> view other ?s' = view other s"
    using cases by (elim disjE conjE) simp_all
  show "documents ?s' = documents s" "chunks ?s' = chunks s"
    using cases by (elim disjE conjE; simp)+
qed

end
