(* ===== verification/Regex.thy ===== *)
theory Regex
  imports Prelude
begin

text \<open>
  The part of Python's \<open>re\<close> the program uses, as an executable backtracking matcher: \<open>matches\<close>
  lists the ways a pattern can match from a position in the order the engine tries them (greedy
  repetitions longest first, lazy ones shortest first), \<open>finditer\<close> scans from left to right and
  takes the first at each position, and \<open>re_sub\<close> is \<open>pattern.sub\<close>.  The bodies of the unbounded
  repetitions in the program's patterns consume a character, so a repetition is never longer than
  the text.  \<open>plain\<close> patterns use no assertion, and for them \<open>matches_lang\<close> reads a match off the
  matched substring alone.  The Unicode tables behind \<open>\w\<close>, \<open>\d\<close>,
  \<open>casefold\<close> and the category \<open>Cf\<close> are parameters.
\<close>

record unicode =
  uc_digit :: "nat \<Rightarrow> nat option"
  uc_alnum :: "nat \<Rightarrow> bool"
  uc_format :: "nat \<Rightarrow> bool"
  uc_casefold :: "nat \<Rightarrow> pystr"

definition uc_decimal :: "unicode \<Rightarrow> nat \<Rightarrow> bool" where
  "uc_decimal U c \<longleftrightarrow> uc_digit U c \<noteq> None"

definition word_char :: "unicode \<Rightarrow> nat \<Rightarrow> bool" where
  "word_char U c \<longleftrightarrow> uc_alnum U c \<or> c = 95"

definition slice :: "pystr \<Rightarrow> nat \<Rightarrow> nat \<Rightarrow> pystr" where
  "slice s a b = drop a (take b s)"

section \<open>Patterns and matching\<close>

datatype re =
    Eps
  | Chr "nat \<Rightarrow> bool"
  | Seq re re
  | Rep bool nat "nat option" re
  | Grp re
  | Bol
  | Wordb
  | NotAfter nat

type_synonym match_state = "nat \<times> (nat \<times> nat) list"

fun rep_re :: "('s \<Rightarrow> 's list) \<Rightarrow> bool \<Rightarrow> nat \<Rightarrow> nat \<Rightarrow> 's \<Rightarrow> 's list" where
  "rep_re m greedy lo 0 st = (if lo = 0 then [st] else [])"
| "rep_re m greedy lo (Suc n) st =
     (let more = concat (map (rep_re m greedy (lo - 1) n) (m st))
      in if 0 < lo then more else if greedy then more @ [st] else st # more)"

primrec matches :: "re \<Rightarrow> unicode \<Rightarrow> pystr \<Rightarrow> match_state \<Rightarrow> match_state list" where
  "matches Eps U s st = [st]"
| "matches (Chr P) U s st = (if fst st < length s \<and> P (s ! fst st) then [(Suc (fst st), snd st)] else [])"
| "matches (Seq a b) U s st = concat (map (matches b U s) (matches a U s st))"
| "matches (Rep greedy lo hi r) U s st =
     rep_re (matches r U s) greedy lo (case hi of Some h \<Rightarrow> h | None \<Rightarrow> lo + (length s - fst st)) st"
| "matches (Grp r) U s st = map (\<lambda>(e, caps). (e, caps @ [(fst st, e)])) (matches r U s st)"
| "matches Bol U s st = (if fst st = 0 \<or> s ! (fst st - 1) = 10 then [st] else [])"
| "matches Wordb U s st =
     (if (0 < fst st \<and> word_char U (s ! (fst st - 1))) \<noteq> (fst st < length s \<and> word_char U (s ! fst st))
      then [st] else [])"
| "matches (NotAfter c) U s st = (if 0 < fst st \<and> s ! (fst st - 1) = c then [] else [st])"

abbreviation "many \<equiv> Rep True 0 None"
abbreviation "many1 \<equiv> Rep True 1 None"
abbreviation "maybe \<equiv> Rep True 0 (Some 1)"

fun seq_re :: "re list \<Rightarrow> re" where
  "seq_re [] = Eps"
| "seq_re (r # rs) = Seq r (seq_re rs)"

text \<open>\<open>lit\<close> is a literal, \<open>any_of\<close> a class of characters, \<open>none_of\<close> a negated one.\<close>

definition lit :: "string \<Rightarrow> re" where
  "lit cs = seq_re (map (\<lambda>c. Chr (\<lambda>x. x = of_char c)) cs)"

definition any_of :: "string \<Rightarrow> re" where
  "any_of cs = Chr (\<lambda>x. x \<in> set (ascii cs))"

definition none_of :: "string \<Rightarrow> re" where
  "none_of cs = Chr (\<lambda>x. x \<notin> set (ascii cs))"

section \<open>Searching and substituting\<close>

definition first_match :: "re \<Rightarrow> unicode \<Rightarrow> pystr \<Rightarrow> nat \<Rightarrow> match_state option" where
  "first_match r U s i = (case matches r U s (i, []) of [] \<Rightarrow> None | m # _ \<Rightarrow> Some m)"

function finditer_from :: "re \<Rightarrow> unicode \<Rightarrow> pystr \<Rightarrow> nat \<Rightarrow> (nat \<times> nat \<times> (nat \<times> nat) list) list" where
  "finditer_from r U s i =
     (if length s < i then []
      else case first_match r U s i of
             None \<Rightarrow> finditer_from r U s (Suc i)
           | Some (e, caps) \<Rightarrow> (i, e, caps) # finditer_from r U s (if i < e then e else Suc i))"
  by pat_completeness auto
termination by (relation "measure (\<lambda>(r, U, s, i). Suc (length s) - i)") auto

declare finditer_from.simps [simp del]

definition finditer :: "re \<Rightarrow> unicode \<Rightarrow> pystr \<Rightarrow> (nat \<times> nat \<times> (nat \<times> nat) list) list" where
  "finditer r U s = finditer_from r U s 0"

definition re_search :: "re \<Rightarrow> unicode \<Rightarrow> pystr \<Rightarrow> bool" where
  "re_search r U s = list_ex (\<lambda>i. first_match r U s i \<noteq> None) [0..<Suc (length s)]"

definition spans :: "re \<Rightarrow> unicode \<Rightarrow> pystr \<Rightarrow> (nat \<times> nat) list" where
  "spans r U s = map (\<lambda>(a, b, caps). (a, b)) (finditer r U s)"

fun subst_from :: "pystr \<Rightarrow> nat \<Rightarrow> pystr \<Rightarrow> (nat \<times> nat) list \<Rightarrow> pystr" where
  "subst_from repl i s [] = drop i s"
| "subst_from repl i s ((a, b) # rest) = slice s i a @ repl @ subst_from repl b s rest"

definition re_sub :: "re \<Rightarrow> unicode \<Rightarrow> pystr \<Rightarrow> pystr \<Rightarrow> pystr" where
  "re_sub r U repl s = subst_from repl 0 s (spans r U s)"

lemma rep_re_numeral [simp]:
  "rep_re m greedy lo (numeral n) st =
     (let more = concat (map (rep_re m greedy (lo - 1) (pred_numeral n)) (m st))
      in if 0 < lo then more else if greedy then more @ [st] else st # more)"
  by (simp add: numeral_eq_Suc)

lemmas scan = finditer_def finditer_from.simps first_match_def lit_def any_of_def

section \<open>Slices\<close>

lemma slice_Nil [simp]: "slice s a a = []"
  by (simp add: slice_def)

lemma length_slice [simp]: "length (slice s a b) = min (length s) b - a"
  by (simp add: slice_def)

lemma slice_append:
  assumes "a \<le> b" "b \<le> c"
  shows "slice s a b @ slice s b c = slice s a c"
proof -
  have "slice s a b = take (b - a) (slice s a c)" using assms by (simp add: slice_def take_drop min_def)
  moreover have "slice s b c = drop (b - a) (slice s a c)" using assms by (simp add: slice_def)
  ultimately show ?thesis by simp
qed

lemma slice_Suc: "i < length s \<Longrightarrow> slice s i (Suc i) = [s ! i]"
  by (simp add: slice_def take_Suc_conv_app_nth)

lemma slice_take_drop: "slice s i (i + n) = take n (drop i s)"
  by (simp add: slice_def take_drop add.commute)

lemma slice_all: "length s \<le> b \<Longrightarrow> slice s a b = drop a s"
  by (simp add: slice_def)

section \<open>The language of a plain pattern\<close>

fun powers :: "pystr set \<Rightarrow> nat \<Rightarrow> pystr set" where
  "powers L 0 = {[]}"
| "powers L (Suc n) = {u @ v |u v. u \<in> L \<and> v \<in> powers L n}"

primrec lang :: "re \<Rightarrow> pystr set" where
  "lang Eps = {[]}"
| "lang (Chr P) = {[c] |c. P c}"
| "lang (Seq a b) = {u @ v |u v. u \<in> lang a \<and> v \<in> lang b}"
| "lang (Rep greedy lo hi r) = (\<Union>n\<in>{n. lo \<le> n \<and> (\<forall>h. hi = Some h \<longrightarrow> n \<le> h)}. powers (lang r) n)"
| "lang (Grp r) = lang r"
| "lang Bol = {[]}"
| "lang Wordb = {[]}"
| "lang (NotAfter c) = {[]}"

primrec plain :: "re \<Rightarrow> bool" where
  "plain Eps \<longleftrightarrow> True"
| "plain (Chr P) \<longleftrightarrow> True"
| "plain (Seq a b) \<longleftrightarrow> plain a \<and> plain b"
| "plain (Rep greedy lo hi r) \<longleftrightarrow> plain r \<and> (hi = None \<longrightarrow> [] \<notin> lang r)"
| "plain (Grp r) \<longleftrightarrow> plain r"
| "plain Bol \<longleftrightarrow> False"
| "plain Wordb \<longleftrightarrow> False"
| "plain (NotAfter c) \<longleftrightarrow> False"

lemma powers_length: "[] \<notin> L \<Longrightarrow> u \<in> powers L n \<Longrightarrow> n \<le> length u"
proof (induction n arbitrary: u)
  case (Suc n)
  then obtain v w where "u = v @ w" "v \<in> L" "w \<in> powers L n" by auto
  with Suc show ?case by (cases v) fastforce+
qed simp

lemma powers_SucI: "u \<in> L \<Longrightarrow> v \<in> powers L n \<Longrightarrow> u @ v \<in> powers L (Suc n)"
  by auto

lemma powers_Chr: "u \<in> powers {[c] |c. P c} n \<longleftrightarrow> length u = n \<and> (\<forall>c\<in>set u. P c)"
proof (induction n arbitrary: u)
  case (Suc n)
  show ?case
  proof
    assume "u \<in> powers {[c] |c. P c} (Suc n)"
    then show "length u = Suc n \<and> (\<forall>c\<in>set u. P c)" by (auto simp: Suc)
  next
    assume u: "length u = Suc n \<and> (\<forall>c\<in>set u. P c)"
    then obtain c v where "u = [c] @ v" by (cases u) auto
    with u Suc [of v] show "u \<in> powers {[c] |c. P c} (Suc n)"
      using powers_SucI [of "[c]" "{[c] |c. P c}" v n] by simp
  qed
qed auto

text \<open>A repeated character class reads the strings of the class.\<close>

lemma lang_Rep_Chr:
  "lang (Rep greedy lo hi (Chr P)) = {u. lo \<le> length u \<and> (\<forall>h. hi = Some h \<longrightarrow> length u \<le> h) \<and> (\<forall>c\<in>set u. P c)}"
  unfolding lang.simps by (auto simp: powers_Chr)

lemma lang_SeqI: "u \<in> lang a \<Longrightarrow> v \<in> lang b \<Longrightarrow> u @ v \<in> lang (Seq a b)"
  by auto

text \<open>A sequence of single-character classes reads the strings that fit it place by place.\<close>

lemma lang_seq_Chr: "u \<in> lang (seq_re (map (\<lambda>c. Chr (f c)) cs)) \<longleftrightarrow> list_all2 (\<lambda>x c. f c x) u cs"
proof (induction cs arbitrary: u)
  case (Cons c cs)
  show ?case
  proof (cases u)
    case (Cons x v)
    have "u \<in> lang (seq_re (map (\<lambda>c. Chr (f c)) (c # cs))) \<longleftrightarrow> f c x \<and> v \<in> lang (seq_re (map (\<lambda>c. Chr (f c)) cs))"
    proof
      assume "f c x \<and> v \<in> lang (seq_re (map (\<lambda>c. Chr (f c)) cs))"
      then have "[x] @ v \<in> lang (seq_re (map (\<lambda>c. Chr (f c)) (c # cs)))"
        unfolding list.map seq_re.simps by (intro lang_SeqI) simp_all
      then show "u \<in> lang (seq_re (map (\<lambda>c. Chr (f c)) (c # cs)))" by (simp add: Cons)
    qed (auto simp: Cons)
    then show ?thesis using Cons.IH by (simp add: Cons)
  qed auto
qed auto

text \<open>\<open>reads m L\<close>: the matcher \<open>m\<close> reads exactly the substrings of \<open>L\<close>, from any position.\<close>

definition reads :: "pystr \<Rightarrow> (match_state \<Rightarrow> match_state list) \<Rightarrow> pystr set \<Rightarrow> bool" where
  "reads s m L \<longleftrightarrow> (\<forall>i caps e. i \<le> length s \<longrightarrow>
     ((\<exists>caps'. (e, caps') \<in> set (m (i, caps))) \<longleftrightarrow> i \<le> e \<and> e \<le> length s \<and> slice s i e \<in> L))"

lemma readsD:
  "reads s m L \<Longrightarrow> i \<le> length s \<Longrightarrow>
     (\<exists>caps'. (e, caps') \<in> set (m (i, caps))) \<longleftrightarrow> i \<le> e \<and> e \<le> length s \<and> slice s i e \<in> L"
  by (simp add: reads_def)

lemma slice_split:
  assumes "i \<le> e" "e \<le> length s" "slice s i e = u @ v"
  shows "slice s i (i + length u) = u \<and> slice s (i + length u) e = v \<and> i + length u \<le> e"
proof -
  have "length u + length v = e - i" using assms by (metis length_append length_slice min.absorb2)
  then have le: "i + length u \<le> e" using assms(1) by simp
  then have "slice s i (i + length u) @ slice s (i + length u) e = u @ v"
    using slice_append [of i "i + length u" e s] assms(3) by simp
  moreover have "length (slice s i (i + length u)) = length u" using le assms(2) by simp
  ultimately show ?thesis using le by simp
qed

lemma reads_seq:
  assumes "reads s m L" "reads s m' L'"
  shows "reads s (\<lambda>st. concat (map m' (m st))) {u @ v |u v. u \<in> L \<and> v \<in> L'}"
  unfolding reads_def
proof (intro allI impI)
  fix i caps e
  assume i: "i \<le> length s"
  have "(\<exists>caps'. (e, caps') \<in> set (concat (map m' (m (i, caps)))))
      \<longleftrightarrow> (\<exists>j c. (j, c) \<in> set (m (i, caps)) \<and> (\<exists>caps'. (e, caps') \<in> set (m' (j, c))))" by auto
  also have "\<dots> \<longleftrightarrow> (\<exists>j. i \<le> j \<and> j \<le> length s \<and> slice s i j \<in> L \<and> j \<le> e \<and> e \<le> length s \<and> slice s j e \<in> L')"
    using readsD [OF assms(1) i] readsD [OF assms(2)] by meson
  also have "\<dots> \<longleftrightarrow> i \<le> e \<and> e \<le> length s \<and> slice s i e \<in> {u @ v |u v. u \<in> L \<and> v \<in> L'}"
  proof
    assume "\<exists>j. i \<le> j \<and> j \<le> length s \<and> slice s i j \<in> L \<and> j \<le> e \<and> e \<le> length s \<and> slice s j e \<in> L'"
    then obtain j where j: "i \<le> j" "j \<le> e" "e \<le> length s" "slice s i j \<in> L" "slice s j e \<in> L'" by blast
    from slice_append [OF j(1,2), of s] have "slice s i e = slice s i j @ slice s j e" by simp
    with j show "i \<le> e \<and> e \<le> length s \<and> slice s i e \<in> {u @ v |u v. u \<in> L \<and> v \<in> L'}" by auto
  next
    assume "i \<le> e \<and> e \<le> length s \<and> slice s i e \<in> {u @ v |u v. u \<in> L \<and> v \<in> L'}"
    then obtain u v where "i \<le> e" "e \<le> length s" "slice s i e = u @ v" "u \<in> L" "v \<in> L'" by auto
    with slice_split [of i e s u v]
    show "\<exists>j. i \<le> j \<and> j \<le> length s \<and> slice s i j \<in> L \<and> j \<le> e \<and> e \<le> length s \<and> slice s j e \<in> L'"
      by (intro exI [of _ "i + length u"]) auto
  qed
  finally show "(\<exists>caps'. (e, caps') \<in> set (concat (map m' (m (i, caps)))))
      \<longleftrightarrow> i \<le> e \<and> e \<le> length s \<and> slice s i e \<in> {u @ v |u v. u \<in> L \<and> v \<in> L'}" .
qed

lemma reads_Eps: "reads s (\<lambda>st. [st]) {[]}"
  unfolding reads_def by (auto simp: slice_def)

lemma powers_shift: "{u @ v |u v. u \<in> L \<and> v \<in> (\<Union>k\<in>A. powers L k)} = (\<Union>k\<in>Suc ` A. powers L k)"
  by auto

lemma reads_or_stop:
  assumes "reads s m L"
  shows "reads s (\<lambda>st. if greedy then m st @ [st] else st # m st) (insert [] L)"
  unfolding reads_def
proof (intro allI impI)
  fix i caps e
  assume i: "i \<le> length s"
  have "(\<exists>caps'. (e, caps') \<in> set (if greedy then m (i, caps) @ [(i, caps)] else (i, caps) # m (i, caps)))
      \<longleftrightarrow> (\<exists>caps'. (e, caps') \<in> set (m (i, caps))) \<or> (\<exists>caps'. (e, caps') \<in> set [(i, caps)])" by auto
  also have "\<dots> \<longleftrightarrow> i \<le> e \<and> e \<le> length s \<and> slice s i e \<in> insert [] L"
    unfolding readsD [OF assms i] readsD [OF reads_Eps i] by blast
  finally show "(\<exists>caps'. (e, caps') \<in> set (if greedy then m (i, caps) @ [(i, caps)] else (i, caps) # m (i, caps)))
      \<longleftrightarrow> i \<le> e \<and> e \<le> length s \<and> slice s i e \<in> insert [] L" .
qed

lemma reads_rep:
  assumes "reads s m L"
  shows "reads s (rep_re m greedy lo n) (\<Union>k\<in>{lo..n}. powers L k)"
proof (induction n arbitrary: lo)
  case 0
  show ?case
  proof (cases "lo = 0")
    case True
    then have "rep_re m greedy lo 0 = (\<lambda>st. [st])" by (simp add: fun_eq_iff)
    with True reads_Eps [of s] show ?thesis by simp
  next
    case False
    then show ?thesis by (simp add: reads_def)
  qed
next
  case (Suc n)
  let ?more = "\<lambda>st. concat (map (rep_re m greedy (lo - 1) n) (m st))"
  let ?L = "{u @ v |u v. u \<in> L \<and> v \<in> (\<Union>k\<in>{lo - 1..n}. powers L k)}"
  have more: "reads s ?more ?L" by (rule reads_seq [OF assms Suc.IH])
  note L = powers_shift [of L "{lo - 1..n}"]
  show ?case
  proof (cases "0 < lo")
    case True
    then have "Suc ` {lo - 1..n} = {lo..Suc n}" by (simp add: image_Suc_atLeastAtMost)
    moreover have "rep_re m greedy lo (Suc n) = ?more" using True by (simp add: fun_eq_iff)
    ultimately show ?thesis using more L by (simp only:)
  next
    case False
    then have "{lo..Suc n} = insert 0 (Suc ` {lo - 1..n})"
      by (simp add: atMost_Suc_eq_insert_0 atLeast0AtMost)
    then have "(\<Union>k\<in>{lo..Suc n}. powers L k) = insert [] ?L"
      unfolding L by (simp only: UN_insert powers.simps(1) insert_is_Un [symmetric])
    moreover have "rep_re m greedy lo (Suc n) = (\<lambda>st. if greedy then ?more st @ [st] else st # ?more st)"
      using False by (simp add: fun_eq_iff)
    ultimately show ?thesis using reads_or_stop [OF more] by (simp only:)
  qed
qed

lemma reads_Chr: "reads s (matches (Chr P) U s) (lang (Chr P))"
  unfolding reads_def
proof (intro allI impI)
  fix i caps e
  have "i \<le> e \<and> e \<le> length s \<and> slice s i e \<in> lang (Chr P) \<longleftrightarrow> i < length s \<and> P (s ! i) \<and> e = Suc i"
  proof
    assume e: "i \<le> e \<and> e \<le> length s \<and> slice s i e \<in> lang (Chr P)"
    then obtain c where c: "slice s i e = [c]" by auto
    have "length (slice s i e) = 1" unfolding c by simp
    with e have "e = Suc i" by simp
    with e show "i < length s \<and> P (s ! i) \<and> e = Suc i" by (auto simp: slice_Suc)
  qed (auto simp: slice_Suc)
  then show "(\<exists>caps'. (e, caps') \<in> set (matches (Chr P) U s (i, caps)))
      \<longleftrightarrow> i \<le> e \<and> e \<le> length s \<and> slice s i e \<in> lang (Chr P)" by auto
qed

lemma reads_unbounded:
  assumes "reads s m L" "[] \<notin> L"
  shows "reads s (\<lambda>st. rep_re m greedy lo (lo + (length s - fst st)) st) (\<Union>k\<in>{lo..}. powers L k)"
  unfolding reads_def
proof (intro allI impI)
  fix i caps e
  assume i: "i \<le> length s"
  let ?n = "lo + (length s - i)"
  have "k \<le> ?n" if "slice s i e \<in> powers L k" "i \<le> e" "e \<le> length s" for k
    using powers_length [OF assms(2) that(1)] that(2,3) by simp
  then have "i \<le> e \<and> e \<le> length s \<and> slice s i e \<in> (\<Union>k\<in>{lo..?n}. powers L k)
      \<longleftrightarrow> i \<le> e \<and> e \<le> length s \<and> slice s i e \<in> (\<Union>k\<in>{lo..}. powers L k)" by fastforce
  with readsD [OF reads_rep [OF assms(1)] i]
  show "(\<exists>caps'. (e, caps') \<in> set (rep_re m greedy lo (lo + (length s - fst (i, caps))) (i, caps)))
      \<longleftrightarrow> i \<le> e \<and> e \<le> length s \<and> slice s i e \<in> (\<Union>k\<in>{lo..}. powers L k)" by simp
qed

lemma matches_reads: "plain r \<Longrightarrow> reads s (matches r U s) (lang r)"
proof (induction r)
  case (Chr P)
  show ?case by (rule reads_Chr)
next
  case (Seq a b)
  then show ?case using reads_seq [of s "matches a U s" "lang a" "matches b U s" "lang b"]
    by (simp add: reads_def)
next
  case (Rep greedy lo hi r)
  then have m: "reads s (matches r U s) (lang r)" by simp
  show ?case
  proof (cases hi)
    case None
    moreover have "{n. lo \<le> n} = {lo..}" by auto
    ultimately show ?thesis using reads_unbounded [OF m] Rep.prems by (simp add: reads_def)
  next
    case (Some h)
    moreover have "{n. lo \<le> n \<and> n \<le> h} = {lo..h}" by auto
    ultimately show ?thesis using reads_rep [OF m, of greedy lo h] by (simp add: reads_def)
  qed
next
  case (Grp r)
  have "(\<exists>c. (e, c) \<in> (\<lambda>(e, c). (e, g e c)) ` A) \<longleftrightarrow> (\<exists>c. (e, c) \<in> A)"
    for e :: nat and g :: "nat \<Rightarrow> (nat \<times> nat) list \<Rightarrow> (nat \<times> nat) list" and A by force
  with Grp show ?case by (simp add: reads_def)
next
  case Eps
  show ?case using reads_Eps [of s] by (simp add: reads_def)
qed simp_all

text \<open>Every pattern, assertions included, only matches words of its language.\<close>

lemma rep_re_sound:
  assumes "\<And>i caps e c. (e, c) \<in> set (m (i, caps)) \<Longrightarrow> i \<le> length s \<Longrightarrow> i \<le> e \<and> e \<le> length s \<and> slice s i e \<in> L"
    and "(e, c) \<in> set (rep_re m greedy lo n (i, caps))" "i \<le> length s"
  shows "i \<le> e \<and> e \<le> length s \<and> (\<exists>k. lo \<le> k \<and> k \<le> n \<and> slice s i e \<in> powers L k)"
  using assms(2,3)
proof (induction n arbitrary: lo i caps)
  case 0
  then show ?case by (auto split: if_splits)
next
  case (Suc n)
  show ?case
  proof (cases "lo = 0 \<and> (e, c) = (i, caps)")
    case True
    with Suc.prems show ?thesis by (auto intro!: exI [of _ 0])
  next
    case False
    with Suc.prems obtain j d where j: "(j, d) \<in> set (m (i, caps))" "(e, c) \<in> set (rep_re m greedy (lo - 1) n (j, d))"
      by (auto simp: Let_def split: if_splits)
    from assms(1) [OF j(1) Suc.prems(2)] have ij: "i \<le> j" "j \<le> length s" "slice s i j \<in> L" by blast+
    from Suc.IH [OF j(2) ij(2)] obtain k where k: "j \<le> e" "e \<le> length s" "lo - 1 \<le> k" "k \<le> n" "slice s j e \<in> powers L k" by blast
    have "slice s i e = slice s i j @ slice s j e" using ij(1) k(1) by (simp add: slice_append)
    with ij k have "slice s i e \<in> powers L (Suc k)" by auto
    with ij k show ?thesis by (intro conjI exI [of _ "Suc k"]) auto
  qed
qed

lemma matches_sound:
  "(e, c) \<in> set (matches r U s (i, caps)) \<Longrightarrow> i \<le> length s \<Longrightarrow>
     i \<le> e \<and> e \<le> length s \<and> slice s i e \<in> lang r"
proof (induction r arbitrary: i caps e c)
  case (Chr P)
  then show ?case using readsD [OF reads_Chr, of i s e P U caps] by auto
next
  case (Seq a b)
  then obtain j d where j: "(j, d) \<in> set (matches a U s (i, caps))" "(e, c) \<in> set (matches b U s (j, d))" by auto
  from Seq.IH(1) [OF j(1) Seq.prems(2)] have ij: "i \<le> j" "j \<le> length s" "slice s i j \<in> lang a" by blast+
  from Seq.IH(2) [OF j(2) ij(2)] have je: "j \<le> e" "e \<le> length s" "slice s j e \<in> lang b" by blast+
  have "slice s i e = slice s i j @ slice s j e" using ij(1) je(1) by (simp add: slice_append)
  with ij je show ?case by auto
next
  case (Rep greedy lo hi r)
  let ?n = "case hi of Some h \<Rightarrow> h | None \<Rightarrow> lo + (length s - i)"
  from Rep.prems(1) have mem: "(e, c) \<in> set (rep_re (matches r U s) greedy lo ?n (i, caps))" by (cases hi) simp_all
  have "i \<le> e \<and> e \<le> length s \<and> (\<exists>k. lo \<le> k \<and> k \<le> ?n \<and> slice s i e \<in> powers (lang r) k)"
    by (rule rep_re_sound [OF _ mem Rep.prems(2)]) (rule Rep.IH)
  then show ?case by (auto split: option.splits)
qed (auto split: if_splits)

section \<open>Where the matches are\<close>

lemma first_match_sound:
  assumes "first_match r U s i = Some (e, c)" "i \<le> length s"
  shows "i \<le> e \<and> e \<le> length s \<and> slice s i e \<in> lang r"
  using assms matches_sound [of e c r U s i "[]"] by (cases "matches r U s (i, [])") (auto simp: first_match_def)

lemma first_match_complete:
  assumes "plain r" "i \<le> e" "e \<le> length s" "slice s i e \<in> lang r"
  shows "first_match r U s i \<noteq> None"
proof -
  have "\<exists>caps'. (e, caps') \<in> set (matches r U s (i, []))"
    using assms readsD [OF matches_reads, of r i s e U "[]"] by simp
  then show ?thesis by (auto simp: first_match_def split: list.split)
qed

fun spans_ok :: "nat \<Rightarrow> nat \<Rightarrow> (nat \<times> nat) list \<Rightarrow> bool" where
  "spans_ok n i [] \<longleftrightarrow> True"
| "spans_ok n i ((a, b) # rest) \<longleftrightarrow> i \<le> a \<and> a < b \<and> b \<le> n \<and> spans_ok n b rest"

lemma spans_ok_earlier: "spans_ok n i xs \<Longrightarrow> j \<le> i \<Longrightarrow> spans_ok n j xs"
  by (cases xs) auto

definition located :: "re \<Rightarrow> unicode \<Rightarrow> pystr \<Rightarrow> nat \<Rightarrow> (nat \<times> nat) list \<Rightarrow> bool" where
  "located r U s i xs \<longleftrightarrow> spans_ok (length s) i xs \<and> (\<forall>(a, b)\<in>set xs. slice s a b \<in> lang r)
     \<and> (\<forall>p. i \<le> p \<and> p \<le> length s \<and> (\<forall>(a, b)\<in>set xs. p < a \<or> b \<le> p) \<longrightarrow> first_match r U s p = None)"

lemma finditer_from_located:
  assumes "[] \<notin> lang r"
  shows "located r U s i (map (\<lambda>(a, b, c). (a, b)) (finditer_from r U s i))"
  using assms
proof (induction r U s i rule: finditer_from.induct)
  case (1 r U s i)
  show ?case
  proof (cases "length s < i")
    case True
    then show ?thesis by (auto simp: finditer_from.simps located_def)
  next
    case False
    show ?thesis
    proof (cases "first_match r U s i")
      case None
      then have eq: "finditer_from r U s i = finditer_from r U s (Suc i)"
        using False by (simp add: finditer_from.simps [of r U s i])
      have at: "first_match r U s p = None" if "i \<le> p" "Suc i \<le> p \<Longrightarrow> first_match r U s p = None" for p
        using that None by (cases "p = i") auto
      from 1(1) [OF False None 1(3)] show ?thesis
        unfolding eq located_def by (auto intro: spans_ok_earlier [of _ "Suc i"] at)
    next
      case (Some m)
      obtain e c where m: "m = (e, c)" by (cases m)
      have e: "i \<le> e" "e \<le> length s" "slice s i e \<in> lang r"
        using first_match_sound [OF Some [unfolded m]] False by auto
      with 1(3) have ie: "i < e" by (metis le_neq_implies_less slice_Nil)
      then have eq: "finditer_from r U s i = (i, e, c) # finditer_from r U s e"
        using False Some m by (simp add: finditer_from.simps [of r U s i])
      from 1(2) [OF False Some m [symmetric] 1(3)] ie
      have "located r U s e (map (\<lambda>(a, b, c). (a, b)) (finditer_from r U s e))" by simp
      with e ie show ?thesis unfolding eq located_def by auto
    qed
  qed
qed

lemma spans_located: "[] \<notin> lang r \<Longrightarrow> located r U s 0 (spans r U s)"
  unfolding spans_def finditer_def by (rule finditer_from_located)


section \<open>What a substitution leaves\<close>

text \<open>
  The markers the program substitutes are bracketed.  A word without brackets that occurs in the
  result and not inside the marker's own text occurs between two matches, so it occurred in the
  original, where no match started; what follows it in the result was there too, or is marker text.
\<close>

definition bracketed :: "pystr \<Rightarrow> pystr" where
  "bracketed mid = 91 # mid @ [93]"

definition foreign :: "pystr \<Rightarrow> pystr \<Rightarrow> bool" where
  "foreign mid u \<longleftrightarrow> 91 \<notin> set u \<and> 93 \<notin> set u \<and> (\<exists>c\<in>set u. c \<notin> set mid)"

lemma infix_around:
  assumes "A @ x # B = xs @ u @ ys" "x \<notin> set u"
  obtains ys' where "A = xs @ u @ ys'" "ys = ys' @ x # B" | xs' where "B = xs' @ u @ ys" "xs = A @ x # xs'"
proof -
  have "(\<exists>ys'. A = xs @ u @ ys' \<and> ys = ys' @ x # B) \<or> (\<exists>xs'. B = xs' @ u @ ys \<and> xs = A @ x # xs')"
    using assms by (auto simp: append_eq_append_conv2 append_eq_Cons_conv Cons_eq_append_conv)
  then show thesis using that by blast
qed

lemma slice_infix:
  assumes "slice s i e = xs @ u @ ys" "i \<le> e" "e \<le> length s"
  shows "slice s (i + length xs) (i + length xs + length u) = u
    \<and> slice s (i + length xs + length u) e = ys \<and> i + length xs + length u \<le> e"
  using slice_split [OF assms(2,3,1)] slice_split [of "i + length xs" e s u ys] assms(3) by simp

lemma set_drop_mono: "a \<le> b \<Longrightarrow> set (drop b s) \<subseteq> set (drop a s)"
  by (rule set_drop_subset_set_drop) simp

lemma set_slice: "set (slice s a b) \<subseteq> set (drop a s)"
  by (simp add: slice_def drop_take set_take_subset)

lemma spans_ok_ge: "spans_ok n i ss \<Longrightarrow> (a, b) \<in> set ss \<Longrightarrow> i \<le> a"
  by (induction ss arbitrary: i) (auto, force)

lemma set_subst_from:
  "spans_ok (length s) i ss \<Longrightarrow> set (subst_from repl i s ss) \<subseteq> set (drop i s) \<union> set repl"
proof (induction ss arbitrary: i)
  case (Cons ab ss)
  obtain a b where ab: "ab = (a, b)" by (cases ab)
  with Cons have "set (subst_from repl b s ss) \<subseteq> set (drop b s) \<union> set repl" by simp
  moreover have "set (drop b s) \<subseteq> set (drop i s)" using Cons.prems ab by (intro set_drop_mono) simp
  ultimately show ?case using set_slice [of s i a] by (auto simp: ab)
qed simp

lemma subst_from_infix:
  assumes "subst_from (bracketed mid) i s ss = xs @ u @ ys" "foreign mid u"
    and "spans_ok (length s) i ss" "i \<le> length s"
  shows "\<exists>p. i \<le> p \<and> p + length u \<le> length s \<and> slice s p (p + length u) = u
     \<and> (\<forall>(a, b)\<in>set ss. p < a \<or> b \<le> p) \<and> set ys \<subseteq> set (drop (p + length u) s) \<union> set (bracketed mid)"
  using assms
proof (induction ss arbitrary: i xs)
  case Nil
  then have s: "slice s i (length s) = xs @ u @ ys" by (simp add: slice_all)
  from slice_infix [OF s] Nil.prems(4) set_slice show ?case
    by (intro exI [of _ "i + length xs"]) auto
next
  case (Cons ab ss)
  obtain a b where ab: "ab = (a, b)" by (cases ab)
  let ?rest = "subst_from (bracketed mid) b s ss"
  have ok: "i \<le> a" "a < b" "b \<le> length s" "spans_ok (length s) b ss" using Cons.prems(3) ab by auto
  have u: "91 \<notin> set u" "93 \<notin> set u" "u \<noteq> []" and mid: "\<And>v w. mid \<noteq> v @ u @ w"
    using Cons.prems(2) by (auto simp: foreign_def)
  from Cons.prems(1) have "slice s i a @ 91 # (mid @ 93 # ?rest) = xs @ u @ ys" by (simp add: ab bracketed_def)
  from infix_around [OF this u(1)] show ?case
  proof cases
    case (1 ys')
    from slice_infix [OF 1(1) ok(1)] ok have p: "slice s (i + length xs) (i + length xs + length u) = u"
      "slice s (i + length xs + length u) a = ys'" "i + length xs + length u \<le> a" by auto
    have "set ?rest \<subseteq> set (drop (i + length xs + length u) s) \<union> set (bracketed mid)"
      using set_subst_from [OF ok(4)] set_drop_mono [of "i + length xs + length u" b s] p(3) ok(2) by fastforce
    then have "set ys \<subseteq> set (drop (i + length xs + length u) s) \<union> set (bracketed mid)"
      using set_slice [of s "i + length xs + length u" a] by (auto simp: 1(2) p(2) bracketed_def)
    moreover have "i + length xs < a" using p(3) u(3) by (cases u) auto
    moreover have "\<forall>(a', b')\<in>set ss. b \<le> a'" using spans_ok_ge [OF ok(4)] by auto
    ultimately show ?thesis
      using p ok ab by (intro exI [of _ "i + length xs"]) fastforce
  next
    case (2 xs')
    from infix_around [OF 2(1) u(2)] show ?thesis
    proof cases
      case (1 ys')
      with mid show ?thesis by blast
    next
      case (2 xs'')
      from Cons.IH [OF 2(1) Cons.prems(2) ok(4,3)] obtain p where p: "b \<le> p" "p + length u \<le> length s"
        "slice s p (p + length u) = u" "\<forall>(a, b)\<in>set ss. p < a \<or> b \<le> p"
        "set ys \<subseteq> set (drop (p + length u) s) \<union> set (bracketed mid)" by blast
      then show ?thesis using ok ab by (intro exI [of _ p]) auto
    qed
  qed
qed

definition occurs_in :: "pystr set \<Rightarrow> pystr \<Rightarrow> bool" where
  "occurs_in L t \<longleftrightarrow> (\<exists>xs u ys. t = xs @ u @ ys \<and> u \<in> L)"

lemma slice_around: "a \<le> b \<Longrightarrow> take a s @ slice s a b @ drop b s = s"
  unfolding slice_def by (metis append.assoc append_take_drop_id min.absorb1 take_take)

lemma occurs_in_slice: "slice s p (p + n) \<in> L \<Longrightarrow> occurs_in L s"
  unfolding occurs_in_def using slice_around [of p "p + n" s] by (metis le_add1)

lemma occurs_inE:
  assumes "occurs_in L s"
  obtains i e where "i \<le> e" "e \<le> length s" "slice s i e \<in> L"
proof -
  obtain xs u ys where s: "s = xs @ u @ ys" "u \<in> L" using assms by (auto simp: occurs_in_def)
  have "slice s 0 (length s) = xs @ u @ ys" using s by (simp add: slice_all)
  from slice_infix [OF this] s(2) that [of "length xs" "length xs + length u"] show thesis by simp
qed

lemma re_search_occurs:
  assumes "plain r"
  shows "re_search r U s \<longleftrightarrow> occurs_in (lang r) s"
proof
  assume "re_search r U s"
  then obtain i where "i \<in> set [0..<Suc (length s)]" "first_match r U s i \<noteq> None"
    by (auto simp only: re_search_def list_ex_iff)
  then obtain m where i: "i \<le> length s" "first_match r U s i = Some m" by auto
  obtain e c where "m = (e, c)" by (cases m)
  with first_match_sound [of r U s i e c] i have "i \<le> e" "slice s i e \<in> lang r" by auto
  then show "occurs_in (lang r) s" using occurs_in_slice [of s i "e - i"] by simp
next
  assume "occurs_in (lang r) s"
  then obtain i e where "i \<le> e" "e \<le> length s" "slice s i e \<in> lang r" by (rule occurs_inE)
  with first_match_complete [OF assms this, of U] show "re_search r U s"
    unfolding re_search_def list_ex_iff by (intro bexI [of _ i]) auto
qed

text \<open>A substitution of a plain pattern removes it, and no substitution brings it back.\<close>

lemma re_sub_removes:
  assumes "plain r" "[] \<notin> lang r" "\<And>u. u \<in> lang r \<Longrightarrow> foreign mid u"
  shows "\<not> occurs_in (lang r) (re_sub r U (bracketed mid) s)"
proof
  assume "occurs_in (lang r) (re_sub r U (bracketed mid) s)"
  then obtain xs u ys where u: "subst_from (bracketed mid) 0 s (spans r U s) = xs @ u @ ys" "u \<in> lang r"
    by (auto simp: occurs_in_def re_sub_def)
  note at = spans_located [OF assms(2), of U s]
  obtain p where p: "p + length u \<le> length s" "slice s p (p + length u) = u"
    "\<forall>(a, b)\<in>set (spans r U s). p < a \<or> b \<le> p"
    using subst_from_infix [OF u(1) assms(3) [OF u(2)]] at by (auto simp: located_def)
  then have "first_match r U s p = None" using at by (simp add: located_def)
  moreover have "first_match r U s p \<noteq> None"
    using first_match_complete [OF assms(1), of p "p + length u" s U] p u(2) by simp
  ultimately show False by simp
qed

lemma re_sub_keeps_out:
  assumes "\<not> occurs_in L s" "[] \<notin> lang r" "\<And>u. u \<in> L \<Longrightarrow> foreign mid u"
  shows "\<not> occurs_in L (re_sub r U (bracketed mid) s)"
proof
  assume "occurs_in L (re_sub r U (bracketed mid) s)"
  then obtain xs u ys where u: "subst_from (bracketed mid) 0 s (spans r U s) = xs @ u @ ys" "u \<in> L"
    by (auto simp: occurs_in_def re_sub_def)
  obtain p where "p + length u \<le> length s" "slice s p (p + length u) = u"
    using subst_from_infix [OF u(1) assms(3) [OF u(2)]] spans_located [OF assms(2), of U s]
    by (auto simp: located_def)
  with assms(1) u(2) show False using occurs_in_slice [of s p "length u" L] by simp
qed


lemma re_search_None: "\<not> re_search r U s \<Longrightarrow> i \<le> length s \<Longrightarrow> first_match r U s i = None"
proof (rule ccontr)
  assume "\<not> re_search r U s" "i \<le> length s" "first_match r U s i \<noteq> None"
  moreover from this(2) have "i \<in> set [0..<Suc (length s)]" by auto
  ultimately show False unfolding re_search_def list_ex_iff by blast
qed

lemma finditer_from_Nil:
  "(\<And>p. p \<le> length s \<Longrightarrow> first_match r U s p = None) \<Longrightarrow> finditer_from r U s i = []"
proof (induction r U s i rule: finditer_from.induct)
  case (1 r U s i)
  show ?case
  proof (cases "length s < i")
    case True
    then show ?thesis by (simp add: finditer_from.simps)
  next
    case False
    then have none: "first_match r U s i = None" by (simp add: 1(3))
    with False 1(1) [OF False none 1(3)] show ?thesis by (simp add: finditer_from.simps [of r U s i])
  qed
qed

lemma spans_Nil: "\<not> re_search r U s \<Longrightarrow> spans r U s = []"
  by (simp add: spans_def finditer_def finditer_from_Nil re_search_None)

lemma re_sub_same: "\<not> re_search r U s \<Longrightarrow> re_sub r U repl s = s"
  by (simp add: re_sub_def spans_Nil)

text \<open>The characters a pattern can consume.\<close>

primrec consumes :: "re \<Rightarrow> nat \<Rightarrow> bool" where
  "consumes Eps c \<longleftrightarrow> False"
| "consumes (Chr P) c \<longleftrightarrow> P c"
| "consumes (Seq a b) c \<longleftrightarrow> consumes a c \<or> consumes b c"
| "consumes (Rep greedy lo hi r) c \<longleftrightarrow> consumes r c"
| "consumes (Grp r) c \<longleftrightarrow> consumes r c"
| "consumes Bol c \<longleftrightarrow> False"
| "consumes Wordb c \<longleftrightarrow> False"
| "consumes (NotAfter x) c \<longleftrightarrow> False"

lemma powers_chars: "u \<in> powers L n \<Longrightarrow> c \<in> set u \<Longrightarrow> \<exists>v\<in>L. c \<in> set v"
  by (induction n arbitrary: u) auto

lemma lang_chars: "u \<in> lang r \<Longrightarrow> c \<in> set u \<Longrightarrow> consumes r c"
  by (induction r arbitrary: u) (fastforce dest!: powers_chars)+

text \<open>Every string of \<open>lang r\<close> has a character in \<open>Q\<close>; in particular it is not empty.\<close>

primrec needs :: "(nat \<Rightarrow> bool) \<Rightarrow> re \<Rightarrow> bool" where
  "needs Q Eps \<longleftrightarrow> False"
| "needs Q (Chr P) \<longleftrightarrow> (\<forall>c. P c \<longrightarrow> Q c)"
| "needs Q (Seq a b) \<longleftrightarrow> needs Q a \<or> needs Q b"
| "needs Q (Rep greedy lo hi r) \<longleftrightarrow> 0 < lo \<and> needs Q r"
| "needs Q (Grp r) \<longleftrightarrow> needs Q r"
| "needs Q Bol \<longleftrightarrow> False"
| "needs Q Wordb \<longleftrightarrow> False"
| "needs Q (NotAfter x) \<longleftrightarrow> False"

lemma powers_split: "u \<in> powers L n \<Longrightarrow> 0 < n \<Longrightarrow> \<exists>v w. u = v @ w \<and> v \<in> L"
  by (cases n) auto

lemma needs: "needs Q r \<Longrightarrow> u \<in> lang r \<Longrightarrow> \<exists>c\<in>set u. Q c"
proof (induction r arbitrary: u)
  case (Rep greedy lo hi r)
  then obtain n where "lo \<le> n" "u \<in> powers (lang r) n" by auto
  moreover have "0 < lo" using Rep.prems by simp
  ultimately obtain v w where "u = v @ w" "v \<in> lang r" using powers_split [of u "lang r" n] by auto
  with Rep show ?case by fastforce
qed fastforce+

lemma nonempty_lang: "needs (\<lambda>_. True) r \<Longrightarrow> [] \<notin> lang r"
  using needs by fastforce

lemma re_search_needs:
  assumes "needs Q r" "re_search r U s"
  shows "\<exists>c\<in>set s. Q c"
proof -
  obtain i where "i \<in> set [0..<Suc (length s)]" "first_match r U s i \<noteq> None"
    using assms(2) by (auto simp only: re_search_def list_ex_iff)
  then have i: "i \<le> length s" "matches r U s (i, []) \<noteq> []"
    by (auto simp: first_match_def)
  then obtain m ms where "matches r U s (i, []) = m # ms" by (meson neq_Nil_conv)
  moreover obtain e caps where "m = (e, caps)" by (cases m)
  ultimately have "(e, caps) \<in> set (matches r U s (i, []))" by simp
  then have "slice s i e \<in> lang r" using matches_sound i(1) by blast
  then obtain c where "c \<in> set (slice s i e)" "Q c" using needs [OF assms(1)] by blast
  then show ?thesis by (auto simp: slice_def dest: in_set_dropD in_set_takeD)
qed

end
