(* ===== verification/Pii.thy ===== *)
theory Pii
  imports Regex
begin

text \<open>
  \<open>pii.py\<close>: the four patterns in the order the module lists them, detection of the types present
  in a text, and redaction, one substitution after the other.
\<close>

definition digit :: "unicode \<Rightarrow> re" where
  "digit U = Chr (uc_decimal U)"

definition blank :: re where
  "blank = Chr is_space"

definition times_re :: "nat \<Rightarrow> re \<Rightarrow> re" where
  "times_re n r = Rep True n (Some n) r"

definition is_letter :: "nat \<Rightarrow> bool" where
  "is_letter c \<longleftrightarrow> (65 \<le> c \<and> c \<le> 90) \<or> (97 \<le> c \<and> c \<le> 122)"

definition is_ascii_digit :: "nat \<Rightarrow> bool" where
  "is_ascii_digit c \<longleftrightarrow> 48 \<le> c \<and> c \<le> 57"

definition EMAIL :: re where
  "EMAIL = seq_re
     [many1 (Chr (\<lambda>c. is_letter c \<or> is_ascii_digit c \<or> c \<in> set (ascii ''._%+-''))), lit ''@'',
      many1 (Chr (\<lambda>c. is_letter c \<or> is_ascii_digit c \<or> c \<in> set (ascii ''.-''))), lit ''.'',
      Rep True 2 None (Chr is_letter)]"

definition SSN :: "unicode \<Rightarrow> re" where
  "SSN U = seq_re [Wordb, times_re 3 (digit U), lit ''-'', times_re 2 (digit U), lit ''-'', times_re 4 (digit U), Wordb]"

definition CREDIT_CARD :: "unicode \<Rightarrow> re" where
  "CREDIT_CARD U = seq_re [Wordb, Rep True 13 (Some 16) (Seq (digit U) (maybe (any_of '' -''))), Wordb]"

definition PHONE :: "unicode \<Rightarrow> re" where
  "PHONE U =
     (let gap = Chr (\<lambda>c. c \<in> set (ascii ''-.'') \<or> is_space c)
      in seq_re [Wordb, times_re 3 (digit U), gap, times_re 3 (digit U), gap, times_re 4 (digit U), Wordb])"

text \<open>\<open>_PATTERNS\<close>, each with its name and the text of its marker, \<open>REDACTED-\<close> and the name in capitals.\<close>

definition PATTERNS :: "unicode \<Rightarrow> (pystr \<times> re \<times> pystr) list" where
  "PATTERNS U =
     [(ascii ''email'', EMAIL, ascii ''REDACTED-EMAIL''),
      (ascii ''ssn'', SSN U, ascii ''REDACTED-SSN''),
      (ascii ''credit_card'', CREDIT_CARD U, ascii ''REDACTED-CREDIT_CARD''),
      (ascii ''phone'', PHONE U, ascii ''REDACTED-PHONE'')]"

definition detect_types :: "unicode \<Rightarrow> pystr \<Rightarrow> pystr list" where
  "detect_types U s = sort (remdups (map fst (filter (\<lambda>(name, pat, mark). re_search pat U s) (PATTERNS U))))"

definition redact :: "unicode \<Rightarrow> pystr \<Rightarrow> pystr" where
  "redact U s = foldl (\<lambda>t (name, pat, mark). re_sub pat U (bracketed mark) t) s (PATTERNS U)"

text \<open>Tables that know ASCII only, and one invisible character; the witnesses are evaluated on them.\<close>

definition plain_tables :: unicode where
  "plain_tables = \<lparr>uc_digit = (\<lambda>c. if is_ascii_digit c then Some (c - 48) else None),
     uc_alnum = (\<lambda>c. is_letter c \<or> is_ascii_digit c), uc_format = (\<lambda>c. c = 8203), uc_casefold = (\<lambda>c. [c])\<rparr>"

section \<open>What redaction does\<close>

lemma detect_types_mem: "name \<in> set (detect_types U s) \<longleftrightarrow> (\<exists>pat mark. (name, pat, mark) \<in> set (PATTERNS U) \<and> re_search pat U s)"
  by (force simp: detect_types_def)

lemma email_word:
  assumes "u \<in> lang EMAIL"
  shows "91 \<notin> set u \<and> 93 \<notin> set u \<and> 64 \<in> set u"
proof (intro conjI)
  show "91 \<notin> set u" "93 \<notin> set u"
    using lang_chars [OF assms, of 91] lang_chars [OF assms, of 93]
    by (auto simp: EMAIL_def lit_def is_letter_def is_ascii_digit_def)
  show "64 \<in> set u" using assms by (auto simp: EMAIL_def lit_def)
qed

lemma email_plain: "plain EMAIL" "[] \<notin> lang EMAIL"
  using email_word [of "[]"] by (auto simp: EMAIL_def lit_def)

text \<open>Every pattern reads a decimal digit or an at sign.\<close>

lemma patterns_need: "\<forall>(name, pat, mark)\<in>set (PATTERNS U). needs (\<lambda>c. uc_decimal U c \<or> c = 64) pat"
  by (simp add: PATTERNS_def SSN_def CREDIT_CARD_def PHONE_def EMAIL_def lit_def times_re_def digit_def Let_def)

lemma nothing_detected:
  assumes "\<forall>c\<in>set s. \<not> uc_decimal U c \<and> c \<noteq> 64"
  shows "detect_types U s = []"
proof -
  have "\<not> re_search pat U s" if "(name, pat, mark) \<in> set (PATTERNS U)" for name pat mark
    using re_search_needs [of _ pat U s] patterns_need [of U] that assms by fastforce
  then show ?thesis by (auto simp: detect_types_def filter_empty_conv)
qed

lemma patterns_consume: "\<forall>(name, pat, mark)\<in>set (PATTERNS U). [] \<notin> lang pat"
proof -
  show ?thesis using patterns_need [of U] by (fastforce dest: needs)
qed

lemma redact_steps:
  assumes "\<forall>(name, pat, mark)\<in>set ps. [] \<notin> lang pat \<and> 64 \<notin> set mark"
    and "\<not> occurs_in (lang EMAIL) s"
  shows "\<not> occurs_in (lang EMAIL) (foldl (\<lambda>t (name, pat, mark). re_sub pat U (bracketed mark) t) s ps)"
  using assms
proof (induction ps arbitrary: s)
  case (Cons p ps)
  obtain name pat mark where p: "p = (name, pat, mark)" by (cases p)
  have "foreign mark u" if "u \<in> lang EMAIL" for u
    using email_word [OF that] Cons.prems(1) p unfolding foreign_def by (intro conjI bexI [of _ 64]) auto
  then have "\<not> occurs_in (lang EMAIL) (re_sub pat U (bracketed mark) s)"
    using Cons.prems p by (intro re_sub_keeps_out) auto
  with Cons.IH Cons.prems(1) p show ?case by simp
qed simp

lemma redact_no_email: "\<not> occurs_in (lang EMAIL) (redact U s)"
proof -
  let ?mark = "ascii ''REDACTED-EMAIL''"
  have "foreign ?mark u" if "u \<in> lang EMAIL" for u
    using email_word [OF that] unfolding foreign_def by (intro conjI bexI [of _ 64]) auto
  then have first: "\<not> occurs_in (lang EMAIL) (re_sub EMAIL U (bracketed ?mark) s)"
    using email_plain by (intro re_sub_removes) auto
  obtain ps where ps: "PATTERNS U = (ascii ''email'', EMAIL, ?mark) # ps"
    and "\<forall>(name, pat, mark)\<in>set ps. 64 \<notin> set mark" by (simp add: PATTERNS_def)
  with patterns_consume [of U] have "\<forall>(name, pat, mark)\<in>set ps. [] \<notin> lang pat \<and> 64 \<notin> set mark" by auto
  from redact_steps [OF this first, of U] show ?thesis unfolding redact_def ps foldl_Cons prod.case .
qed

lemma redact_same:
  assumes "\<forall>(name, pat, mark)\<in>set ps. \<not> re_search pat U s"
  shows "foldl (\<lambda>t (name, pat, mark). re_sub pat U (bracketed mark) t) s ps = s"
  using assms
proof (induction ps)
  case (Cons p ps)
  then show ?case by (cases p) (auto simp: re_sub_same)
qed simp

text \<open>
  C14.  A redacted text holds no e-mail address: neither the substitution for addresses nor the
  ones that follow it leave or make one.  A text in which nothing is detected is stored as it is.
\<close>

theorem redaction_is_complete_for_email:
  "ascii ''email'' \<notin> set (detect_types U (redact U s)) \<and> (detect_types U s = [] \<longrightarrow> redact U s = s)"
proof (intro conjI impI)
  have "\<not> re_search EMAIL U (redact U s)"
    using redact_no_email re_search_occurs [OF email_plain(1)] by simp
  then show "ascii ''email'' \<notin> set (detect_types U (redact U s))"
    by (auto simp: detect_types_mem PATTERNS_def)
next
  assume "detect_types U s = []"
  then have "\<forall>(name, pat, mark)\<in>set (PATTERNS U). \<not> re_search pat U s"
    using detect_types_mem [of _ U s] by fastforce
  then show "redact U s = s" unfolding redact_def by (rule redact_same)
qed

theorem redaction_is_complete_for_email_witness:
  "redact plain_tables (ascii ''call us'') = ascii ''call us''"
proof -
  have "detect_types plain_tables (ascii ''call us'') = []"
    by (rule nothing_detected) (simp add: plain_tables_def uc_decimal_def is_ascii_digit_def)
  with redaction_is_complete_for_email [of plain_tables "ascii ''call us''"] show ?thesis by blast
qed

end
