(* ===== verification/Normalize.thy ===== *)
theory Normalize
  imports Regex "HOL-Library.Product_Lexorder"
begin

text \<open>
  \<open>normalize.py\<close>: the lookalike table, the fold with its map back to the original, and the
  replacement of spans found in the folded text.  The category \<open>Cf\<close> of \<open>unicodedata\<close> is
  \<open>uc_format\<close> of the Unicode tables.
\<close>

text \<open>\<open>_LOOKALIKES\<close>: Cyrillic, Greek, punctuation and curly quotes, then the two fullwidth ranges.\<close>

definition LOOKALIKES :: "(nat \<times> nat) list" where
  "LOOKALIKES =
     [(1040, 65), (1042, 66), (1045, 69), (1050, 75), (1052, 77), (1053, 72), (1054, 79), (1056, 80),
      (1057, 67), (1058, 84), (1059, 89), (1061, 88), (1029, 83), (1030, 73), (1032, 74), (1072, 97),
      (1074, 98), (1077, 101), (1082, 107), (1084, 109), (1085, 104), (1086, 111), (1088, 112),
      (1089, 99), (1090, 116), (1091, 121), (1093, 120), (1109, 115), (1110, 105), (1112, 106),
      (1281, 100), (609, 103), (8572, 108), (1400, 110), (1405, 117),
      (913, 65), (914, 66), (917, 69), (918, 90), (919, 72), (921, 73), (922, 75), (924, 77), (925, 78),
      (927, 79), (929, 80), (932, 84), (933, 89), (935, 88), (959, 111), (957, 118), (945, 97),
      (961, 112), (964, 116), (965, 117), (967, 120)]
     @ map (\<lambda>i. (65313 + i, 65 + i)) [0..<26] @ map (\<lambda>i. (65345 + i, 97 + i)) [0..<26]
     @ [(65308, 60), (65310, 62), (65295, 47), (65343, 95), (65293, 45), (8208, 45), (8209, 45),
        (8211, 45), (8212, 45), (65112, 45),
        (8220, 34), (8221, 34), (8222, 34), (8243, 34), (8216, 39), (8217, 39), (8218, 39)]"

definition lookalike :: "nat \<Rightarrow> nat" where
  "lookalike ch = (case map_of LOOKALIKES ch of None \<Rightarrow> ch | Some c \<Rightarrow> c)"

definition is_invisible :: "unicode \<Rightarrow> nat \<Rightarrow> bool" where
  "is_invisible U ch \<longleftrightarrow> ch \<in> {173, 8203, 8288, 65279} \<or> uc_format U ch"

fun fold_from :: "unicode \<Rightarrow> nat \<Rightarrow> pystr \<Rightarrow> pystr \<times> nat list" where
  "fold_from U i [] = ([], [])"
| "fold_from U i (ch # cs) =
     (if is_invisible U ch then fold_from U (Suc i) cs
      else (let (out, origin) = fold_from U (Suc i) cs in (lookalike ch # out, i # origin)))"

definition fold_text :: "unicode \<Rightarrow> pystr \<Rightarrow> pystr \<times> nat list" where
  "fold_text U s = fold_from U 0 s"

text \<open>
  \<open>original_span\<close> is only called with the bounds of a match in the folded text; the source's
  branch for \<open>start\<close> past the end, where the map is shorter than the text, is kept.
\<close>

definition original_span :: "nat list \<Rightarrow> nat \<Rightarrow> nat \<Rightarrow> nat \<Rightarrow> nat \<times> nat" where
  "original_span origin start stop len =
     (if length origin \<le> start then (len, len)
      else (origin ! start, Suc (if 0 < stop \<and> stop \<le> length origin then origin ! (stop - 1) else origin ! (length origin - 1))))"

definition replace_folded :: "pystr \<Rightarrow> (nat \<times> nat) list \<Rightarrow> pystr \<Rightarrow> pystr" where
  "replace_folded s ss marker = foldl (\<lambda>t (a, b). take a t @ marker @ drop b t) s (rev (sort ss))"

section \<open>The offset map is exact\<close>

abbreviation visible :: "unicode \<Rightarrow> nat \<Rightarrow> bool" where
  "visible U c \<equiv> \<not> is_invisible U c"

lemma fold_from_fst: "fst (fold_from U i s) = map lookalike (filter (visible U) s)"
  by (induction s arbitrary: i) (auto simp: case_prod_beta)

lemma fold_from_length: "length (snd (fold_from U i s)) = length (filter (visible U) s)"
  by (induction s arbitrary: i) (auto simp: case_prod_beta)

lemma fold_text_fst: "fst (fold_text U s) = map lookalike (filter (visible U) s)"
  by (simp add: fold_text_def fold_from_fst)

lemma fold_from_nth:
  "k < length (filter (visible U) s) \<Longrightarrow>
     \<exists>j. snd (fold_from U i s) ! k = i + j \<and> j < length s \<and> visible U (s ! j)
       \<and> filter (visible U) (take j s) = take k (filter (visible U) s)"
proof (induction s arbitrary: i k)
  case (Cons c s)
  show ?case
  proof (cases "is_invisible U c")
    case True
    with Cons.prems Cons.IH [of k "Suc i"] obtain j where
      "snd (fold_from U (Suc i) s) ! k = Suc i + j" "j < length s" "visible U (s ! j)"
      "filter (visible U) (take j s) = take k (filter (visible U) s)" by auto
    with True show ?thesis by (intro exI [of _ "Suc j"]) simp
  next
    case False
    show ?thesis
    proof (cases k)
      case 0
      with False show ?thesis by (intro exI [of _ 0]) (simp add: case_prod_beta)
    next
      case (Suc n)
      with Cons.prems False Cons.IH [of n "Suc i"] obtain j where
        "snd (fold_from U (Suc i) s) ! n = Suc i + j" "j < length s" "visible U (s ! j)"
        "filter (visible U) (take j s) = take n (filter (visible U) s)" by auto
      with False Suc show ?thesis by (intro exI [of _ "Suc j"]) (simp add: case_prod_beta)
    qed
  qed
qed simp

lemma fold_text_append: "fst (fold_text U (s @ t)) = fst (fold_text U s) @ fst (fold_text U t)"
  by (simp add: fold_text_fst)

lemma fold_text_nth:
  assumes "k < length (fst (fold_text U s))"
  shows "snd (fold_text U s) ! k < length s" "visible U (s ! (snd (fold_text U s) ! k))"
    "fst (fold_text U (take (snd (fold_text U s) ! k) s)) = take k (fst (fold_text U s))"
    "fst (fold_text U (take (Suc (snd (fold_text U s) ! k)) s)) = take (Suc k) (fst (fold_text U s))"
proof -
  let ?j = "snd (fold_text U s) ! k" and ?v = "filter (visible U)"
  have k: "k < length (?v s)" using assms by (simp add: fold_text_fst)
  from fold_from_nth [OF this, of 0] have j: "?j < length s" "visible U (s ! ?j)" "?v (take ?j s) = take k (?v s)"
    by (auto simp: fold_text_def)
  then show "?j < length s" "visible U (s ! ?j)" "fst (fold_text U (take ?j s)) = take k (fst (fold_text U s))"
    by (simp_all add: fold_text_fst take_map)
  have "?v s = ?v (take ?j s) @ s ! ?j # ?v (drop (Suc ?j) s)"
    using j(1,2) by (metis filter.simps(2) filter_append id_take_nth_drop)
  moreover have "?v (take (Suc ?j) s) = ?v (take ?j s) @ [s ! ?j]"
    using j(1,2) by (simp add: take_Suc_conv_app_nth)
  moreover have "length (take k (?v s)) = k" using k by simp
  ultimately have "?v (take (Suc ?j) s) = take k (?v s) @ [?v s ! k]"
    unfolding j(3) by (metis nth_append_length)
  then have "?v (take (Suc ?j) s) = take (Suc k) (?v s)" using k by (simp add: take_Suc_conv_app_nth)
  then show "fst (fold_text U (take (Suc ?j) s)) = take (Suc k) (fst (fold_text U s))"
    by (simp add: fold_text_fst take_map)
qed

text \<open>\<open>aligned\<close>: a position of the folded text and one of the original with the same text before them.\<close>

definition aligned :: "unicode \<Rightarrow> pystr \<Rightarrow> nat \<Rightarrow> nat \<Rightarrow> bool" where
  "aligned U s i x \<longleftrightarrow> x \<le> length s \<and> i \<le> length (fst (fold_text U s))
     \<and> fst (fold_text U (take x s)) = take i (fst (fold_text U s))"

lemma aligned_0: "aligned U s 0 0"
  by (simp add: aligned_def fold_text_fst)

lemma aligned_mono:
  assumes "aligned U s i x" "aligned U s j y" "i < j"
  shows "x < y"
proof (rule ccontr)
  assume "\<not> x < y"
  then have "take x s = take y s @ slice s y x"
    using slice_append [of 0 y x s] by (simp add: slice_def)
  then have "length (fst (fold_text U (take y s))) \<le> length (fst (fold_text U (take x s)))"
    by (simp add: fold_text_append)
  with assms show False by (simp add: aligned_def)
qed

lemma aligned_slice:
  assumes "aligned U s i x" "aligned U s j y" "x \<le> y"
  shows "fst (fold_text U (slice s x y)) = slice (fst (fold_text U s)) i j"
proof -
  have "take y s = take x s @ slice s x y" using slice_append [of 0 x y s] assms(3) by (simp add: slice_def)
  then have split: "take j (fst (fold_text U s)) = take i (fst (fold_text U s)) @ fst (fold_text U (slice s x y))"
    using assms(1,2) by (simp add: aligned_def fold_text_append)
  have "length (take i (fst (fold_text U s))) = i" using assms(1) by (simp add: aligned_def)
  then show ?thesis unfolding slice_def split by simp
qed

lemma aligned_drop: "aligned U s i x \<Longrightarrow> fst (fold_text U (drop x s)) = drop i (fst (fold_text U s))"
  using aligned_slice [of U s i x "length (fst (fold_text U s))" "length s"]
  by (simp add: aligned_def slice_all)

lemma original_span_match:
  assumes "a < b" "b \<le> length (fst (fold_text U s))" "original_span (snd (fold_text U s)) a b (length s) = (x, y)"
  shows "aligned U s a x" "aligned U s (Suc a) (Suc x)" "aligned U s b y" "x < y"
proof -
  let ?o = "snd (fold_text U s)"
  have len: "length ?o = length (fst (fold_text U s))"
    by (simp add: fold_text_fst) (simp add: fold_text_def fold_from_length)
  have x: "x = ?o ! a" and y: "y = Suc (?o ! (b - 1))"
    using assms by (auto simp: original_span_def len)
  have a: "a < length (fst (fold_text U s))" and b: "b - 1 < length (fst (fold_text U s))" using assms(1,2) by simp_all
  show ax: "aligned U s a x" using fold_text_nth(1,3) [OF a] a by (simp add: aligned_def x)
  show "aligned U s (Suc a) (Suc x)" using fold_text_nth(1,4) [OF a] a by (simp add: aligned_def x)
  show bY: "aligned U s b y" using fold_text_nth(1,4) [OF b] assms(1,2) by (simp add: aligned_def y Suc_le_eq)
  show "x < y" using aligned_mono [OF ax bY assms(1)] .
qed

section \<open>Replacement keeps the rest of the document\<close>

lemma spans_ok_sorted: "spans_ok n i ss \<Longrightarrow> sorted ss"
proof (induction ss arbitrary: i)
  case (Cons ab ss)
  obtain a b where ab: "ab = (a, b)" by (cases ab)
  have "\<forall>(x, y)\<in>set ss. b \<le> x" using Cons.prems spans_ok_ge [of n b ss] by (auto simp: ab)
  with Cons ab show ?case by (auto simp: less_eq_prod_def)
qed simp

text \<open>
  Replacing from right to left, as the code does to keep the earlier indices valid, is the
  left-to-right substitution of the spans.
\<close>

lemma replace_folded_subst:
  assumes "spans_ok (length s) 0 ss"
  shows "replace_folded s ss marker = subst_from marker 0 s ss"
proof -
  have right: "foldr (\<lambda>(a, b) t. take a t @ marker @ drop b t) ss s = take i s @ subst_from marker i s ss"
    if "spans_ok (length s) i ss" "i \<le> length s" for i
    using that
  proof (induction ss arbitrary: i)
    case (Cons ab ss)
    obtain a b where ab: "ab = (a, b)" by (cases ab)
    with Cons.prems have ok: "i \<le> a" "a < b" "b \<le> length s" "spans_ok (length s) b ss" by auto
    have "take a s = take i s @ slice s i a" using slice_append [of 0 i a s] ok(1) by (simp add: slice_def)
    with Cons.IH [OF ok(4,3)] ok show ?case by (simp add: ab min_def)
  qed simp
  have "sort ss = ss" using spans_ok_sorted [OF assms] by (simp add: sorted_sort_id)
  then show ?thesis
    using right [OF assms] by (simp add: replace_folded_def foldl_conv_foldr case_prod_beta')
qed


text \<open>
  Read through the fold, replacing the originals of folded spans is substituting the spans
  themselves, for a marker that folds to itself.
\<close>

definition original_spans :: "unicode \<Rightarrow> pystr \<Rightarrow> (nat \<times> nat) list \<Rightarrow> (nat \<times> nat) list" where
  "original_spans U s ss = map (\<lambda>(a, b). original_span (snd (fold_text U s)) a b (length s)) ss"

lemma original_spans_ok:
  assumes "spans_ok (length (fst (fold_text U s))) i ss" "aligned U s i x0"
  shows "spans_ok (length s) x0 (original_spans U s ss)"
    and "fst (fold_text U (subst_from m x0 s (original_spans U s ss)))
           = subst_from (fst (fold_text U m)) i (fst (fold_text U s)) ss"
  using assms
proof (induction ss arbitrary: i x0)
  case Nil
  {
    case 1
    show ?case by (simp add: original_spans_def)
  next
    case 2
    then show ?case by (simp add: original_spans_def aligned_drop)
  }
next
  case (Cons ab ss)
  obtain a b where ab: "ab = (a, b)" by (cases ab)
  obtain x y where xy: "original_span (snd (fold_text U s)) a b (length s) = (x, y)" by fastforce
  have step: "x0 \<le> x \<and> aligned U s a x \<and> aligned U s b y \<and> x < y
      \<and> spans_ok (length (fst (fold_text U s))) b ss"
    if prems: "spans_ok (length (fst (fold_text U s))) i (ab # ss)" "aligned U s i x0" for i x0
  proof -
    from prems have ok: "i \<le> a" "a < b" "b \<le> length (fst (fold_text U s))" "spans_ok (length (fst (fold_text U s))) b ss"
      using ab by auto
    note at = original_span_match [OF ok(2,3) xy]
    have "x0 < Suc x" using aligned_mono [OF prems(2) at(2)] ok(1) by simp
    with at ok(4) show ?thesis by simp
  qed
  have head: "original_spans U s (ab # ss) = (x, y) # original_spans U s ss" by (simp add: original_spans_def ab xy)
  {
    case 1
    from step [OF 1] Cons.IH(1) [of b y] show ?case by (simp add: head aligned_def)
  next
    case 2
    from step [OF 2] have at: "x0 \<le> x" "aligned U s a x" "aligned U s b y" "spans_ok (length (fst (fold_text U s))) b ss" by blast+
    show ?case
      unfolding head using Cons.IH(2) [OF at(4,3)] aligned_slice [OF 2(2) at(2,1)]
      by (simp add: ab fold_text_append)
  }
qed

lemma fold_replace:
  assumes "spans_ok (length (fst (fold_text U s))) 0 ss" "fst (fold_text U m) = m"
  shows "fst (fold_text U (replace_folded s (original_spans U s ss) m)) = subst_from m 0 (fst (fold_text U s)) ss"
  using original_spans_ok(1) [OF assms(1) aligned_0] original_spans_ok(2) [OF assms(1) aligned_0, of m] replace_folded_subst [of s "original_spans U s ss" m] assms(2)
  by simp

end
