(* ===== verification/OutputChecks.thy ===== *)
theory OutputChecks
  imports Providers
begin

text \<open>
  \<open>outputchecks.py\<close>: the checks on a finished answer, each on its folded text.  A finding is its
  code and its detail.
\<close>

type_synonym finding = "pystr \<times> pystr"

definition label_re :: "unicode \<Rightarrow> re" where
  "label_re U = seq_re [lit ''['', many blank, Grp (Rep True 1 (Some 3) (digit U)), many blank, lit '']'']"

definition not_quote :: re where
  "not_quote = Chr (\<lambda>c. c \<noteq> 34)"

definition CITED_QUOTE :: "unicode \<Rightarrow> re" where
  "CITED_QUOTE U = seq_re
     [label_re U, Rep False 0 (Some 40) not_quote, Chr (\<lambda>c. c = 34), Grp (Rep False 1 (Some 300) not_quote), Chr (\<lambda>c. c = 34)]"

definition url_re :: re where
  "url_re = seq_re [lit ''['', many (none_of '']''), lit '']('', many blank, Grp (many1 (Chr (\<lambda>c. c \<noteq> 41 \<and> \<not> is_space c)))]"

definition MD_IMAGE :: re where
  "MD_IMAGE = Seq (lit ''!'') url_re"

definition MD_LINK :: re where
  "MD_LINK = Seq (NotAfter 33) url_re"

definition group_text :: "pystr \<Rightarrow> nat \<Rightarrow> nat \<times> nat \<times> (nat \<times> nat) list \<Rightarrow> pystr" where
  "group_text s g m = (let (a, b, caps) = m; (x, y) = caps ! (g - 1) in slice s x y)"

text \<open>\<open>int()\<close> of a string of decimal digits.\<close>

definition int_of_digits :: "unicode \<Rightarrow> pystr \<Rightarrow> nat" where
  "int_of_digits U s = foldl (\<lambda>n c. 10 * n + (case uc_digit U c of None \<Rightarrow> 0 | Some d \<Rightarrow> d)) 0 s"

definition cited_numbers :: "unicode \<Rightarrow> pystr \<Rightarrow> nat list" where
  "cited_numbers U s = map (\<lambda>m. int_of_digits U (group_text s 1 m)) (finditer (label_re U) U s)"

definition comparable :: "unicode \<Rightarrow> pystr \<Rightarrow> pystr" where
  "comparable U s =
     concat (map (uc_casefold U) (join_text (ascii '' '') (split_words (fst (fold_text U s)))))"

definition cited_quotes :: "unicode \<Rightarrow> pystr \<Rightarrow> (nat \<times> pystr) list" where
  "cited_quotes U s = map (\<lambda>m. (int_of_digits U (group_text s 1 m), group_text s 2 m)) (finditer (CITED_QUOTE U) U s)"

definition bracket_list :: "nat list \<Rightarrow> pystr" where
  "bracket_list ns = join_text (ascii '', '') (map (\<lambda>n. ascii ''['' @ dec_digits n @ ascii '']'') ns)"

definition sorted_set :: "'a::linorder list \<Rightarrow> 'a list" where
  "sorted_set xs = sort (remdups xs)"

definition flag :: "bool \<Rightarrow> pystr \<Rightarrow> pystr \<Rightarrow> finding list" where
  "flag b code detail = (if b then [(code, detail)] else [])"

definition check_answer :: "unicode \<Rightarrow> pystr \<Rightarrow> passage list \<Rightarrow> finding list" where
  "check_answer U answer contexts =
     (let folded = fst (fold_text U answer);
          allowed = (\<lambda>n. 1 \<le> n \<and> n \<le> length contexts);
          bad = sorted_set (filter (\<lambda>n. \<not> allowed n) (cited_numbers U folded));
          passages = map (\<lambda>(path, s). comparable U s) contexts;
          quotes = cited_quotes U folded;
          quoted = map fst quotes;
          unsupported = map (\<lambda>(n, q). ascii ''['' @ dec_digits n @ ascii '']'')
            (filter (\<lambda>(n, q). allowed n \<and> \<not> contains (comparable U q) (passages ! (n - 1))) quotes);
          unquoted = sorted_set (filter (\<lambda>n. allowed n \<and> n \<notin> set quoted) (cited_numbers U folded));
          urls = map (group_text folded 1) (finditer MD_IMAGE U folded);
          links = map (group_text folded 1) (finditer MD_LINK U folded)
      in flag (bad \<noteq> []) (ascii ''citation_out_of_range'')
           (ascii ''cited '' @ bracket_list bad @ ascii '' with '' @ dec_digits (length contexts) @ ascii '' passage(s) retrieved'')
       @ flag (unsupported \<noteq> []) (ascii ''citation_unsupported'')
           (ascii ''quoted text not found in the cited passage: '' @ join_text (ascii '', '') (sorted_set unsupported))
       @ flag (unquoted \<noteq> []) (ascii ''citation_unquoted'')
           (ascii ''cited without an evidence span: '' @ bracket_list unquoted)
       @ flag (marker_shaped U folded) (ascii ''fence_echoed'') (ascii ''the answer reproduced an untrusted-content marker'')
       @ flag (contains SYSTEM_CANARY folded) (ascii ''system_prompt_echoed'') (ascii ''the answer repeated part of the system prompt'')
       @ flag (urls \<noteq> []) (ascii ''markdown_image'')
           (ascii ''answer embedded '' @ dec_digits (length urls) @ ascii '' image URL(s): '' @ urls ! 0)
       @ flag (links \<noteq> []) (ascii ''markdown_link'')
           (ascii ''answer embedded '' @ dec_digits (length links) @ ascii '' link URL(s): '' @ links ! 0))"

section \<open>What a clean bill means\<close>

lemma flag_Nil [simp]: "flag b code detail = [] \<longleftrightarrow> \<not> b"
  by (simp add: flag_def)

lemma sorted_set_Nil [simp]: "sorted_set xs = [] \<longleftrightarrow> xs = []"
  by (simp add: sorted_set_def)

text \<open>
  C17.  An answer with no finding cites only passages that were retrieved, quotes every passage it
  cites, and each of those quotes is in the passage it cites, up to folding, case and line
  breaks; it repeats neither a fence marker nor the system prompt, and embeds no image or link.
\<close>

theorem clean_answer_is_grounded:
  assumes "check_answer U answer contexts = []"
  shows "(\<forall>n\<in>set (cited_numbers U (fst (fold_text U answer))). 1 \<le> n \<and> n \<le> length contexts
            \<and> (\<exists>q. (n, q) \<in> set (cited_quotes U (fst (fold_text U answer)))))
    \<and> (\<forall>(n, q)\<in>set (cited_quotes U (fst (fold_text U answer))). 1 \<le> n \<and> n \<le> length contexts \<longrightarrow>
         contains (comparable U q) (comparable U (snd (contexts ! (n - 1)))))
    \<and> \<not> marker_shaped U (fst (fold_text U answer)) \<and> \<not> contains SYSTEM_CANARY (fst (fold_text U answer))
    \<and> finditer MD_IMAGE U (fst (fold_text U answer)) = [] \<and> finditer MD_LINK U (fst (fold_text U answer)) = []"
proof -
  let ?s = "fst (fold_text U answer)"
  let ?ok = "\<lambda>n. 1 \<le> n \<and> n \<le> length contexts"
  have parts: "filter (\<lambda>n. \<not> ?ok n) (cited_numbers U ?s) = []"
    "filter (\<lambda>(n, q). ?ok n \<and> \<not> contains (comparable U q) (map (\<lambda>(path, s). comparable U s) contexts ! (n - 1))) (cited_quotes U ?s) = []"
    "filter (\<lambda>n. ?ok n \<and> n \<notin> set (map fst (cited_quotes U ?s))) (cited_numbers U ?s) = []"
    "\<not> marker_shaped U ?s" "\<not> contains SYSTEM_CANARY ?s" "finditer MD_IMAGE U ?s = []" "finditer MD_LINK U ?s = []"
    using assms unfolding check_answer_def Let_def append_is_Nil_conv flag_Nil sorted_set_Nil map_is_Nil_conv not_not
    by blast+
  have "?ok n" if "n \<in> set (cited_numbers U ?s)" for n
    using that parts(1) by (auto simp: filter_empty_conv)
  moreover from this have "\<exists>q. (n, q) \<in> set (cited_quotes U ?s)" if "n \<in> set (cited_numbers U ?s)" for n
    using that parts(3) by (fastforce simp: filter_empty_conv)
  moreover have "contains (comparable U q) (comparable U (snd (contexts ! (n - 1))))"
    if "(n, q) \<in> set (cited_quotes U ?s)" "1 \<le> n" "n \<le> length contexts" for n q
  proof -
    have "map (\<lambda>(path, s). comparable U s) contexts ! (n - 1) = comparable U (snd (contexts ! (n - 1)))"
      using that by (simp add: case_prod_beta)
    moreover have "contains (comparable U q) (map (\<lambda>(path, s). comparable U s) contexts ! (n - 1))"
      using parts(2) that by (fastforce simp: filter_empty_conv)
    ultimately show ?thesis by simp
  qed
  ultimately show ?thesis using parts(4-7) by blast
qed

text \<open>An answer that cites the one passage it was given, with a quote from it.\<close>

abbreviation "quoting \<equiv> ascii ''[1] \"B\"''"
abbreviation "ask_b \<equiv> ascii ''Ask B''"

lemma quoting_folded: "fst (fold_text plain_tables quoting) = quoting"
  by (rule fold_ascii [OF plain_tables_ok]) simp

lemma quoting_plain: "\<not> marker_shaped plain_tables quoting" "\<not> contains SYSTEM_CANARY quoting"
  by code_simp+

lemma quoting_urls: "finditer MD_IMAGE plain_tables quoting = []" "finditer MD_LINK plain_tables quoting = []"
  by (simp_all add: scan MD_IMAGE_def MD_LINK_def url_re_def none_of_def)

lemma quoting_labels: "finditer (label_re plain_tables) plain_tables quoting = [(0, 3, [(1, 2)])]"
    "finditer (CITED_QUOTE plain_tables) plain_tables quoting = [(0, 7, [(1, 2), (5, 6)])]"
  by (simp_all add: scan label_re_def blank_def digit_def uc_decimal_def plain_tables_def
    is_ascii_digit_def is_space_def CITED_QUOTE_def not_quote_def)

lemma words_folded: "\<forall>c\<in>set s. c < 128 \<Longrightarrow>
    comparable plain_tables s = join_text (ascii '' '') (split_words s)"
  using fold_ascii [OF plain_tables_ok, of s] by (simp add: comparable_def plain_tables_def)

lemma quoting_words: "comparable plain_tables ask_b = ask_b" "comparable plain_tables (ascii ''B'') = ascii ''B''"
  by (simp_all add: words_folded split_words.simps is_space_def Let_def)

lemmas quoting_eval = quoting_folded quoting_plain quoting_urls quoting_labels quoting_words

lemma quoting_quotes:
  "cited_numbers plain_tables quoting = [1]" "cited_quotes plain_tables quoting = [(1, ascii ''B'')]"
  unfolding cited_numbers_def cited_quotes_def quoting_eval
  by (simp_all add: group_text_def slice_def int_of_digits_def plain_tables_def is_ascii_digit_def)

lemma quoting_clean: "check_answer plain_tables quoting [(ascii ''a'', ask_b)] = []"
proof -
  have "contains (ascii ''B'') ask_b" by (simp add: contains_def)
  then show ?thesis
    unfolding check_answer_def Let_def append_is_Nil_conv flag_Nil sorted_set_Nil map_is_Nil_conv not_not quoting_eval quoting_quotes
    using quoting_plain by (simp add: quoting_words [simplified])
qed

theorem clean_answer_is_grounded_witness:
  "contains (ascii ''B'') ask_b \<and> \<not> contains SYSTEM_CANARY quoting"
  using clean_answer_is_grounded [OF quoting_clean, unfolded quoting_eval quoting_quotes] by (simp add: quoting_words [simplified])

end
