(* ===== verification/Api.thy ===== *)
theory Api
  imports Ledger OutputChecks
begin

text \<open>
  The state-changing routes of \<open>main.py\<close>: each composes data-layer operations, one transaction
  after the other, with the best-effort audit write last.  A route returns its result and the
  state it leaves, because a failure between two transactions keeps the first.  The
  environment record \<open>env\<close> gathers the code outside the repository and the settings.
\<close>

record env =
  e_uuid :: "pystr \<Rightarrow> pystr option"
  e_lower :: "pystr \<Rightarrow> pystr"
  e_pw_hash :: "pystr \<Rightarrow> pystr"
  e_verify :: "pystr \<Rightarrow> pystr \<Rightarrow> bool"
  e_hash_token :: "pystr \<Rightarrow> pystr"
  e_hash :: "pystr \<Rightarrow> pystr"
  e_unicode :: unicode
  e_embed :: "pystr list \<Rightarrow> exc + real list list"
  e_show_exc :: "exc \<Rightarrow> pystr"
  e_session_ttl_hours :: int
  e_job_max_attempts :: int
  e_job_stale_after_seconds :: int
  e_chunk_size :: int
  e_chunk_overlap :: int
  e_org_storage_bytes_cap :: nat
  e_org_doc_cap :: nat
  e_embed_query :: "pystr \<Rightarrow> exc + real list"
  e_cosine :: "real list \<Rightarrow> real list \<Rightarrow> real"
  e_anthropic :: "client option"
  e_answer_model :: pystr
  e_round6 :: "real \<Rightarrow> real"
  e_day_of :: "time \<Rightarrow> int"
  e_month_start :: "time \<Rightarrow> time"
  e_daily_budget_usd :: real
  e_monthly_question_cap :: int
  e_platform_daily_budget_usd :: real
  e_retrieval_k :: nat
  e_coll :: "pystr \<Rightarrow> pystr"
  e_rate_burst :: int
  e_rate_per_min :: int
  e_auth_rate_burst :: int
  e_auth_rate_per_min :: int
  e_client_ip_header :: "pystr option"

section \<open>Routes\<close>

definition call :: "exc + ('a \<times> db) \<Rightarrow> db \<Rightarrow> ('a \<Rightarrow> db \<Rightarrow> (exc + 'b) \<times> db) \<Rightarrow> (exc + 'b) \<times> db" where
  "call m s f = (case m of Inl e \<Rightarrow> (Inl e, s) | Inr (x, s') \<Rightarrow> f x s')"

definition no_result :: "exc + db \<Rightarrow> exc + (unit \<times> db)" where
  "no_result m = (case m of Inl e \<Rightarrow> Inl e | Inr s' \<Rightarrow> Inr ((), s'))"

definition log_event :: "env \<Rightarrow> auth_context \<Rightarrow> pystr \<Rightarrow> (pystr \<times> json) list \<Rightarrow> time \<Rightarrow> db \<Rightarrow> db" where
  "log_event E ctx action detail now s =
     audit (redact (e_unicode E)) (ctx_org ctx) (Some (ctx_user ctx)) action (Some detail) now s"

type_synonym token_response = "pystr \<times> pystr \<times> pystr"

definition start_session ::
  "env \<Rightarrow> auth_context \<Rightarrow> pystr \<Rightarrow> (pystr \<times> json) list \<Rightarrow> pystr \<Rightarrow> time \<Rightarrow> db \<Rightarrow> (exc + token_response) \<times> db" where
  "start_session E ctx action detail raw now s =
     call (create_session (e_hash_token E) (e_session_ttl_hours E) ctx raw now s) s (\<lambda>token s'.
       (Inr (token, ctx_org ctx, ctx_role ctx), log_event E ctx action detail now s'))"

definition signup ::
  "env \<Rightarrow> pystr \<Rightarrow> pystr \<Rightarrow> pystr \<Rightarrow> pystr \<Rightarrow> pystr \<Rightarrow> pystr \<Rightarrow> pystr \<Rightarrow> time \<Rightarrow> db
     \<Rightarrow> (exc + token_response) \<times> db" where
  "signup E slug name email password fresh_org fresh_user raw now s =
     call (create_org_with_owner (e_lower E) (e_pw_hash E) slug name email password fresh_org fresh_user now s) s
       (\<lambda>ctx s'. start_session E ctx (ascii ''org.created'') [(ascii ''slug'', JStr slug)] raw now s')"

definition login ::
  "env \<Rightarrow> pystr \<Rightarrow> pystr \<Rightarrow> pystr option \<Rightarrow> pystr \<Rightarrow> time \<Rightarrow> db \<Rightarrow> (exc + token_response) \<times> db" where
  "login E email password org_slug raw now s =
     (case authenticate (e_lower E) (e_verify E) email password org_slug s of
        Inl e \<Rightarrow> (Inl e, s)
      | Inr ctx \<Rightarrow> start_session E ctx (ascii ''user.login'') [] raw now s)"

definition change_password_route ::
  "env \<Rightarrow> auth_context \<Rightarrow> pystr \<Rightarrow> pystr \<Rightarrow> pystr \<Rightarrow> time \<Rightarrow> db \<Rightarrow> (exc + unit) \<times> db" where
  "change_password_route E ctx current_password new_password raw now s =
     (if new_password = current_password then (Inl (DomainError (ascii ''new password must differ'')), s)
      else
        call (change_password (e_pw_hash E) (e_verify E) (ctx_user ctx) current_password new_password
                (e_hash_token E raw) s) s (\<lambda>revoked s'.
          (Inr (), log_event E ctx (ascii ''user.password_changed'')
             [(ascii ''sessions_revoked'', JInt (int revoked))] now s')))"

definition add_member_route ::
  "env \<Rightarrow> auth_context \<Rightarrow> pystr \<Rightarrow> pystr \<Rightarrow> pystr \<Rightarrow> pystr \<Rightarrow> time \<Rightarrow> db \<Rightarrow> (exc + pystr) \<times> db" where
  "add_member_route E ctx email password role fresh_user now s =
     (case require_can_grant ctx role of
        Inl e \<Rightarrow> (Inl e, s)
      | Inr _ \<Rightarrow>
          call (add_member (e_lower E) (e_pw_hash E) (ctx_org ctx) email password role fresh_user now s) s
            (\<lambda>uid s'. (Inr uid, log_event E ctx (ascii ''member.added'')
               [(ascii ''user_id'', JStr uid), (ascii ''role'', JStr role)] now s')))"

definition set_member_role_route ::
  "env \<Rightarrow> auth_context \<Rightarrow> pystr \<Rightarrow> pystr \<Rightarrow> time \<Rightarrow> db \<Rightarrow> (exc + unit) \<times> db" where
  "set_member_role_route E ctx uid role now s =
     call (no_result (set_member_role (e_uuid E) ctx uid role s)) s (\<lambda>_ s'.
       (Inr (), log_event E ctx (ascii ''member.role_changed'')
          [(ascii ''user_id'', JStr uid), (ascii ''role'', JStr role)] now s'))"

definition remove_member_route :: "env \<Rightarrow> auth_context \<Rightarrow> pystr \<Rightarrow> time \<Rightarrow> db \<Rightarrow> (exc + unit) \<times> db" where
  "remove_member_route E ctx uid now s =
     call (no_result (remove_member (e_uuid E) ctx uid s)) s (\<lambda>_ s'.
       (Inr (), log_event E ctx (ascii ''member.removed'') [(ascii ''user_id'', JStr uid)] now s'))"

definition upload_folder ::
  "env \<Rightarrow> auth_context \<Rightarrow> upload_item list \<Rightarrow> (nat \<Rightarrow> pystr) \<Rightarrow> (nat \<Rightarrow> pystr) \<Rightarrow> time \<Rightarrow> (nat \<Rightarrow> time) \<Rightarrow> db
     \<Rightarrow> (exc + sync_result) \<times> db" where
  "upload_folder E ctx items fresh_doc fresh_job now clock s =
     (case sync_source (e_hash E) (detect_types (e_unicode E)) (e_job_max_attempts E) (e_org_storage_bytes_cap E)
             (e_org_doc_cap E) fresh_doc fresh_job now clock ctx (ascii ''local-folder'') items s of
        (Inl e, s') \<Rightarrow> (Inl e, s')
      | (Inr res, s') \<Rightarrow>
          (Inr res, log_event E ctx (ascii ''source.synced'')
             [(ascii ''enqueued'', JInt (int (sr_enqueued res))),
              (ascii ''unchanged'', JInt (int (sr_unchanged res))),
              (ascii ''deleted'', JInt (int (sr_deleted res)))] now s'))"

definition delete_document_route :: "env \<Rightarrow> auth_context \<Rightarrow> pystr \<Rightarrow> time \<Rightarrow> db \<Rightarrow> (exc + unit) \<times> db" where
  "delete_document_route E ctx document_id now s =
     call (no_result (delete_document (e_uuid E) ctx document_id s)) s (\<lambda>_ s'.
       (Inr (), log_event E ctx (ascii ''document.deleted'') [(ascii ''document_id'', JStr document_id)] now s'))"

definition update_document_acl_route ::
  "env \<Rightarrow> auth_context \<Rightarrow> pystr \<Rightarrow> pystr list \<Rightarrow> time \<Rightarrow> db \<Rightarrow> (exc + unit) \<times> db" where
  "update_document_acl_route E ctx document_id acl now s =
     call (no_result (update_document_acl (e_uuid E) ctx document_id acl now s)) s (\<lambda>_ s'.
       (Inr (), log_event E ctx (ascii ''document.acl_changed'') [(ascii ''document_id'', JStr document_id)] now s'))"

definition delete_org_route :: "auth_context \<Rightarrow> db \<Rightarrow> (exc + unit) \<times> db" where
  "delete_org_route ctx s =
     (case require_role ctx r_owner of
        Inl e \<Rightarrow> (Inl e, s)
      | Inr _ \<Rightarrow> (Inr (), delete_org (ctx_org ctx) s))"

section \<open>The acting context\<close>

definition acting :: "db \<Rightarrow> auth_context \<Rightarrow> bool" where
  "acting s ctx \<longleftrightarrow> exists_where (\<lambda>m. m_user m = ctx_user ctx \<and> m_org m = ctx_org ctx \<and> m_role m = ctx_role ctx) (memberships s)"

lemma acting_member: "acting s ctx \<Longrightarrow> is_member s (ctx_user ctx) (ctx_org ctx)"
  by (auto simp: acting_def is_member_iff exists_where_iff)

lemma resolve_session_Some:
  assumes "resolve_session hash_token raw now s = Some ctx"
  obtains x m u where "x \<in> set (sessions s)" "s_token x = hash_token raw" "now < s_expires x"
    "m \<in> set (memberships s)" "m_user m = s_user x" "m_org m = s_org x"
    "u \<in> set (users s)" "u_id u = s_user x"
    "ctx = \<lparr>ctx_user = s_user x, ctx_org = s_org x, ctx_role = m_role m, ctx_email = u_email u\<rparr>"
proof -
  let ?rows = "[(x, m, u). x \<leftarrow> sessions s, m \<leftarrow> memberships s, u \<leftarrow> users s,
              m_user m = s_user x \<and> m_org m = s_org x \<and> u_id u = s_user x \<and> s_token x = hash_token raw]"
  obtain x m u rest where rows: "?rows = (x, m, u) # rest"
    and live: "\<not> s_expires x \<le> now"
    and ctx: "ctx = \<lparr>ctx_user = s_user x, ctx_org = s_org x, ctx_role = m_role m, ctx_email = u_email u\<rparr>"
    using assms unfolding resolve_session_def by (auto split: list.splits if_splits prod.splits)
  have "(x, m, u) \<in> set ?rows" unfolding rows by simp
  then show thesis using live ctx by (intro that [of x m u]) auto
qed

lemma resolve_session_acting: "resolve_session hash_token raw now s = Some ctx \<Longrightarrow> acting s ctx"
  by (erule resolve_session_Some) (auto simp: acting_def exists_where_iff)

lemma choose_membership_Inr:
  assumes "choose_membership ms org_slug = Inr m"
  shows "\<exists>r. (m, r) \<in> set ms \<and> (\<forall>slug. org_slug = Some slug \<longrightarrow> o_slug r = slug)"
proof (cases org_slug)
  case None
  with assms have "ms \<noteq> []" "m = fst (ms ! 0)" by (auto simp: choose_membership_def split: if_splits)
  then have "(m, snd (ms ! 0)) \<in> set ms" by (metis length_greater_0_conv nth_mem prod.collapse)
  with None show ?thesis by auto
next
  case (Some slug)
  with assms have "map_option fst (find (\<lambda>(m, r). o_slug r = slug) ms) = Some m"
    by (auto simp: choose_membership_def result_simps split: if_splits)
  then obtain p where "find (\<lambda>(m, r). o_slug r = slug) ms = Some p" "fst p = m" by auto
  from find_SomeD [OF this(1)] this(2) Some show ?thesis by (cases p) auto
qed

lemma authenticate_Inr:
  assumes "authenticate lower verify email password org_slug s = Inr ctx"
  obtains u m r where "u \<in> set (users s)" "u_email u = lower (strip email)" "verify password (u_hash u)"
    "m \<in> set (memberships s)" "m_user m = u_id u" "r \<in> set (orgs s)" "o_id r = m_org m"
    "\<And>slug. org_slug = Some slug \<Longrightarrow> o_slug r = slug"
    "ctx = \<lparr>ctx_user = u_id u, ctx_org = m_org m, ctx_role = m_role m, ctx_email = lower (strip email)\<rparr>"
proof -
  obtain u m where u: "find (\<lambda>u. u_email u = lower (strip email)) (users s) = Some u" "verify password (u_hash u)"
    and m: "choose_membership (memberships_of (u_id u) s) org_slug = Inr m"
    and ctx: "ctx = \<lparr>ctx_user = u_id u, ctx_org = m_org m, ctx_role = m_role m, ctx_email = lower (strip email)\<rparr>"
    using assms by (auto simp: authenticate_def Let_def result_simps)
  obtain r where "(m, r) \<in> set (memberships_of (u_id u) s)" "\<And>slug. org_slug = Some slug \<Longrightarrow> o_slug r = slug"
    using choose_membership_Inr [OF m] by blast
  with u ctx find_SomeD [OF u(1)] show thesis
    by (intro that [of u m r]) (auto simp: memberships_of_def)
qed

end
