(* ===== verification/Assistant.thy ===== *)
theory Assistant
  imports Api
begin

text \<open>
  \<open>assistant.py\<close>: the hard limits, and \<open>answer_stream\<close> as the generator it is.  \<open>asking\<close> holds
  the generator's locals and the point it is suspended at; \<open>ask_next\<close> is one \<open>next()\<close>, which runs
  to the following \<open>yield\<close> or to the end; \<open>ask_close\<close> is \<open>close()\<close>, which runs only the \<open>finally\<close>
  block.  The database a step starts from is an argument, so that requests may come between two
  frames.  The identifiers a request draws are the record \<open>ask_in\<close>.
\<close>

section \<open>The provider\<close>

record provider =
  p_name :: pystr
  p_stream :: "pystr \<Rightarrow> pystr \<Rightarrow> passage list \<Rightarrow> answer_stream_out"
  p_estimate :: "pystr \<Rightarrow> pystr \<Rightarrow> passage list \<Rightarrow> pystr \<Rightarrow> int \<times> int \<times> real"

definition get_answer_provider :: "env \<Rightarrow> provider" where
  "get_answer_provider E =
     (case e_anthropic E of
        Some client \<Rightarrow>
          \<lparr>p_name = ascii ''claude'', p_stream = claude_stream (e_unicode E) (e_round6 E) client (e_answer_model E),
           p_estimate = claude_estimate (e_unicode E) (e_round6 E) (e_answer_model E)\<rparr>
      | None \<Rightarrow>
          \<lparr>p_name = ascii ''mock'', p_stream = mock_stream (e_unicode E), p_estimate = mock_estimate (e_unicode E)\<rparr>)"

section \<open>The limits\<close>

definition limit_block :: "env \<Rightarrow> auth_context \<Rightarrow> time \<Rightarrow> db \<Rightarrow> pystr option" where
  "limit_block E ctx now s =
     (if e_daily_budget_usd E \<le> spend_last_24h ctx now s then Some (ascii ''daily budget exhausted'')
      else if e_monthly_question_cap E \<le> int (questions_this_month (e_month_start E) ctx now s)
      then Some (ascii ''monthly question limit reached'')
      else if e_platform_daily_budget_usd E \<le> platform_spend_today (e_day_of E) now s
      then Some (ascii ''service daily budget exhausted'')
      else None)"

definition REFUSAL :: pystr where
  "REFUSAL = ascii ''I don'' @ [39] @ ascii ''t have anything I'' @ [39]
     @ ascii ''m allowed to cite for that. Nothing in the documents you can access matches this question.''"

section \<open>The generator\<close>

datatype frame =
    Meta pystr pystr
  | Sources "(pystr \<times> nat \<times> pystr) list"
  | Token pystr
  | Done int int real "finding list"
  | ErrorFrame pystr

datatype point =
    Fresh
  | BlockedMeta pystr
  | BlockedError
  | Answering
  | Refusing "pystr list"
  | RefusalDone
  | AfterSources
  | Streaming "event list" "exc option"
  | Failed
  | Ended

record asking =
  g_point :: point
  g_answer :: "pystr option"
  g_contexts :: "hit list"
  g_streamed :: "pystr list"
  g_billed :: bool

record ask_in =
  q_question :: pystr
  q_k :: nat
  q_answer :: pystr
  q_nonce :: pystr
  q_estimate_nonce :: pystr
  q_reference :: pystr

definition new_asking :: asking where
  "new_asking = \<lparr>g_point = Fresh, g_answer = None, g_contexts = [], g_streamed = [], g_billed = False\<rparr>"

definition context_of :: "hit list \<Rightarrow> passage list" where
  "context_of hits = map (\<lambda>h. (h_path h, h_text h)) hits"

type_synonym resumed = "frame option \<times> asking \<times> db"

definition failure_message :: "pystr \<Rightarrow> pystr" where
  "failure_message reference =
     ascii ''Answer generation failed. Quote reference '' @ reference @ ascii '' if you report this.''"

text \<open>\<open>except Exception\<close>: whatever was raised, the caller gets a reference.\<close>

definition caught :: "ask_in \<Rightarrow> asking \<Rightarrow> exc \<Rightarrow> db \<Rightarrow> exc + resumed" where
  "caught q g raised s = Inr (Some (ErrorFrame (failure_message (q_reference q))), g\<lparr>g_point := Failed\<rparr>, s)"

text \<open>\<open>finally\<close>: an answer that streamed and was never billed is booked at an estimate.\<close>

definition settle :: "env \<Rightarrow> auth_context \<Rightarrow> ask_in \<Rightarrow> asking \<Rightarrow> time \<Rightarrow> db \<Rightarrow> exc + db" where
  "settle E ctx q g now s =
     (case g_answer g of
        None \<Rightarrow> Inr s
      | Some answer_id \<Rightarrow>
          (if g_billed g \<or> g_streamed g = [] then Inr s
           else (let (input_tokens, output_tokens, cost_usd) =
                   p_estimate (get_answer_provider E) (q_estimate_nonce q) (q_question q)
                     (context_of (g_contexts g)) (concat (g_streamed g))
                 in finalize_answer (e_uuid E) (e_day_of E) ctx answer_id input_tokens output_tokens cost_usd True now s)))"

definition finish :: "env \<Rightarrow> auth_context \<Rightarrow> ask_in \<Rightarrow> asking \<Rightarrow> time \<Rightarrow> db \<Rightarrow> exc + resumed" where
  "finish E ctx q g now s =
     andthen (settle E ctx q g now s) (\<lambda>s'. Inr (None, g\<lparr>g_point := Ended\<rparr>, s'))"

definition ask_close :: "env \<Rightarrow> auth_context \<Rightarrow> ask_in \<Rightarrow> asking \<Rightarrow> time \<Rightarrow> db \<Rightarrow> exc + db" where
  "ask_close E ctx q g now s =
     (case g_point g of Fresh \<Rightarrow> Inr s | Ended \<Rightarrow> Inr s | _ \<Rightarrow> settle E ctx q g now s)"

text \<open>The three stretches between yields that write, each up to its frame or its exception.\<close>

definition blocked_start ::
  "env \<Rightarrow> auth_context \<Rightarrow> ask_in \<Rightarrow> asking \<Rightarrow> pystr \<Rightarrow> time \<Rightarrow> db \<Rightarrow> exc + resumed" where
  "blocked_start E ctx q g reason now s =
     (let provider = p_name (get_answer_provider E) in
      case record_answer ctx (q_question q) provider False (q_answer q) now s of
        Inl e \<Rightarrow> caught q g e s
      | Inr (answer_id, s1) \<Rightarrow>
          (let g = g\<lparr>g_answer := Some answer_id\<rparr> in
           case mark_blocked (e_uuid E) ctx answer_id s1 of
             Inl e \<Rightarrow> caught q g e s1
           | Inr s2 \<Rightarrow>
               Inr (Some (Meta answer_id provider), g\<lparr>g_point := BlockedMeta reason\<rparr>,
                    log_event E ctx (ascii ''question.blocked'')
                      [(ascii ''answer_id'', JStr answer_id), (ascii ''reason'', JStr reason)] now s2)))"

definition answer_start :: "env \<Rightarrow> auth_context \<Rightarrow> ask_in \<Rightarrow> asking \<Rightarrow> time \<Rightarrow> db \<Rightarrow> exc + resumed" where
  "answer_start E ctx q g now s =
     (let provider = p_name (get_answer_provider E) in
      case retrieve (e_embed_query E) (e_cosine E) ctx (q_question q) (q_k q) s of
        Inl e \<Rightarrow> caught q g e s
      | Inr contexts \<Rightarrow>
          (let g = g\<lparr>g_contexts := contexts\<rparr>; refused = (contexts = []) in
           case record_answer ctx (q_question q) provider refused (q_answer q) now s of
             Inl e \<Rightarrow> caught q g e s
           | Inr (answer_id, s1) \<Rightarrow>
               (let s2 = log_event E ctx (ascii ''question.asked'')
                           [(ascii ''answer_id'', JStr answer_id), (ascii ''refused'', JBool refused)] now s1;
                    forged = count_defused (e_unicode E) (context_of contexts);
                    s3 = (if forged \<noteq> 0
                          then log_event E ctx (ascii ''retrieval.grammar_defused'')
                                 [(ascii ''answer_id'', JStr answer_id), (ascii ''spans'', JInt (int forged))] now s2
                          else s2)
                in Inr (Some (Meta answer_id provider), g\<lparr>g_answer := Some answer_id, g_point := Answering\<rparr>, s3))))"

definition usage_event ::
  "env \<Rightarrow> auth_context \<Rightarrow> ask_in \<Rightarrow> asking \<Rightarrow> int \<Rightarrow> int \<Rightarrow> real \<Rightarrow> event list \<Rightarrow> exc option \<Rightarrow> time \<Rightarrow> db
     \<Rightarrow> exc + resumed" where
  "usage_event E ctx q g input_tokens output_tokens cost_usd events ending now s =
     (let answer_id = the (g_answer g) in
      case finalize_answer (e_uuid E) (e_day_of E) ctx answer_id input_tokens output_tokens cost_usd False now s of
        Inl e \<Rightarrow> caught q g e s
      | Inr s1 \<Rightarrow>
          (let warnings = check_answer (e_unicode E) (concat (g_streamed g)) (context_of (g_contexts g));
               s2 = (if warnings \<noteq> []
                     then log_event E ctx (ascii ''answer.flagged'')
                            [(ascii ''answer_id'', JStr answer_id),
                             (ascii ''codes'', JStr (join_text (ascii '','') (map fst warnings)))] now s1
                     else s1)
           in Inr (Some (Done input_tokens output_tokens cost_usd warnings),
                   g\<lparr>g_billed := True, g_point := Streaming events ending\<rparr>, s2)))"

text \<open>The body of the loop over the provider's events.\<close>

fun stream_events ::
  "env \<Rightarrow> auth_context \<Rightarrow> ask_in \<Rightarrow> asking \<Rightarrow> event list \<Rightarrow> exc option \<Rightarrow> time \<Rightarrow> db \<Rightarrow> exc + resumed" where
  "stream_events E ctx q g [] (Some e) now s = caught q g e s"
| "stream_events E ctx q g [] None now s = finish E ctx q g now s"
| "stream_events E ctx q g (TokenEv t # events) ending now s =
     Inr (Some (Token t), g\<lparr>g_streamed := g_streamed g @ [t], g_point := Streaming events ending\<rparr>, s)"
| "stream_events E ctx q g (UsageEv i out cost_usd # events) ending now s =
     usage_event E ctx q g i out cost_usd events ending now s"

definition refusal_step :: "asking \<Rightarrow> pystr list \<Rightarrow> db \<Rightarrow> exc + resumed" where
  "refusal_step g ws s =
     (case ws of
        [] \<Rightarrow> Inr (Some (Done 0 0 0 []), g\<lparr>g_point := RefusalDone\<rparr>, s)
      | w # rest \<Rightarrow> Inr (Some (Token (w @ ascii '' '')), g\<lparr>g_point := Refusing rest\<rparr>, s))"

definition sources_of :: "hit list \<Rightarrow> (pystr \<times> nat \<times> pystr) list" where
  "sources_of hits = map (\<lambda>h. (h_doc h, h_ordinal h, h_path h)) hits"

definition ask_next :: "env \<Rightarrow> auth_context \<Rightarrow> ask_in \<Rightarrow> asking \<Rightarrow> time \<Rightarrow> db \<Rightarrow> exc + resumed" where
  "ask_next E ctx q g now s =
     (case g_point g of
        Fresh \<Rightarrow>
          (case limit_block E ctx now s of
             Some reason \<Rightarrow> blocked_start E ctx q g reason now s
           | None \<Rightarrow> answer_start E ctx q g now s)
      | BlockedMeta reason \<Rightarrow>
          Inr (Some (ErrorFrame (ascii ''[LIMIT] request blocked: '' @ reason @ ascii ''. No answer was generated.'')),
               g\<lparr>g_point := BlockedError\<rparr>, s)
      | BlockedError \<Rightarrow> finish E ctx q g now s
      | Answering \<Rightarrow>
          (if g_contexts g = [] then refusal_step g (split_words REFUSAL) s
           else Inr (Some (Sources (sources_of (g_contexts g))), g\<lparr>g_point := AfterSources\<rparr>, s))
      | Refusing ws \<Rightarrow> refusal_step g ws s
      | RefusalDone \<Rightarrow> finish E ctx q g now s
      | AfterSources \<Rightarrow>
          (let (events, ending) =
             p_stream (get_answer_provider E) (q_nonce q) (q_question q) (context_of (g_contexts g))
           in stream_events E ctx q g events ending now s)
      | Streaming events ending \<Rightarrow> stream_events E ctx q g events ending now s
      | Failed \<Rightarrow> finish E ctx q g now s
      | Ended \<Rightarrow> Inr (None, g, s))"

text \<open>
  A client that reads at most \<open>n\<close> frames and walks away: \<open>n\<close> calls of \<open>next()\<close>, then \<open>close()\<close>.  The
  result is the frames it saw, the generator, and the database; an exception of the \<open>finally\<close>
  block ends the stream where it is.
\<close>

fun read_frames ::
  "env \<Rightarrow> auth_context \<Rightarrow> ask_in \<Rightarrow> (nat \<Rightarrow> time) \<Rightarrow> nat \<Rightarrow> nat \<Rightarrow> asking \<Rightarrow> db \<Rightarrow> frame list \<times> asking \<times> db" where
  "read_frames E ctx q clock i 0 g s = ([], g, s)"
| "read_frames E ctx q clock i (Suc n) g s =
     (case ask_next E ctx q g (clock i) s of
        Inl e \<Rightarrow> ([], g\<lparr>g_point := Ended\<rparr>, s)
      | Inr (None, g', s') \<Rightarrow> ([], g', s')
      | Inr (Some f, g', s') \<Rightarrow>
          (let (fs, g2, s2) = read_frames E ctx q clock (Suc i) n g' s' in (f # fs, g2, s2)))"

definition answer_stream ::
  "env \<Rightarrow> auth_context \<Rightarrow> ask_in \<Rightarrow> (nat \<Rightarrow> time) \<Rightarrow> nat \<Rightarrow> db \<Rightarrow> frame list \<times> db" where
  "answer_stream E ctx q clock n s =
     (let (fs, g, s') = read_frames E ctx q clock 0 n new_asking s
      in (fs, case ask_close E ctx q g (clock n) s' of Inl e \<Rightarrow> s' | Inr s2 \<Rightarrow> s2))"

end
