(* ===== verification/Desk.thy ===== *)
theory Desk
  imports Assistant
begin

text \<open>
  The service as a transition system.  A step is one request, whatever its outcome, or one run
  of the background drain; its label is the organisation it acts in.  Every step keeps the
  database's invariants and the index contract, and a step labelled with one organisation
  leaves the others' part of the database as it was.
\<close>

section \<open>Frames\<close>

definition tenant_frame :: "int \<Rightarrow> int \<Rightarrow> pystr \<Rightarrow> db \<Rightarrow> db \<Rightarrow> bool" where
  "tenant_frame cs co org s s' \<longleftrightarrow>
     db_ok s' \<and> (index_ok cs co s \<longrightarrow> index_ok cs co s') \<and> (\<forall>other. other \<noteq> org \<longrightarrow> view other s' = view other s)"

lemma tenant_frame_refl: "db_ok s \<Longrightarrow> tenant_frame cs co org s s"
  by (simp add: tenant_frame_def)

lemma tenant_frame_trans:
  "tenant_frame cs co org a b \<Longrightarrow> tenant_frame cs co org b c \<Longrightarrow> tenant_frame cs co org a c"
  by (simp add: tenant_frame_def)

lemma tenant_frame_ok: "tenant_frame cs co org s s' \<Longrightarrow> db_ok s'"
  by (simp add: tenant_frame_def)

lemma index_ok_same: "documents s' = documents s \<Longrightarrow> chunks s' = chunks s \<Longrightarrow> index_ok cs co s' = index_ok cs co s"
  by (simp add: index_ok_def doc_chunks_def)

lemma tenant_frameI:
  assumes "db_ok s'" "documents s' = documents s" "chunks s' = chunks s"
    and "\<And>other. other \<noteq> org \<Longrightarrow> view other s' = view other s"
  shows "tenant_frame cs co org s s'"
  unfolding tenant_frame_def using assms(1,4) index_ok_same [OF assms(2,3)] by blast

lemma log_event_frame:
  assumes "db_ok s" and "ctx_user ctx \<in> u_id ` set (users s) \<Longrightarrow> is_member s (ctx_user ctx) (ctx_org ctx)"
  shows "tenant_frame cs co (ctx_org ctx) s (log_event E ctx action detail now s)"
proof -
  have home: "u \<in> u_id ` set (users s) \<Longrightarrow> is_member s u (ctx_org ctx)" if "Some (ctx_user ctx) = Some u" for u
    using assms(2) that by simp
  show ?thesis
    unfolding log_event_def by (rule tenant_frameI; rule audit_laws [OF assms(1)]) (use home in auto)
qed

text \<open>A transaction followed by the audit write, which finds the caller where it was or gone.\<close>

lemma then_log_frame:
  assumes "tenant_frame cs co (ctx_org ctx) s s1"
    and "ctx_user ctx \<in> u_id ` set (users s1) \<Longrightarrow> is_member s1 (ctx_user ctx) (ctx_org ctx)"
  shows "tenant_frame cs co (ctx_org ctx) s (log_event E ctx action detail now s1)"
  using tenant_frame_trans [OF assms(1) log_event_frame [OF tenant_frame_ok [OF assms(1)] assms(2)]] .

section \<open>Transactions\<close>

lemma create_session_frame:
  assumes "create_session hash_token ttl ctx raw now s = Inr (r, s')" and "db_ok s"
    and "is_member s (ctx_user ctx) (ctx_org ctx)"
  shows "tenant_frame cs co (ctx_org ctx) s s'" "is_member s' u org = is_member s u org"
  using create_session_db_ok [OF assms] create_session_view [OF assms(1)] create_session_Inr(5) [OF assms(1)]
  by (auto intro!: tenant_frameI simp: is_member_def)

lemma create_org_frame:
  assumes "create_org_with_owner lower pw_hash slug name email password org u now s = Inr (ctx, s')"
    and "db_ok s"
  shows "tenant_frame cs co org s s'" "ctx_org ctx = org" "is_member s' (ctx_user ctx) (ctx_org ctx)"
  using create_org_db_ok [OF assms] create_org_view [OF assms] create_org_Inr(5,6) [OF assms(1)]
  by (auto intro!: tenant_frameI simp: is_member_iff)

lemma add_member_frame:
  assumes "add_member lower pw_hash org email password role u now s = Inr (r, s')" and "db_ok s"
  shows "tenant_frame cs co org s s'" "is_member s v o1 \<Longrightarrow> is_member s' v o1"
  using add_member_db_ok [OF assms] add_member_view [OF assms] add_member_Inr(6) [OF assms(1)]
  by (auto intro!: tenant_frameI simp: is_member_iff)

lemma set_member_role_frame:
  assumes "set_member_role pg ctx uid role s = Inr s'" and "db_ok s"
  shows "tenant_frame cs co (ctx_org ctx) s s'" "is_member s' u org = is_member s u org"
proof -
  obtain v where upd: "update_role v (ctx_org ctx) role s = Inr s'" and grant: "role_at_least (ctx_role ctx) role"
    using assms(1) by (auto simp: result_simps)
  from upd roles.closed [OF grant]
  have s': "s' = s\<lparr>memberships := update_where (\<lambda>m. m_user m = v \<and> m_org m = ctx_org ctx)
                    (\<lambda>m. m\<lparr>m_role := role\<rparr>) (memberships s)\<rparr>" by (simp add: update_role_Inr)
  show "is_member s' u org = is_member s u org" by (simp add: s' is_member_update_role)
  show "tenant_frame cs co (ctx_org ctx) s s'"
    by (rule tenant_frameI) (use set_member_role_db_ok [OF assms] set_member_role_view [OF assms(1)] in \<open>simp_all add: s'\<close>)
qed

lemma remove_member_frame:
  assumes "remove_member pg ctx uid s = Inr s'" and "db_ok s"
  shows "tenant_frame cs co (ctx_org ctx) s s'"
    "is_member s v org \<Longrightarrow> v \<in> u_id ` set (users s') \<Longrightarrow> is_member s' v org"
proof -
  obtain u m where m: "m \<in> set (memberships s)" "m_user m = u" and s': "s' = delete_users (\<lambda>x. u_id x = u) s"
    using remove_member_state [OF assms] by metis
  show "tenant_frame cs co (ctx_org ctx) s s'"
    using remove_member_db_ok [OF assms] remove_member_view [OF assms]
    by (intro tenant_frameI) (simp_all add: s' delete_users_fields)
  show "is_member s' v org" if "is_member s v org" "v \<in> u_id ` set (users s')"
  proof -
    have "v \<noteq> u" using that(2) by (auto simp: s' delete_users_fields table_simps)
    moreover have "set (map u_id (select_where (\<lambda>x. u_id x = u) (users s))) \<subseteq> {u}" by (auto simp: table_simps)
    ultimately show ?thesis
      using that(1) by (auto simp: is_member_iff s' delete_users_def delete_answers_def Let_def table_simps)
  qed
qed

lemma change_password_frame:
  assumes "change_password pw_hash verify (ctx_user ctx) current new keep s = Inr (n, s')" and ok: "db_ok s"
    and "is_member s (ctx_user ctx) (ctx_org ctx)"
  shows "tenant_frame cs co (ctx_org ctx) s s'" "is_member s' u org = is_member s u org"
proof -
  let ?u = "ctx_user ctx"
  note s' = change_password_Inr(3) [OF assms(1)]
  have home: "home_refs s" using ok by (simp add: db_ok_def home_ok_def)
  show mem: "is_member s' u org = is_member s u org" for u org by (simp add: s' is_member_def)
  have "view other s' = view other s" if "other \<noteq> ctx_org ctx" for other
  proof (rule db_eqI)
    have out: "\<not> is_member s ?u other" using one_home [OF home assms(3)] that by blast
    show "users (view other s') = users (view other s)"
      unfolding view_def db.simps mem by (simp add: s', rule select_update_disjoint) (use out in auto)
    show "sessions (view other s') = sessions (view other s)"
      by (simp add: view_def s', rule select_delete_disjoint) (use home_refsD(2) [OF home] out in metis)
    show "group_members (view other s') = group_members (view other s)"
      by (simp add: view_def s' group_in_def)
  qed (simp_all add: view_def s')
  then show "tenant_frame cs co (ctx_org ctx) s s'"
    using change_password_db_ok [OF assms(1) ok] by (intro tenant_frameI) (simp_all add: s')
qed

lemma delete_session_frame:
  assumes "db_ok s" and "\<And>x. x \<in> set (sessions s) \<Longrightarrow> s_token x = hash_token raw \<Longrightarrow> s_org x = org"
  shows "tenant_frame cs co org s (delete_session hash_token raw s)"
proof (rule tenant_frameI)
  show "view other (delete_session hash_token raw s) = view other s" if "other \<noteq> org" for other
    unfolding delete_session_def
    by (rule sessions_view, rule select_delete_disjoint) (use assms(2) that in auto)
qed (simp_all add: delete_session_db_ok assms(1), simp_all add: delete_session_def)

lemma group_ops_frame:
  assumes "db_ok s"
  shows "create_group ctx name fresh now s = Inr (r, s') \<Longrightarrow> tenant_frame cs co (ctx_org ctx) s s'"
    "add_group_member pg ctx gid uid s = Inr s' \<Longrightarrow> tenant_frame cs co (ctx_org ctx) s s'"
    "remove_group_member pg ctx gid uid s = Inr s' \<Longrightarrow> tenant_frame cs co (ctx_org ctx) s s'"
    "delete_group pg ctx gid s = Inr s' \<Longrightarrow> tenant_frame cs co (ctx_org ctx) s s'"
proof -
  show "create_group ctx name fresh now s = Inr (r, s') \<Longrightarrow> tenant_frame cs co (ctx_org ctx) s s'"
    using create_group_db_ok [OF _ assms] create_group_view
    by (intro tenant_frameI) (auto simp: result_simps)
  show "add_group_member pg ctx gid uid s = Inr s' \<Longrightarrow> tenant_frame cs co (ctx_org ctx) s s'"
    using add_group_member_db_ok [OF _ assms] add_group_member_view [OF _ assms]
    by (intro tenant_frameI) (auto simp: add_group_member_Inr insert_group_member_Inr split: if_splits)
  show "remove_group_member pg ctx gid uid s = Inr s' \<Longrightarrow> tenant_frame cs co (ctx_org ctx) s s'"
    using remove_group_member_db_ok [OF _ assms] remove_group_member_view [OF _ assms]
    by (intro tenant_frameI) (auto simp: remove_group_member_Inr)
  show "delete_group pg ctx gid s = Inr s' \<Longrightarrow> tenant_frame cs co (ctx_org ctx) s s'"
    using delete_group_db_ok [OF _ assms] delete_group_view [OF _ assms]
    by (intro tenant_frameI) (auto simp: delete_group_Inr delete_groups_def Let_def)
qed


lemma document_ops_frame:
  assumes "db_ok s"
  shows "delete_document pg ctx i s = Inr s' \<Longrightarrow> tenant_frame cs co (ctx_org ctx) s s'"
    "update_document_acl pg ctx i acl now s = Inr s' \<Longrightarrow> tenant_frame cs co (ctx_org ctx) s s'"
    "sync_source hash detect m bc dc fd fj now clock ctx source items s = (r2, s') \<Longrightarrow> tenant_frame cs co (ctx_org ctx) s s'"
proof -
  show "tenant_frame cs co (ctx_org ctx) s s'" if op: "delete_document pg ctx i s = Inr s'"
    unfolding tenant_frame_def using delete_document_laws [OF op assms] by blast
  show "tenant_frame cs co (ctx_org ctx) s s'" if op: "update_document_acl pg ctx i acl now s = Inr s'"
    unfolding tenant_frame_def using update_document_acl_laws [OF op assms] by blast
  show "tenant_frame cs co (ctx_org ctx) s s'"
    if op: "sync_source hash detect m bc dc fd fj now clock ctx source items s = (r2, s')"
    unfolding tenant_frame_def using sync_source_laws [OF op assms] by blast
qed

text \<open>These leave users and memberships alone, so the caller is where it was.\<close>

lemma sync_transaction_members:
  assumes "sync_transaction hash detect fresh_doc now org source items precheck s = Inr (res, todo, s')"
  shows "users s' = users s \<and> memberships s' = memberships s"
proof -
  have item: "users (sa_db a') = users (sa_db a) \<and> memberships (sa_db a') = memberships (sa_db a)"
    if "sync_item hash detect org source ex f now item a = Inr a'" for ex f item a a'
    using that by (auto simp: sync_item_def result_simps split: if_splits elim!: upsert_document_Inr)
  have loop: "users (sa_db a') = users (sa_db a) \<and> memberships (sa_db a') = memberships (sa_db a)"
    if "sync_items hash detect org source ex fresh_doc now i items a = Inr a'" for ex i a a'
    using that by (induction items arbitrary: i a) (auto simp: result_simps dest!: item)
  have stones: "users t = users q \<and> memberships t = memberships q"
    if "tombstone_missing org now inc ex q = (n, t)" for inc ex q n t
    using that by (induction ex arbitrary: q n t) (auto simp: tombstone_def split: if_splits prod.splits)
  obtain acc where acc: "sync_items hash detect org source (existing_rows org source s) fresh_doc now 0 items
        \<lparr>sa_enqueued = 0, sa_unchanged = 0, sa_jobs = [], sa_db = s\<rparr> = Inr acc"
    and out: "(case tombstone_missing org now (map it_path items) (existing_rows org source s) (sa_db acc) of
        (deleted, s') \<Rightarrow> Inr (\<lparr>sr_enqueued = sa_enqueued acc, sr_unchanged = sa_unchanged acc, sr_deleted = deleted\<rparr>,
          sa_jobs acc, s')) = (Inr (res, todo, s') :: exc + _)"
    using assms unfolding sync_transaction_def Let_def andthen_Inr by blast
  obtain n t where nt: "tombstone_missing org now (map it_path items) (existing_rows org source s) (sa_db acc) = (n, t)"
    by (cases "tombstone_missing org now (map it_path items) (existing_rows org source s) (sa_db acc)")
  with out have "s' = t" by simp
  with loop [OF acc] stones [OF nt] show ?thesis by simp
qed

lemma enqueue_all_members:
  "enqueue_all m org fj clock i todo s = (r, s') \<Longrightarrow> users s' = users s \<and> memberships s' = memberships s"
proof (induction todo arbitrary: i s)
  case (Cons job todo)
  obtain d x where job: "job = (d, x)" by (cases job)
  show ?case
  proof (cases "enqueue m org (ascii ''ingest_document'') [(ascii ''document_id'', d)]
             (ascii ''ingest:'' @ d @ ascii '':'' @ x) None (fj i) (clock i) s")
    case (Inl e)
    with Cons.prems job show ?thesis by simp
  next
    case (Inr p)
    obtain b s1 where p: "p = (b, s1)" by (cases p)
    with Inr have "users s1 = users s \<and> memberships s1 = memberships s"
      by (auto simp: enqueue_def result_simps split: if_splits)
    with Cons.IH [of "Suc i" s1] Cons.prems job Inr p show ?thesis by simp
  qed
qed simp

lemma sync_source_members:
  assumes "sync_source hash detect m bc dc fd fj now clock ctx source items s = (r, s')"
  shows "is_member s' u org = is_member s u org"
proof -
  have "users s' = users s \<and> memberships s' = memberships s"
    using assms unfolding sync_source_def sync_documents_def
    by (auto split: sum.splits prod.splits dest!: sync_transaction_members enqueue_all_members)
  then show ?thesis by (simp add: is_member_def)
qed

lemma document_ops_members:
  "delete_document pg ctx i s = Inr s' \<Longrightarrow> is_member s' u org = is_member s u org"
  "update_document_acl pg ctx i acl now s = Inr s' \<Longrightarrow> is_member s' u org = is_member s u org"
  by (auto simp: result_simps delete_documents_def Let_def is_member_def)

lemma delete_org_frame:
  assumes "db_ok s"
  shows "tenant_frame cs co org s (delete_org org s)"
proof -
  let ?s1 = "delete_orgs (\<lambda>r. o_id r = org) s"
  let ?gone = "set (map o_id (select_where (\<lambda>r. o_id r = org) (orgs s)))"
  let ?docs = "select_where (\<lambda>d. d_org d \<in> ?gone) (documents s)"
  have docs: "documents (delete_org org s) = delete_where (\<lambda>d. d_org d \<in> ?gone) (documents s)"
    and chunks: "chunks (delete_org org s) = delete_where (\<lambda>c. c_org c \<in> ?gone)
        (delete_where (\<lambda>c. c_doc c \<in> set (map d_id ?docs)) (chunks s))"
    by (simp_all add: delete_org_def Let_def purge_stranded_users_def delete_users_fields)
      (simp_all add: delete_orgs_def delete_groups_def delete_documents_def delete_answers_def Let_def)
  have "index_ok cs co (delete_org org s)" if "index_ok cs co s"
    using that
  proof (rule index_okI)
    fix d assume "d \<in> set (documents (delete_org org s))"
    then have d: "d \<in> set (documents s)" "d_org d \<notin> ?gone" by (simp_all add: docs set_delete_where del: set_map)
    have "select_where (\<lambda>c. c_doc c = d_id d) (delete_where (\<lambda>c. c_doc c \<in> set (map d_id ?docs)) (chunks s))
        = select_where (\<lambda>c. c_doc c = d_id d) (chunks s)"
    proof (rule select_delete_disjoint)
      fix c assume "c_doc c \<in> set (map d_id ?docs)"
      then have "c_doc c \<in> d_id ` set ?docs" by (simp only: set_map)
      then obtain e where e: "c_doc c = d_id e" "e \<in> set ?docs" by (rule imageE)
      then have "e \<in> set (documents s)" "d_org e \<in> ?gone"
        by (simp_all add: set_select_where del: set_map)
      with d e(1) docs_ok(1) [OF assms] show "c_doc c \<noteq> d_id d" by (metis distinct_key_eq)
    qed
    moreover have "select_where (\<lambda>c. c_doc c = d_id d) (delete_where (\<lambda>c. c_org c \<in> ?gone) ys)
        = select_where (\<lambda>c. c_doc c = d_id d) ys" if "set ys \<subseteq> set (chunks s)" for ys
    proof (rule select_delete_disjoint)
      fix c assume "c \<in> set ys" "c_org c \<in> ?gone"
      with that chunk_home [OF assms _ d(1)] d(2) show "c_doc c \<noteq> d_id d" by force
    qed
    ultimately have "doc_chunks (d_id d) (delete_org org s) = doc_chunks (d_id d) s"
      by (simp add: doc_chunks_def chunks) (simp add: set_delete_where)
    with d(1) show "(d \<in> set (documents s) \<and> doc_chunks (d_id d) (delete_org org s) = doc_chunks (d_id d) s)
        \<or> indexed cs co d (doc_chunks (d_id d) (delete_org org s))" by simp
  qed
  then show ?thesis
    using delete_org_db_ok [OF assms] delete_org_view [OF assms] unfolding tenant_frame_def by blast
qed


section \<open>Routes\<close>

lemma call_cases:
  assumes "call m s f = (r, s')"
  obtains (raised) e where "m = Inl e" "s' = s" | (returned) x s1 where "m = Inr (x, s1)" "f x s1 = (r, s')"
  using assms by (cases m) (auto simp: call_def split: prod.splits)

lemma no_result_Inr: "no_result m = Inr (u, s') \<longleftrightarrow> m = Inr s'"
  by (cases m) (simp_all add: no_result_def)

lemma start_session_frame:
  assumes "start_session E ctx action detail raw now s = (r, s')" and "db_ok s"
    and "is_member s (ctx_user ctx) (ctx_org ctx)"
  shows "tenant_frame cs co (ctx_org ctx) s s'"
  using assms(1) unfolding start_session_def
proof (cases rule: call_cases)
  case (raised e)
  then show ?thesis using assms(2) by (simp add: tenant_frame_refl)
next
  case (returned token s1)
  then have "s' = log_event E ctx action detail now s1" by simp
  with create_session_frame [OF returned(1) assms(2,3)] assms(3) show ?thesis
    by (simp add: then_log_frame)
qed

lemma signup_frame:
  assumes "signup E slug name email password org u raw now s = (r, s')" and "db_ok s"
  shows "tenant_frame cs co org s s'"
  using assms(1) unfolding signup_def
proof (cases rule: call_cases)
  case (raised e)
  then show ?thesis using assms(2) by (simp add: tenant_frame_refl)
next
  case (returned ctx s1)
  note new = create_org_frame [OF returned(1) assms(2)]
  have "tenant_frame cs co org s1 s'"
    using start_session_frame [OF returned(2) tenant_frame_ok [OF new(1)] new(3)] new(2) by simp
  with new(1) show ?thesis by (rule tenant_frame_trans)
qed

lemma login_frame:
  assumes "authenticate (e_lower E) (e_verify E) email password slug s = Inr ctx"
    and "login E email password slug raw now s = (r, s')" and "db_ok s"
  shows "tenant_frame cs co (ctx_org ctx) s s'"
proof -
  have "is_member s (ctx_user ctx) (ctx_org ctx)"
    using assms(1) by (rule authenticate_Inr) (auto simp: is_member_iff)
  with assms show ?thesis by (auto simp: login_def intro: start_session_frame)
qed

section \<open>Asking\<close>

text \<open>The steps of an answer stream leave the caller where he was, so they compose.\<close>

definition kept :: "int \<Rightarrow> int \<Rightarrow> auth_context \<Rightarrow> db \<Rightarrow> db \<Rightarrow> bool" where
  "kept cs co ctx s s' \<longleftrightarrow>
     (db_ok s \<longrightarrow> is_member s (ctx_user ctx) (ctx_org ctx) \<longrightarrow>
        tenant_frame cs co (ctx_org ctx) s s' \<and> is_member s' (ctx_user ctx) (ctx_org ctx))"

lemma kept_refl [simp]: "kept cs co ctx s s"
  by (simp add: kept_def tenant_frame_refl)

lemma kept_trans: "kept cs co ctx a b \<Longrightarrow> kept cs co ctx b c \<Longrightarrow> kept cs co ctx a c"
  unfolding kept_def using tenant_frame_trans tenant_frame_ok by blast

lemma kept_log: "kept cs co ctx s (log_event E ctx action detail now s)"
proof -
  have "memberships (log_event E ctx action detail now s) = memberships s"
    by (auto simp: log_event_def audit_def insert_audit_def)
  then show ?thesis by (simp add: kept_def log_event_frame is_member_def)
qed

lemma kept_ledger:
  "record_answer ctx q p refused fresh now s = Inr (i, s1) \<Longrightarrow> kept cs co ctx s s1"
  "mark_blocked pg ctx i s = Inr s1 \<Longrightarrow> kept cs co ctx s s1"
  "finalize_answer pg day_of ctx i it ot paid est now s = Inr s1 \<Longrightarrow> kept cs co ctx s s1"
proof -
  have I: "kept cs co ctx s s1" if "db_ok s \<Longrightarrow> is_member s (ctx_user ctx) (ctx_org ctx) \<Longrightarrow> tenant_frame cs co (ctx_org ctx) s s1"
    and "memberships s1 = memberships s" using that by (simp add: kept_def is_member_def)
  show "kept cs co ctx s s1" if "record_answer ctx q p refused fresh now s = Inr (i, s1)"
    using record_answer_laws [OF that] record_answer_Inr(5) [OF that] by (intro I tenant_frameI) simp_all
  show "kept cs co ctx s s1" if op: "mark_blocked pg ctx i s = Inr s1"
  proof (intro I tenant_frameI)
    show "memberships s1 = memberships s" using op by (auto simp: mark_blocked_def result_simps)
  qed (use mark_blocked_laws [OF op] in simp_all)
  show "kept cs co ctx s s1" if op: "finalize_answer pg day_of ctx i it ot paid est now s = Inr s1"
  proof (intro I tenant_frameI)
    show "memberships s1 = memberships s" using op by (auto simp: finalize_answer_def result_simps)
  qed (use finalize_answer_laws [OF op] in simp_all)
qed

lemma settle_kept: "settle E ctx q g now s = Inr s' \<Longrightarrow> kept cs co ctx s s'"
  by (auto simp: settle_def Let_def case_prod_beta split: option.splits if_splits intro: kept_ledger)

lemma stream_events_kept: "stream_events E ctx q g es ending now s = Inr (f, g', s') \<Longrightarrow> kept cs co ctx s s'"
  by (cases "(E, ctx, q, g, es, ending, now, s)" rule: stream_events.cases)
    (auto simp: caught_def finish_def usage_event_def Let_def andthen_Inr split: sum.splits if_splits
      intro: kept_ledger kept_trans [OF kept_ledger(3) kept_log] dest: settle_kept)

lemma blocked_start_kept: "blocked_start E ctx q g reason now s = Inr (f, g', s') \<Longrightarrow> kept cs co ctx s s'"
  by (auto simp: blocked_start_def caught_def Let_def split: sum.splits prod.splits
      intro: kept_ledger kept_trans [OF kept_ledger(1) kept_trans [OF kept_ledger(2) kept_log]])

lemma answer_start_kept: "answer_start E ctx q g now s = Inr (f, g', s') \<Longrightarrow> kept cs co ctx s s'"
  by (auto simp: answer_start_def caught_def Let_def split: sum.splits prod.splits if_splits
      intro: kept_trans [OF kept_ledger(1) kept_log] kept_trans [OF kept_ledger(1) kept_trans [OF kept_log kept_log]])

lemma ask_next_kept: "ask_next E ctx q g now s = Inr (f, g', s') \<Longrightarrow> kept cs co ctx s s'"
  by (auto simp: ask_next_def refusal_step_def finish_def andthen_Inr split: point.splits option.splits list.splits
      if_splits prod.splits dest: settle_kept stream_events_kept blocked_start_kept answer_start_kept)

lemma read_frames_kept: "read_frames E ctx q clock i n g s = (fs, g', s') \<Longrightarrow> kept cs co ctx s s'"
proof (induction n arbitrary: i g s fs)
  case (Suc n)
  then show ?case
    by (auto split: sum.splits option.splits prod.splits dest!: ask_next_kept intro: kept_trans)
qed simp

lemma answer_stream_frame:
  assumes "answer_stream E ctx q clock n s = (fs, s')" and "db_ok s" and "is_member s (ctx_user ctx) (ctx_org ctx)"
  shows "tenant_frame cs co (ctx_org ctx) s s'"
proof -
  obtain g s1 where run: "read_frames E ctx q clock 0 n new_asking s = (fs, g, s1)"
    and s': "s' = (case ask_close E ctx q g (clock n) s1 of Inl e \<Rightarrow> s1 | Inr s2 \<Rightarrow> s2)"
    using assms(1) by (auto simp: answer_stream_def split: prod.splits)
  have "kept cs co ctx s1 s'"
    using s' settle_kept [of E ctx q g "clock n" s1] by (auto simp: ask_close_def split: point.splits sum.splits)
  then have "kept cs co ctx s s'" using read_frames_kept [OF run] kept_trans by blast
  with assms(2,3) show ?thesis by (simp add: kept_def)
qed

section \<open>Requests\<close>

text \<open>A tenant's request: the session's context, one route, any outcome.\<close>

inductive tenant_request :: "env \<Rightarrow> auth_context \<Rightarrow> db \<Rightarrow> db \<Rightarrow> bool" for E where
  password: "change_password_route E ctx current new raw now s = (r, s') \<Longrightarrow> tenant_request E ctx s s'"
| add_member: "add_member_route E ctx email password role u now s = (r2, s') \<Longrightarrow> tenant_request E ctx s s'"
| set_role: "set_member_role_route E ctx uid role now s = (r, s') \<Longrightarrow> tenant_request E ctx s s'"
| remove_member: "remove_member_route E ctx uid now s = (r, s') \<Longrightarrow> tenant_request E ctx s s'"
| create_group: "create_group ctx name fresh now s = Inr (r3, s') \<Longrightarrow> tenant_request E ctx s s'"
| delete_group: "delete_group (e_uuid E) ctx gid s = Inr s' \<Longrightarrow> tenant_request E ctx s s'"
| add_group_member:
    "add_group_member_by_email (e_uuid E) (e_lower E) ctx gid email s = Inr (uid, s') \<Longrightarrow> tenant_request E ctx s s'"
| remove_group_member: "remove_group_member (e_uuid E) ctx gid uid s = Inr s' \<Longrightarrow> tenant_request E ctx s s'"
| upload: "upload_folder E ctx items fd fj now clock s = (r4, s') \<Longrightarrow> tenant_request E ctx s s'"
| delete_document: "delete_document_route E ctx i now s = (r, s') \<Longrightarrow> tenant_request E ctx s s'"
| document_acl: "update_document_acl_route E ctx i acl now s = (r, s') \<Longrightarrow> tenant_request E ctx s s'"
| feedback: "add_feedback (e_uuid E) ctx i rating note s = Inr s' \<Longrightarrow> tenant_request E ctx s s'"
| ask: "answer_stream E ctx q clock n s = (fs, s') \<Longrightarrow> tenant_request E ctx s s'"
| delete_org: "delete_org_route ctx s = (r, s') \<Longrightarrow> tenant_request E ctx s s'"

lemma logged_call_frame:
  assumes "call m s (\<lambda>x s1. (g x, log_event E ctx action (detail x) now s1)) = (r, s')" and "db_ok s"
    and "\<And>x s1. m = Inr (x, s1) \<Longrightarrow> tenant_frame cs co (ctx_org ctx) s s1"
    and "\<And>x s1. m = Inr (x, s1) \<Longrightarrow> ctx_user ctx \<in> u_id ` set (users s1) \<Longrightarrow>
           is_member s1 (ctx_user ctx) (ctx_org ctx)"
  shows "tenant_frame cs co (ctx_org ctx) s s'"
  using assms(1)
proof (cases rule: call_cases)
  case (raised e)
  then show ?thesis using assms(2) by (simp add: tenant_frame_refl)
next
  case (returned x s1)
  from returned(2) have "s' = log_event E ctx action (detail x) now s1" by simp
  then show ?thesis using then_log_frame [OF assms(3,4) [OF returned(1)]] by simp
qed

lemma tenant_request_frame:
  assumes "tenant_request E ctx s s'" and ok: "db_ok s" and member: "is_member s (ctx_user ctx) (ctx_org ctx)"
  shows "tenant_frame cs co (ctx_org ctx) s s'"
  using assms(1)
proof cases
  case (password current new raw now r)
  show ?thesis
  proof (cases "new = current")
    case True
    with password ok show ?thesis by (simp add: change_password_route_def tenant_frame_refl)
  next
    case False
    with password show ?thesis
      unfolding change_password_route_def if_not_P [OF False]
      by (elim logged_call_frame [OF _ ok]) (simp_all add: change_password_frame [OF _ ok member] member)
  qed
next
  case (add_member email password role u now r)
  show ?thesis
  proof (cases "require_can_grant ctx role")
    case (Inl e)
    with add_member ok show ?thesis by (simp add: add_member_route_def tenant_frame_refl)
  next
    case (Inr x)
    with add_member show ?thesis
      unfolding add_member_route_def Inr sum.case
      by (elim logged_call_frame [OF _ ok])
        (auto intro: add_member_frame(1) [OF _ ok] add_member_frame(2) [OF _ ok member])
  qed
next
  case (set_role uid role now r)
  then show ?thesis
    unfolding set_member_role_route_def
    by (elim logged_call_frame [OF _ ok]) (use set_member_role_frame [OF _ ok] member no_result_Inr in blast)+
next
  case (remove_member uid now r)
  then show ?thesis
    unfolding remove_member_route_def
    by (elim logged_call_frame [OF _ ok]) (use remove_member_frame [OF _ ok] member no_result_Inr in blast)+
next
  case (add_group_member gid email uid)
  then have "OrgGroups.add_group_member (e_uuid E) ctx gid uid s = Inr s'"
    by (auto simp: add_group_member_by_email_def andthen_Inr)
  then show ?thesis by (rule group_ops_frame [OF ok])
next
  case (upload items fd fj now clock r)
  let ?m = "sync_source (e_hash E) (detect_types (e_unicode E)) (e_job_max_attempts E) (e_org_storage_bytes_cap E)
             (e_org_doc_cap E) fd fj now clock ctx (ascii ''local-folder'') items s"
  obtain r1 s1 where m: "?m = (r1, s1)" by (cases ?m)
  note frame = document_ops_frame(3) [OF ok m]
  have "is_member s1 (ctx_user ctx) (ctx_org ctx)" using member sync_source_members [OF m] by simp
  with upload m frame show ?thesis
    by (auto simp: upload_folder_def intro: then_log_frame split: sum.splits)
next
  case (delete_document i now r)
  then show ?thesis
    unfolding delete_document_route_def
    by (elim logged_call_frame [OF _ ok])
      (use document_ops_frame(1) [OF ok] document_ops_members(1) member no_result_Inr in blast)+
next
  case (document_acl i acl now r)
  then show ?thesis
    unfolding update_document_acl_route_def
    by (elim logged_call_frame [OF _ ok])
      (use document_ops_frame(2) [OF ok] document_ops_members(2) member no_result_Inr in blast)+
next
  case (feedback i rating remark)
  from add_feedback_laws [OF this ok member] show ?thesis by (intro tenant_frameI)
next
  case (ask q clock n fs)
  then show ?thesis by (rule answer_stream_frame [OF _ ok member])
next
  case (delete_org r)
  then show ?thesis
    using ok delete_org_frame [OF ok] by (auto simp: delete_org_route_def tenant_frame_refl split: sum.splits)
qed (auto intro: group_ops_frame [OF ok])


section \<open>Steps and runs\<close>

inductive desk_step :: "env \<Rightarrow> pystr option \<Rightarrow> db \<Rightarrow> db \<Rightarrow> bool" for E where
  signing_up: "signup E slug name email password org u raw now s = (r, s') \<Longrightarrow> desk_step E (Some org) s s'"
| logging_in: "authenticate (e_lower E) (e_verify E) email password slug s = Inr ctx \<Longrightarrow>
     login E email password slug raw now s = (r, s') \<Longrightarrow> desk_step E (Some (ctx_org ctx)) s s'"
| logging_out: "\<forall>x\<in>set (sessions s). s_token x = e_hash_token E raw \<longrightarrow> s_org x = org \<Longrightarrow>
     desk_step E (Some org) s (delete_session (e_hash_token E) raw s)"
| request: "resolve_session (e_hash_token E) raw now s = Some ctx \<Longrightarrow> tenant_request E ctx s s' \<Longrightarrow>
     desk_step E (Some (ctx_org ctx)) s s'"
| draining: "run_pending (e_uuid E) (e_embed E) (e_show_exc E) (e_chunk_size E) (e_chunk_overlap E)
       (e_job_stale_after_seconds E) clock max_jobs s = (r2, s') \<Longrightarrow> desk_step E None s s'"
| sweeping: "desk_step E None s (snd (purge_expired_sessions now s))"

inductive desk_run :: "env \<Rightarrow> db \<Rightarrow> pystr option list \<Rightarrow> db \<Rightarrow> bool" for E where
  idle: "desk_run E s [] s"
| then_step: "desk_run E s ls s1 \<Longrightarrow> desk_step E l s1 s' \<Longrightarrow> desk_run E s (ls @ [l]) s'"

inductive_cases desk_run_snocE: "desk_run E s (ls @ [l]) s'"

text \<open>\<open>desk_ok\<close> is the inductive invariant of the service.\<close>

definition desk_ok :: "env \<Rightarrow> db \<Rightarrow> bool" where
  "desk_ok E s \<longleftrightarrow> db_ok s \<and> index_ok (e_chunk_size E) (e_chunk_overlap E) s"

lemma tenant_step_frame:
  assumes "desk_step E (Some org) s s'" and "db_ok s"
  shows "tenant_frame cs co org s s'"
  using assms(1)
proof cases
  case (signing_up slug name email password u raw now r)
  then show ?thesis using signup_frame assms(2) by blast
next
  case (logging_in email password slug ctx raw now r)
  then show ?thesis using login_frame assms(2) by blast
next
  case (logging_out raw)
  then show ?thesis using delete_session_frame [OF assms(2)] by blast
next
  case (request raw now ctx)
  then show ?thesis
    using tenant_request_frame assms(2) acting_member resolve_session_acting by blast
qed

lemma desk_step_ok:
  assumes "desk_step E l s s'" and "desk_ok E s"
  shows "desk_ok E s'"
proof (cases l)
  case (Some org)
  with tenant_step_frame [of E org s s' "e_chunk_size E" "e_chunk_overlap E"] assms
  show ?thesis by (simp add: desk_ok_def tenant_frame_def)
next
  case None
  with assms(1) have "desk_step E None s s'" by simp
  then show ?thesis
  proof cases
    case (draining clock max_jobs r2)
    with run_pending_laws [OF draining] assms(2) show ?thesis by (simp add: desk_ok_def)
  next
    case (sweeping now)
    then have "documents s' = documents s" "chunks s' = chunks s"
      by (simp_all add: purge_expired_sessions_def)
    with sweeping assms(2) show ?thesis
      using index_ok_same [of s' s] by (simp add: desk_ok_def purge_expired_sessions_db_ok)
  qed
qed

lemma desk_run_ok: "desk_run E s ls s' \<Longrightarrow> desk_ok E s \<Longrightarrow> desk_ok E s'"
  by (induction rule: desk_run.induct) (auto intro: desk_step_ok)

lemma desk_ok_empty: "desk_ok E empty_db"
  by (simp add: desk_ok_def db_ok_empty) (simp add: index_ok_def empty_db_def)

lemma desk_run_view:
  assumes "desk_run E s ls s'" and "desk_ok E s" and "\<forall>l\<in>set ls. \<exists>other. l = Some other \<and> other \<noteq> org"
  shows "view org s' = view org s"
  using assms
proof (induction rule: desk_run.induct)
  case (then_step s ls s1 l s')
  then obtain other where l: "l = Some other" "other \<noteq> org" by auto
  have "desk_ok E s1" using desk_run_ok then_step.hyps(1) then_step.prems(1) by blast
  then have "tenant_frame 0 0 other s1 s'" using tenant_step_frame then_step.hyps(2) l(1) by (simp add: desk_ok_def)
  with l(2) have "view org s' = view org s1" by (simp add: tenant_frame_def)
  with then_step.IH then_step.prems show ?case by simp
qed simp

end
