(* ===== verification/Ratelimit.thy ===== *)
theory Ratelimit
  imports Errors "HOL-Library.AList"
begin

text \<open>
  \<open>ratelimit.py\<close>: the token bucket, and \<open>auth_rate_limit\<close> of \<open>deps.py\<close> on top of it.  The
  dict of buckets is an association list in insertion order; the clock is the argument \<open>now\<close>
  and the two settings are the arguments \<open>rate_burst\<close> and \<open>rate_per_min\<close>.  Floats are reals.
\<close>

type_synonym buckets = "(pystr \<times> real \<times> real) list"

definition EVICT_AFTER_SECONDS :: real where
  "EVICT_AFTER_SECONDS = 3600"

definition evict_idle :: "real \<Rightarrow> buckets \<Rightarrow> buckets" where
  "evict_idle now bs = filter (\<lambda>(k, t, seen). \<not> seen < now - EVICT_AFTER_SECONDS) bs"

definition sweep_idle :: "real \<Rightarrow> buckets \<Rightarrow> buckets" where
  "sweep_idle now bs = (if 1000 < length bs then evict_idle now bs else bs)"

definition rate_check ::
  "int \<Rightarrow> int \<Rightarrow> pystr \<Rightarrow> int option \<Rightarrow> int option \<Rightarrow> real \<Rightarrow> buckets \<Rightarrow> (bool \<times> real) \<times> buckets" where
  "rate_check rate_burst rate_per_min key burst per_min now buckets =
     (let burst = (case burst of None \<Rightarrow> rate_burst | Some b \<Rightarrow> b);
          refill = real_of_int (case per_min of None \<Rightarrow> rate_per_min | Some p \<Rightarrow> p) / 60;
          bs = sweep_idle now buckets;
          (t, seen) = (case map_of bs key of None \<Rightarrow> (real_of_int burst, now) | Some b \<Rightarrow> b);
          tokens = min (real_of_int burst) (t + (now - seen) * refill)
      in if 1 \<le> tokens then ((True, 0), AList.update key (tokens - 1, now) bs)
         else ((False, if 0 < refill then (1 - tokens) / refill else 60), AList.update key (tokens, now) bs))"

text \<open>The \<open>Retry-After\<close> header of a 429: \<open>int(retry_after) + 1\<close>, whole seconds truncated toward zero.\<close>

definition retry_header :: "real \<Rightarrow> int" where
  "retry_header retry = (if 0 \<le> retry then \<lfloor>retry\<rfloor> else \<lceil>retry\<rceil>) + 1"

section \<open>What a bucket holds\<close>

text \<open>
  \<open>available\<close> is what a key could spend at a time, whether or not its bucket is still stored:
  the abstraction under which the sweep of idle buckets is invisible.
\<close>

definition available :: "int \<Rightarrow> real \<Rightarrow> buckets \<Rightarrow> pystr \<Rightarrow> real \<Rightarrow> real" where
  "available burst refill bs key now =
     (case map_of bs key of
        None \<Rightarrow> real_of_int burst
      | Some (t, seen) \<Rightarrow> min (real_of_int burst) (t + (now - seen) * refill))"

definition buckets_ok :: "buckets \<Rightarrow> real \<Rightarrow> bool" where
  "buckets_ok bs now \<longleftrightarrow> distinct (map fst bs) \<and> (\<forall>(k, t, seen)\<in>set bs. 0 \<le> t \<and> seen \<le> now)"

lemma buckets_ok_Nil [simp]: "buckets_ok [] now"
  by (simp add: buckets_ok_def)

lemma buckets_ok_later: "buckets_ok bs now \<Longrightarrow> now \<le> later \<Longrightarrow> buckets_ok bs later"
  by (auto simp: buckets_ok_def)

lemma sweep_idle_ok: "buckets_ok bs now \<Longrightarrow> buckets_ok (sweep_idle now' bs) now"
  by (auto simp: buckets_ok_def sweep_idle_def evict_idle_def distinct_map_filter)

lemma set_update_cases: "x \<in> set (AList.update k v al) \<Longrightarrow> x = (k, v) \<or> x \<in> set al"
  by (induction al) (auto split: if_splits)

lemma update_ok: "buckets_ok bs now \<Longrightarrow> 0 \<le> t \<Longrightarrow> buckets_ok (AList.update k (t, now) bs) now"
  by (auto simp: buckets_ok_def distinct_update dest!: set_update_cases)

lemma available_bounds:
  assumes "buckets_ok bs now" "0 \<le> refill" "0 \<le> burst"
  shows "0 \<le> available burst refill bs key now \<and> available burst refill bs key now \<le> burst"
  using assms by (auto simp: available_def buckets_ok_def split: option.split dest!: map_of_SomeD)

lemma available_later:
  assumes "now \<le> later" "0 \<le> refill"
  shows "available burst refill bs key later
           = min (real_of_int burst) (available burst refill bs key now + (later - now) * refill)"
proof -
  let ?d = "(later - now) * refill"
  have d: "0 \<le> ?d" using assms by simp
  show ?thesis
  proof (cases "map_of bs key")
    case None
    with d show ?thesis by (simp add: available_def)
  next
    case (Some x)
    obtain t seen where x: "x = (t, seen)" by (cases x)
    let ?x = "t + (now - seen) * refill"
    have "t + (later - seen) * refill = ?x + ?d" by (simp add: algebra_simps)
    moreover have "min B (?x + ?d) = min B (min B ?x + ?d)" for B using d by (simp add: min_def)
    ultimately show ?thesis using Some x by (simp only: available_def option.case prod.case)
  qed
qed

lemma available_grows:
  assumes "now \<le> later" "0 \<le> refill"
  shows "available burst refill bs key later \<le> available burst refill bs key now + (later - now) * refill"
  by (simp add: available_later [OF assms])

lemma available_update:
  "available burst refill (AList.update key (t, now) bs) k now = (if k = key then min burst t else available burst refill bs k now)"
  by (simp add: available_def update_conv')

text \<open>A bucket idle for an hour has refilled, so dropping it changes nothing.\<close>

lemma available_evict:
  assumes "buckets_ok bs now" "burst \<le> EVICT_AFTER_SECONDS * refill" "0 \<le> refill"
  shows "available burst refill (evict_idle now bs) key now = available burst refill bs key now"
proof (cases "map_of bs key")
  case None
  then have "map_of (evict_idle now bs) key = None" by (auto simp: map_of_eq_None_iff evict_idle_def)
  with None show ?thesis by (simp add: available_def)
next
  case (Some b)
  obtain t seen where b: "b = (t, seen)" by (cases b)
  have mem: "(key, t, seen) \<in> set bs" using Some b by (simp add: map_of_SomeD)
  have dist: "distinct (map fst bs)" using assms(1) by (simp add: buckets_ok_def)
  show ?thesis
  proof (cases "seen < now - EVICT_AFTER_SECONDS")
    case True
    have "map_of (evict_idle now bs) key = None"
      using dist mem True by (auto simp: map_of_eq_None_iff evict_idle_def dest: eq_key_imp_eq_value)
    moreover have "EVICT_AFTER_SECONDS * refill \<le> (now - seen) * refill"
      using True assms(3) by (intro mult_right_mono) simp_all
    then have "burst \<le> t + (now - seen) * refill"
      using assms(1,2) mem by (auto simp: buckets_ok_def)
    ultimately show ?thesis using Some b by (simp add: available_def)
  next
    case False
    then have "map_of (evict_idle now bs) key = Some (t, seen)"
      using dist mem by (auto simp: map_of_eq_Some_iff distinct_map_filter evict_idle_def)
    with Some b show ?thesis by (simp add: available_def)
  qed
qed

lemma available_sweep:
  assumes "buckets_ok bs now" "burst \<le> EVICT_AFTER_SECONDS * refill" "0 \<le> refill"
  shows "available burst refill (sweep_idle now bs) key now = available burst refill bs key now"
  using available_evict [OF assms] by (simp add: sweep_idle_def)

lemma rate_check_available:
  "rate_check b p key None None now bs =
     (let a = available b (real_of_int p / 60) (sweep_idle now bs) key now
      in if 1 \<le> a then ((True, 0), AList.update key (a - 1, now) (sweep_idle now bs))
         else ((False, if 0 < p then (1 - a) / (real_of_int p / 60) else 60), AList.update key (a, now) (sweep_idle now bs)))"
  by (cases "map_of (sweep_idle now bs) key") (simp_all add: rate_check_def available_def Let_def split: prod.splits)

text \<open>A check spends one token when one is available, and otherwise says when one will be.\<close>

lemma rate_check_spends:
  assumes "rate_check b p key None None now bs = ((allowed, retry), bs')"
    and "buckets_ok bs now" "b \<le> EVICT_AFTER_SECONDS * (p / 60)" "0 \<le> p" "0 \<le> b"
  shows "allowed \<longleftrightarrow> 1 \<le> available b (p / 60) bs key now"
    and "buckets_ok bs' now"
    and "available b (p / 60) bs' k now
           = available b (p / 60) bs k now - (if k = key \<and> allowed then 1 else 0)"
    and "\<not> allowed \<Longrightarrow> 0 < p \<Longrightarrow> retry = (1 - available b (p / 60) bs key now) / (p / 60)"
proof -
  let ?s = "sweep_idle now bs" let ?a = "\<lambda>bs k. available b (p / 60) bs k now"
  have nonneg: "0 \<le> real_of_int p / 60" using assms(4) by simp
  have ok: "buckets_ok ?s now" using assms(2) by (rule sweep_idle_ok)
  have same: "?a ?s k = ?a bs k" for k using available_sweep [OF assms(2,3) nonneg] .
  have step: "((allowed, retry), bs') = (if 1 \<le> ?a ?s key then ((True, 0), AList.update key (?a ?s key - 1, now) ?s)
     else ((False, if 0 < p then (1 - ?a ?s key) / (real_of_int p / 60) else 60), AList.update key (?a ?s key, now) ?s))"
    using assms(1) unfolding rate_check_available Let_def by simp
  then show "allowed \<longleftrightarrow> 1 \<le> ?a bs key" by (simp add: same split: if_splits)
  have bounds: "0 \<le> ?a ?s key \<and> ?a ?s key \<le> b" by (rule available_bounds [OF ok nonneg assms(5)])
  from step show "buckets_ok bs' now" using bounds update_ok [OF ok] by (auto split: if_splits)
  from step show "?a bs' k = ?a bs k - (if k = key \<and> allowed then 1 else 0)"
    using bounds by (auto simp: available_update same min_def split: if_splits)
  from step show "\<not> allowed \<Longrightarrow> 0 < p \<Longrightarrow> retry = (1 - ?a bs key) / (p / 60)"
    by (simp add: same split: if_splits)
qed

section \<open>A run of checks\<close>

fun rate_run :: "int \<Rightarrow> int \<Rightarrow> (pystr \<times> real) list \<Rightarrow> buckets \<Rightarrow> bool list" where
  "rate_run b p [] bs = []"
| "rate_run b p ((key, now) # calls) bs =
     (case rate_check b p key None None now bs of ((allowed, _), bs') \<Rightarrow> allowed # rate_run b p calls bs')"

definition granted :: "pystr \<Rightarrow> (pystr \<times> real) list \<Rightarrow> bool list \<Rightarrow> nat" where
  "granted k calls rs = length (filter (\<lambda>((key, _), allowed). key = k \<and> allowed) (zip calls rs))"

lemma granted_Cons [simp]:
  "granted k ((key, t) # calls) (r # rs) = (if key = k \<and> r then Suc (granted k calls rs) else granted k calls rs)"
  by (simp add: granted_def)

lemma granted_Nil [simp]: "granted k [] rs = 0"
  by (simp add: granted_def)

lemma granted_budget:
  assumes "sorted (map snd calls)" "\<forall>(_, t)\<in>set calls. start \<le> t \<and> t \<le> stop" "start \<le> stop"
    and "buckets_ok bs start" "b \<le> EVICT_AFTER_SECONDS * (p / 60)" "0 \<le> p" "0 \<le> b"
  shows "granted k calls (rate_run b p calls bs)
           \<le> available b (p / 60) bs k start + (stop - start) * (p / 60)"
  using assms
proof (induction calls arbitrary: start bs)
  case Nil
  have "0 \<le> available b (p / 60) bs k start" using available_bounds [OF Nil.prems(4) _ Nil.prems(7)] Nil.prems(6) by simp
  moreover have "0 \<le> (stop - start) * (real_of_int p / 60)"
    using Nil.prems by (intro mult_nonneg_nonneg) simp_all
  ultimately show ?case unfolding granted_Nil of_nat_0 by linarith
next
  case (Cons c calls)
  obtain key now where c: "c = (key, now)" by (cases c)
  obtain allowed retry bs' where check: "rate_check b p key None None now bs = ((allowed, retry), bs')"
    by (metis surj_pair)
  have now: "start \<le> now" "now \<le> stop" using Cons.prems(2) c by auto
  have ok: "buckets_ok bs now" using Cons.prems(4) now(1) by (rule buckets_ok_later)
  note spent = rate_check_spends [OF check ok Cons.prems(5,6,7)]
  have "granted k calls (rate_run b p calls bs') \<le> available b (p / 60) bs' k now + (stop - now) * (p / 60)"
    using Cons.prems(1,2,5-7) c now spent(2) by (intro Cons.IH) auto
  moreover have "available b (p / 60) bs k now \<le> available b (p / 60) bs k start + (now - start) * (p / 60)"
    using now(1) Cons.prems(6) by (intro available_grows) simp_all
  moreover have "(stop - start) * (real_of_int p / 60) = (stop - now) * (p / 60) + (now - start) * (p / 60)"
    by (simp only: distrib_right [symmetric]) simp
  moreover have "granted k (c # calls) (rate_run b p (c # calls) bs)
      = granted k calls (rate_run b p calls bs') + (if k = key \<and> allowed then 1 else 0)"
    using check c by simp
  moreover have "real (if k = key \<and> allowed then 1 else 0) = (if k = key \<and> allowed then 1 else 0)" by simp
  ultimately show ?case using spent(3) [of k] by (simp only: of_nat_add)
qed





end
