(* ===== verification/Schemas.thy ===== *)
theory Schemas
  imports Normalize
begin

text \<open>
  \<open>schemas.py\<close>: the constraints on the request bodies.  Each model is the predicate a body has to
  satisfy, over the fields it carries; what fails it is answered 422 before the route runs.  The
  lengths are in code points, and a \<open>pattern\<close> is anchored at both ends of the text.
\<close>

section \<open>Shared constraints\<close>

definition sized :: "nat \<Rightarrow> nat \<Rightarrow> pystr \<Rightarrow> bool" where
  "sized lo hi s \<longleftrightarrow> lo \<le> length s \<and> length s \<le> hi"

definition full_match :: "re \<Rightarrow> unicode \<Rightarrow> pystr \<Rightarrow> bool" where
  "full_match r U s \<longleftrightarrow> list_ex (\<lambda>m. fst m = length s) (matches r U s (0, []))"

definition slug_char :: "nat \<Rightarrow> bool" where
  "slug_char c \<longleftrightarrow> (97 \<le> c \<and> c \<le> 122) \<or> (48 \<le> c \<and> c \<le> 57)"

definition SLUG :: re where
  "SLUG = seq_re [Chr slug_char, Rep True 1 (Some 38) (Chr (\<lambda>c. slug_char c \<or> c = 45)), Chr slug_char]"

definition Slug :: "unicode \<Rightarrow> pystr \<Rightarrow> bool" where
  "Slug U s = full_match SLUG U s"

definition Password :: "pystr \<Rightarrow> bool" where
  "Password s = sized 8 200 s"

definition Role :: "pystr \<Rightarrow> bool" where
  "Role s \<longleftrightarrow> s = ascii ''owner'' \<or> s = ascii ''admin'' \<or> s = ascii ''member''"

definition Email :: "pystr \<Rightarrow> bool" where
  "Email s = sized 3 200 s"

definition no_control_characters :: "unicode \<Rightarrow> pystr \<Rightarrow> bool" where
  "no_control_characters U s \<longleftrightarrow> list_all (\<lambda>ch. \<not> (ch < 32 \<or> ch = 127 \<or> is_invisible U ch)) s"

definition DocumentPath :: "unicode \<Rightarrow> pystr \<Rightarrow> bool" where
  "DocumentPath U s \<longleftrightarrow> sized 1 1024 s \<and> no_control_characters U s"

section \<open>Bodies\<close>

definition SignupRequest :: "unicode \<Rightarrow> pystr \<Rightarrow> pystr \<Rightarrow> pystr \<Rightarrow> pystr \<Rightarrow> bool" where
  "SignupRequest U org_slug org_name email password \<longleftrightarrow>
     Slug U org_slug \<and> sized 1 100 org_name \<and> Email email \<and> Password password"

definition LoginRequest :: "pystr \<Rightarrow> pystr \<Rightarrow> bool" where
  "LoginRequest email password \<longleftrightarrow> Email email \<and> Password password"

definition ChangePasswordRequest :: "pystr \<Rightarrow> pystr \<Rightarrow> bool" where
  "ChangePasswordRequest current_password new_password \<longleftrightarrow> Password current_password \<and> Password new_password"

definition AddMemberRequest :: "pystr \<Rightarrow> pystr \<Rightarrow> pystr \<Rightarrow> bool" where
  "AddMemberRequest email password role \<longleftrightarrow> Email email \<and> Password password \<and> Role role"

definition SetRoleRequest :: "pystr \<Rightarrow> bool" where
  "SetRoleRequest role = Role role"

definition CreateGroupRequest :: "pystr \<Rightarrow> bool" where
  "CreateGroupRequest name = sized 1 100 name"

definition AddGroupMemberRequest :: "pystr \<Rightarrow> bool" where
  "AddGroupMemberRequest email = Email email"

definition UploadedDocument :: "unicode \<Rightarrow> pystr \<Rightarrow> pystr \<Rightarrow> bool" where
  "UploadedDocument U path content \<longleftrightarrow> DocumentPath U path \<and> sized 0 1000000 content"

definition FolderUploadRequest :: "unicode \<Rightarrow> (pystr \<times> pystr) list \<Rightarrow> bool" where
  "FolderUploadRequest U docs \<longleftrightarrow> length docs \<le> 1000 \<and> list_all (\<lambda>(path, content). UploadedDocument U path content) docs"

definition UpdateAclRequest :: "pystr list \<Rightarrow> bool" where
  "UpdateAclRequest acl \<longleftrightarrow> length acl \<le> 200"

definition bounded :: "int \<Rightarrow> int \<Rightarrow> int \<Rightarrow> bool" where
  "bounded ge le n \<longleftrightarrow> ge \<le> n \<and> n \<le> le"

definition SearchRequest :: "pystr \<Rightarrow> int \<Rightarrow> bool" where
  "SearchRequest query k \<longleftrightarrow> sized 1 500 query \<and> bounded 1 50 k"

definition AskRequest :: "pystr \<Rightarrow> int option \<Rightarrow> bool" where
  "AskRequest question k \<longleftrightarrow> sized 1 500 question \<and> (case k of None \<Rightarrow> True | Some n \<Rightarrow> bounded 1 50 n)"

definition FeedbackRequest :: "pystr \<Rightarrow> pystr option \<Rightarrow> bool" where
  "FeedbackRequest rating remark \<longleftrightarrow>
     (rating = ascii ''up'' \<or> rating = ascii ''down'') \<and> (case remark of None \<Rightarrow> True | Some s \<Rightarrow> sized 0 2000 s)"

section \<open>What an accepted path is\<close>

lemma visible_path: "no_control_characters U s \<Longrightarrow> c \<in> set s \<Longrightarrow> 32 \<le> c \<and> c \<noteq> 127 \<and> \<not> is_invisible U c"
  by (auto simp: no_control_characters_def list_all_iff not_less)

lemma fold_from_visible:
  "\<forall>c\<in>set s. \<not> is_invisible U c \<Longrightarrow> fold_from U i s = (map lookalike s, [i..<i + length s])"
proof (induction s arbitrary: i)
  case (Cons c s)
  have "[i..<i + length (c # s)] = i # [Suc i..<Suc i + length s]" by (simp add: upt_rec)
  with Cons show ?case by simp
qed simp



text \<open>The pattern, read off its text.\<close>

lemma full_match_lang: "full_match r U s \<Longrightarrow> s \<in> lang r"
proof -
  assume "full_match r U s"
  then obtain caps where "(length s, caps) \<in> set (matches r U s (0, []))"
    unfolding full_match_def list_ex_iff by (metis prod.collapse)
  from matches_sound [OF this] show "s \<in> lang r" by (simp add: slice_all)
qed

lemma Slug_chars:
  assumes "Slug U s"
  shows "3 \<le> length s \<and> length s \<le> 40 \<and> slug_char (hd s) \<and> slug_char (last s) \<and> (\<forall>c\<in>set s. slug_char c \<or> c = 45)"
proof -
  have "s \<in> lang SLUG" using assms full_match_lang by (simp add: Slug_def)
  then obtain a v b where s: "s = [a] @ v @ [b]" and "slug_char a" "slug_char b"
    and "v \<in> lang (Rep True 1 (Some 38) (Chr (\<lambda>c. slug_char c \<or> c = 45)))"
    unfolding SLUG_def seq_re.simps lang.simps(1-3) by (auto simp del: lang.simps(4))
  moreover from this(4) have "1 \<le> length v" "length v \<le> 38" "\<forall>c\<in>set v. slug_char c \<or> c = 45"
    unfolding lang_Rep_Chr by auto
  ultimately show ?thesis by auto
qed

end
