(* ===== verification/Deps.thy ===== *)
theory Deps
  imports Api Ratelimit Schemas
begin

text \<open>
  \<open>deps.py\<close>: who is calling.  A \<open>request\<close> is what the routes read of an HTTP request, with the
  database's clock and the limiter's monotonic clock at the time it is served.  The \<open>server\<close> is
  the database and the two in-memory limiters.  A \<open>reply\<close> is a status code with a body, or a
  refusal with its detail and, for a 429, the \<open>Retry-After\<close> header.  FastAPI resolves the
  dependencies of a route in their order before it reports an invalid body, and a domain error is
  turned into its status by the handler; any other exception is a 500.
\<close>

record request =
  rq_authorization :: "pystr option"
  rq_header :: "pystr \<Rightarrow> pystr option"
  rq_peer :: "pystr option"
  rq_now :: time
  rq_tick :: real

record server =
  sv_db :: db
  sv_limiter :: buckets
  sv_auth_limiter :: buckets

datatype 'a reply = Reply nat 'a | Refused nat pystr "int option"

fun status_of :: "'a reply \<Rightarrow> nat" where
  "status_of (Reply code x) = code"
| "status_of (Refused code detail retry) = code"

section \<open>Errors\<close>

fun detail_of :: "exc \<Rightarrow> pystr" where
  "detail_of (DomainError m) = m"
| "detail_of (Conflict m) = m"
| "detail_of (NotFound m) = m"
| "detail_of (Forbidden m) = m"
| "detail_of (AuthError m) = m"
| "detail_of (QuotaExceeded m) = m"
| "detail_of _ = ascii ''Internal Server Error''"

definition error_reply :: "exc \<Rightarrow> 'a reply" where
  "error_reply e = Refused (http_status e) (detail_of e) None"

definition respond :: "nat \<Rightarrow> (exc + 'a) \<times> db \<Rightarrow> server \<Rightarrow> 'a reply \<times> server" where
  "respond code m sv =
     (case m of
        (Inl e, s) \<Rightarrow> (error_reply e, sv\<lparr>sv_db := s\<rparr>)
      | (Inr x, s) \<Rightarrow> (Reply code x, sv\<lparr>sv_db := s\<rparr>))"

text \<open>A handler that only reads, and one whose single transaction commits or rolls back.\<close>

definition reading :: "nat \<Rightarrow> exc + 'a \<Rightarrow> server \<Rightarrow> 'a reply \<times> server" where
  "reading code m sv = respond code (m, sv_db sv) sv"

definition committing :: "nat \<Rightarrow> exc + ('a \<times> db) \<Rightarrow> server \<Rightarrow> 'a reply \<times> server" where
  "committing code m sv =
     (case m of
        Inl e \<Rightarrow> respond code (Inl e, sv_db sv) sv
      | Inr (x, s) \<Rightarrow> respond code (Inr x, s) sv)"

definition validated :: "bool \<Rightarrow> server \<Rightarrow> 'a reply \<times> server \<Rightarrow> 'a reply \<times> server" where
  "validated ok sv handled = (if ok then handled else (Refused 422 (ascii ''validation error'') None, sv))"

section \<open>The caller\<close>

definition client_key :: "env \<Rightarrow> request \<Rightarrow> pystr" where
  "client_key E rq =
     (let peer = (case rq_peer rq of None \<Rightarrow> ascii ''unknown'' | Some host \<Rightarrow> host) in
      case e_client_ip_header E of
        None \<Rightarrow> peer
      | Some header \<Rightarrow>
          (if header = [] then peer
           else case rq_header rq header of
                  None \<Rightarrow> peer
                | Some v \<Rightarrow> if v = [] then peer else strip (takeWhile (\<lambda>c. c \<noteq> 44) v)))"

definition auth_rate_limit :: "env \<Rightarrow> request \<Rightarrow> server \<Rightarrow> 'a reply option \<times> server" where
  "auth_rate_limit E rq sv =
     (let ((allowed, retry), bs) =
        rate_check (e_rate_burst E) (e_rate_per_min E) (client_key E rq) (Some (e_auth_rate_burst E))
          (Some (e_auth_rate_per_min E)) (rq_tick rq) (sv_auth_limiter sv)
      in (if allowed then None else Some (Refused 429 (ascii ''too many attempts'') (Some (retry_header retry))),
          sv\<lparr>sv_auth_limiter := bs\<rparr>))"

definition throttled :: "env \<Rightarrow> request \<Rightarrow> server \<Rightarrow> (server \<Rightarrow> 'a reply \<times> server) \<Rightarrow> 'a reply \<times> server" where
  "throttled E rq sv handler =
     (case auth_rate_limit E rq sv of
        (Some refusal, sv') \<Rightarrow> (refusal, sv')
      | (None, sv') \<Rightarrow> handler sv')"

text \<open>\<open>authorization.split(" ", 1)[1]\<close> is what follows the first space.\<close>

definition bearer_token :: "env \<Rightarrow> request \<Rightarrow> exc + pystr" where
  "bearer_token E rq =
     (let missing = Inl (AuthError (ascii ''missing bearer token'')) in
      case rq_authorization rq of
        None \<Rightarrow> missing
      | Some v \<Rightarrow>
          (if take 7 (e_lower E v) \<noteq> ascii ''bearer '' then missing
           else case dropWhile (\<lambda>c. c \<noteq> 32) v of
                  [] \<Rightarrow> Inl (ValueError (ascii ''list index out of range''))
                | _ # rest \<Rightarrow> Inr (strip rest)))"

definition current_ctx :: "env \<Rightarrow> request \<Rightarrow> db \<Rightarrow> exc + (pystr \<times> auth_context)" where
  "current_ctx E rq s =
     andthen (bearer_token E rq) (\<lambda>token.
     andthen (or_raise (resolve_session (e_hash_token E) token (rq_now rq) s)
                (AuthError (ascii ''invalid or expired session''))) (\<lambda>ctx. Inr (token, ctx)))"

definition signed_in ::
  "env \<Rightarrow> request \<Rightarrow> server \<Rightarrow> (pystr \<Rightarrow> auth_context \<Rightarrow> 'a reply \<times> server) \<Rightarrow> 'a reply \<times> server" where
  "signed_in E rq sv handler =
     (case current_ctx E rq (sv_db sv) of
        Inl e \<Rightarrow> (error_reply e, sv)
      | Inr (token, ctx) \<Rightarrow> handler token ctx)"

section \<open>Laws\<close>

lemma current_ctx_Inr:
  "current_ctx E rq s = Inr (token, ctx) \<longleftrightarrow>
     bearer_token E rq = Inr token \<and> resolve_session (e_hash_token E) token (rq_now rq) s = Some ctx"
  by (auto simp: current_ctx_def result_simps or_raise_def split: option.splits)

lemma respond_db: "sv_db (snd (respond code m sv)) = snd m"
  by (simp add: respond_def split: prod.split sum.split)

lemma reading_same [simp]: "snd (reading code m sv) = sv"
  by (simp add: reading_def respond_def split: prod.split sum.split)

lemma committing_db: "sv_db (snd (committing code m sv)) = (case m of Inl e \<Rightarrow> sv_db sv | Inr (x, s) \<Rightarrow> s)"
  by (simp add: committing_def respond_db split: sum.split prod.split)

lemma validated_db: "sv_db (snd (validated ok sv handled)) = (if ok then sv_db (snd handled) else sv_db sv)"
  by (simp add: validated_def)

lemma throttled_cases:
  assumes "throttled E rq sv handler = (rep, sv')"
  obtains (refused) retry where "rep = Refused 429 (ascii ''too many attempts'') (Some retry)" "sv_db sv' = sv_db sv"
  | (passed) sv1 where "sv_db sv1 = sv_db sv" "handler sv1 = (rep, sv')"
proof -
  obtain allowed retry bs where "rate_check (e_rate_burst E) (e_rate_per_min E) (client_key E rq)
      (Some (e_auth_rate_burst E)) (Some (e_auth_rate_per_min E)) (rq_tick rq) (sv_auth_limiter sv)
    = ((allowed, retry), bs)" by (metis prod_cases3 prod.collapse)
  with assms that(1) [of "retry_header retry"] that(2) [of "sv\<lparr>sv_auth_limiter := bs\<rparr>"] show thesis
    by (cases allowed) (auto simp: throttled_def auth_rate_limit_def simp del: ascii_Cons)
qed

end
