(* ===== verification/Routes.thy ===== *)
theory Routes
  imports Desk Deps
begin

text \<open>
  \<open>main.py\<close>: every endpoint, from the request to the reply.  Fresh identifiers, session tokens and
  the times of later transactions are arguments.  The state-changing work is that of the theory
  \<open>Api\<close>; what is added here is who may call, how the body is validated, and the reply.
\<close>

section \<open>Accounts\<close>

text \<open>\<open>settings.provider\<close>: the two keys, and what they select.\<close>

definition settings_provider :: "bool \<Rightarrow> bool \<Rightarrow> pystr" where
  "settings_provider anthropic_key voyage_key = (if anthropic_key \<and> voyage_key then ascii ''real'' else ascii ''mock'')"

definition healthz :: "env \<Rightarrow> bool \<Rightarrow> (pystr \<times> pystr \<times> pystr) reply" where
  "healthz E voyage_key =
     Reply 200 (ascii ''ok'', ascii ''0.0.1'', settings_provider (e_anthropic E \<noteq> None) voyage_key)"

definition signup_endpoint ::
  "env \<Rightarrow> request \<Rightarrow> pystr \<Rightarrow> pystr \<Rightarrow> pystr \<Rightarrow> pystr \<Rightarrow> pystr \<Rightarrow> pystr \<Rightarrow> pystr \<Rightarrow> server
     \<Rightarrow> token_response reply \<times> server" where
  "signup_endpoint E rq slug name email password fresh_org fresh_user raw sv =
     throttled E rq sv (\<lambda>sv.
     validated (SignupRequest (e_unicode E) slug name email password) sv
       (respond 201 (signup E slug name email password fresh_org fresh_user raw (rq_now rq) (sv_db sv)) sv))"

definition login_endpoint ::
  "env \<Rightarrow> request \<Rightarrow> pystr \<Rightarrow> pystr \<Rightarrow> pystr option \<Rightarrow> pystr \<Rightarrow> server \<Rightarrow> token_response reply \<times> server" where
  "login_endpoint E rq email password org_slug raw sv =
     throttled E rq sv (\<lambda>sv.
     validated (LoginRequest email password) sv
       (respond 200 (login E email password org_slug raw (rq_now rq) (sv_db sv)) sv))"

definition logout :: "env \<Rightarrow> request \<Rightarrow> server \<Rightarrow> unit reply \<times> server" where
  "logout E rq sv =
     (case bearer_token E rq of
        Inl e \<Rightarrow> (error_reply e, sv)
      | Inr token \<Rightarrow> (Reply 204 (), sv\<lparr>sv_db := delete_session (e_hash_token E) token (sv_db sv)\<rparr>))"

definition me :: "env \<Rightarrow> request \<Rightarrow> server \<Rightarrow> auth_context reply \<times> server" where
  "me E rq sv = signed_in E rq sv (\<lambda>token ctx. (Reply 200 ctx, sv))"

definition change_password_endpoint ::
  "env \<Rightarrow> request \<Rightarrow> pystr \<Rightarrow> pystr \<Rightarrow> server \<Rightarrow> unit reply \<times> server" where
  "change_password_endpoint E rq current_password new_password sv =
     signed_in E rq sv (\<lambda>token ctx.
     throttled E rq sv (\<lambda>sv.
     validated (ChangePasswordRequest current_password new_password) sv
       (respond 204 (change_password_route E ctx current_password new_password token (rq_now rq) (sv_db sv)) sv)))"

section \<open>Members\<close>

definition add_member_endpoint ::
  "env \<Rightarrow> request \<Rightarrow> pystr \<Rightarrow> pystr \<Rightarrow> pystr \<Rightarrow> pystr \<Rightarrow> server \<Rightarrow> pystr reply \<times> server" where
  "add_member_endpoint E rq email password role fresh_user sv =
     signed_in E rq sv (\<lambda>token ctx.
     validated (AddMemberRequest email password role) sv
       (respond 201 (add_member_route E ctx email password role fresh_user (rq_now rq) (sv_db sv)) sv))"

definition page_query :: "int \<Rightarrow> int \<Rightarrow> bool" where
  "page_query limit offset \<longleftrightarrow> bounded 1 500 limit \<and> 0 \<le> offset"

definition list_members_endpoint ::
  "env \<Rightarrow> request \<Rightarrow> int \<Rightarrow> int \<Rightarrow> server \<Rightarrow> (nat \<times> member_out list) reply \<times> server" where
  "list_members_endpoint E rq limit offset sv =
     signed_in E rq sv (\<lambda>token ctx.
     validated (page_query limit offset) sv
       (reading 200 (Inr (count_members ctx (sv_db sv),
          list_members (e_coll E) ctx (nat limit) (nat offset) (sv_db sv))) sv))"

definition set_member_role_endpoint ::
  "env \<Rightarrow> request \<Rightarrow> pystr \<Rightarrow> pystr \<Rightarrow> server \<Rightarrow> unit reply \<times> server" where
  "set_member_role_endpoint E rq user_id role sv =
     signed_in E rq sv (\<lambda>token ctx.
     validated (SetRoleRequest role) sv
       (respond 200 (set_member_role_route E ctx user_id role (rq_now rq) (sv_db sv)) sv))"

definition remove_member_endpoint :: "env \<Rightarrow> request \<Rightarrow> pystr \<Rightarrow> server \<Rightarrow> unit reply \<times> server" where
  "remove_member_endpoint E rq user_id sv =
     signed_in E rq sv (\<lambda>token ctx.
       respond 204 (remove_member_route E ctx user_id (rq_now rq) (sv_db sv)) sv)"

section \<open>Groups\<close>

definition create_group_endpoint :: "env \<Rightarrow> request \<Rightarrow> pystr \<Rightarrow> pystr \<Rightarrow> server \<Rightarrow> group_out reply \<times> server" where
  "create_group_endpoint E rq name fresh sv =
     signed_in E rq sv (\<lambda>token ctx.
     validated (CreateGroupRequest name) sv
       (committing 201 (create_group ctx name fresh (rq_now rq) (sv_db sv)) sv))"

definition list_groups_endpoint :: "env \<Rightarrow> request \<Rightarrow> server \<Rightarrow> group_out list reply \<times> server" where
  "list_groups_endpoint E rq sv =
     signed_in E rq sv (\<lambda>token ctx. reading 200 (Inr (list_groups (e_coll E) ctx (sv_db sv))) sv)"

definition get_group_endpoint :: "env \<Rightarrow> request \<Rightarrow> pystr \<Rightarrow> server \<Rightarrow> group_out reply \<times> server" where
  "get_group_endpoint E rq group_id sv =
     signed_in E rq sv (\<lambda>token ctx. reading 200 (get_group (e_uuid E) ctx group_id (sv_db sv)) sv)"

definition delete_group_endpoint :: "env \<Rightarrow> request \<Rightarrow> pystr \<Rightarrow> server \<Rightarrow> unit reply \<times> server" where
  "delete_group_endpoint E rq group_id sv =
     signed_in E rq sv (\<lambda>token ctx.
       committing 204 (no_result (delete_group (e_uuid E) ctx group_id (sv_db sv))) sv)"

definition list_group_members_endpoint ::
  "env \<Rightarrow> request \<Rightarrow> pystr \<Rightarrow> server \<Rightarrow> (pystr \<times> pystr) list reply \<times> server" where
  "list_group_members_endpoint E rq group_id sv =
     signed_in E rq sv (\<lambda>token ctx.
       reading 200 (list_group_members (e_uuid E) (e_coll E) ctx group_id (sv_db sv)) sv)"

definition add_group_member_endpoint ::
  "env \<Rightarrow> request \<Rightarrow> pystr \<Rightarrow> pystr \<Rightarrow> server \<Rightarrow> pystr reply \<times> server" where
  "add_group_member_endpoint E rq group_id email sv =
     signed_in E rq sv (\<lambda>token ctx.
     validated (AddGroupMemberRequest email) sv
       (committing 201 (add_group_member_by_email (e_uuid E) (e_lower E) ctx group_id email (sv_db sv)) sv))"

definition remove_group_member_endpoint ::
  "env \<Rightarrow> request \<Rightarrow> pystr \<Rightarrow> pystr \<Rightarrow> server \<Rightarrow> unit reply \<times> server" where
  "remove_group_member_endpoint E rq group_id user_id sv =
     signed_in E rq sv (\<lambda>token ctx.
       committing 204 (no_result (remove_group_member (e_uuid E) ctx group_id user_id (sv_db sv))) sv)"

section \<open>Sources and documents\<close>

definition upload_folder_endpoint ::
  "env \<Rightarrow> request \<Rightarrow> upload_item list \<Rightarrow> (nat \<Rightarrow> pystr) \<Rightarrow> (nat \<Rightarrow> pystr) \<Rightarrow> (nat \<Rightarrow> time) \<Rightarrow> server
     \<Rightarrow> sync_result reply \<times> server" where
  "upload_folder_endpoint E rq docs fresh_doc fresh_job clock sv =
     signed_in E rq sv (\<lambda>token ctx.
     validated (FolderUploadRequest (e_unicode E) (map (\<lambda>i. (it_path i, it_content i)) docs)) sv
       (respond 202 (upload_folder E ctx docs fresh_doc fresh_job (rq_now rq) clock (sv_db sv)) sv))"

text \<open>\<open>worker.kick()\<close> follows an upload that enqueued something.\<close>

definition kicks_worker :: "sync_result reply \<Rightarrow> bool" where
  "kicks_worker rep = (case rep of Reply code res \<Rightarrow> sr_enqueued res \<noteq> 0 | Refused code d r \<Rightarrow> False)"

definition list_documents_endpoint ::
  "env \<Rightarrow> request \<Rightarrow> int \<Rightarrow> int \<Rightarrow> server \<Rightarrow> (nat \<times> document_out list) reply \<times> server" where
  "list_documents_endpoint E rq limit offset sv =
     signed_in E rq sv (\<lambda>token ctx.
     validated (page_query limit offset) sv
       (reading 200 (Inr (count_documents ctx (sv_db sv),
          list_documents (e_coll E) ctx (nat limit) (nat offset) (sv_db sv))) sv))"

definition get_document_endpoint :: "env \<Rightarrow> request \<Rightarrow> pystr \<Rightarrow> server \<Rightarrow> document_text reply \<times> server" where
  "get_document_endpoint E rq document_id sv =
     signed_in E rq sv (\<lambda>token ctx. reading 200 (get_document (e_uuid E) ctx document_id (sv_db sv)) sv)"

definition delete_document_endpoint :: "env \<Rightarrow> request \<Rightarrow> pystr \<Rightarrow> server \<Rightarrow> unit reply \<times> server" where
  "delete_document_endpoint E rq document_id sv =
     signed_in E rq sv (\<lambda>token ctx.
       respond 204 (delete_document_route E ctx document_id (rq_now rq) (sv_db sv)) sv)"

definition update_document_acl_endpoint ::
  "env \<Rightarrow> request \<Rightarrow> pystr \<Rightarrow> pystr list \<Rightarrow> server \<Rightarrow> unit reply \<times> server" where
  "update_document_acl_endpoint E rq document_id acl sv =
     signed_in E rq sv (\<lambda>token ctx.
     validated (UpdateAclRequest acl) sv
       (respond 200 (update_document_acl_route E ctx document_id acl (rq_now rq) (sv_db sv)) sv))"

definition export_org :: "env \<Rightarrow> request \<Rightarrow> server \<Rightarrow> export_out reply \<times> server" where
  "export_org E rq sv = signed_in E rq sv (\<lambda>token ctx. reading 200 (export (e_coll E) ctx (sv_db sv)) sv)"

definition delete_org_endpoint :: "env \<Rightarrow> request \<Rightarrow> server \<Rightarrow> unit reply \<times> server" where
  "delete_org_endpoint E rq sv =
     signed_in E rq sv (\<lambda>token ctx. respond 204 (delete_org_route ctx (sv_db sv)) sv)"

section \<open>Retrieval and the assistant\<close>

definition search_endpoint :: "env \<Rightarrow> request \<Rightarrow> pystr \<Rightarrow> int \<Rightarrow> server \<Rightarrow> hit list reply \<times> server" where
  "search_endpoint E rq query k sv =
     signed_in E rq sv (\<lambda>token ctx.
     validated (SearchRequest query k) sv
       (reading 200 (retrieve (e_embed_query E) (e_cosine E) ctx query (nat k) (sv_db sv)) sv))"

text \<open>
  The reply of \<open>ask\<close> is the frames the caller reads, \<open>reads\<close> of them at most; \<open>req.k or
  settings.retrieval_k\<close> is the default for a missing \<open>k\<close>, as a zero is refused by the schema.
\<close>

definition ask_endpoint ::
  "env \<Rightarrow> request \<Rightarrow> ask_in \<Rightarrow> int option \<Rightarrow> (nat \<Rightarrow> time) \<Rightarrow> nat \<Rightarrow> server \<Rightarrow> frame list reply \<times> server" where
  "ask_endpoint E rq q k clock frames sv =
     signed_in E rq sv (\<lambda>token ctx.
     validated (AskRequest (q_question q) k) sv
       (case rate_check (e_rate_burst E) (e_rate_per_min E) (ctx_user ctx) None None (rq_tick rq) (sv_limiter sv) of
          ((allowed, retry), bs) \<Rightarrow>
            (if \<not> allowed
             then (Refused 429 (ascii ''rate limit exceeded'') (Some (retry_header retry)), sv\<lparr>sv_limiter := bs\<rparr>)
             else (let k = (case k of None \<Rightarrow> e_retrieval_k E | Some n \<Rightarrow> if n = 0 then e_retrieval_k E else nat n);
                       (fs, s') = answer_stream E ctx (q\<lparr>q_k := k\<rparr>) clock frames (sv_db sv)
                   in (Reply 200 fs, sv\<lparr>sv_limiter := bs, sv_db := s'\<rparr>)))))"

section \<open>Audit, usage, feedback\<close>

definition audit_log_endpoint ::
  "env \<Rightarrow> request \<Rightarrow> int \<Rightarrow> int \<Rightarrow> server \<Rightarrow> (nat \<times> audit_out list) reply \<times> server" where
  "audit_log_endpoint E rq limit offset sv =
     signed_in E rq sv (\<lambda>token ctx.
     validated (page_query limit offset) sv
       (reading 200 (andthen (count_audit ctx (sv_db sv)) (\<lambda>total.
          andthen (list_audit ctx (nat limit) (nat offset) (sv_db sv)) (\<lambda>rows. Inr (total, rows)))) sv))"

definition usage_endpoint :: "env \<Rightarrow> request \<Rightarrow> server \<Rightarrow> usage_out reply \<times> server" where
  "usage_endpoint E rq sv =
     signed_in E rq sv (\<lambda>token ctx.
       reading 200 (usage_summary (e_coll E) (e_month_start E) (e_round6 E) (e_monthly_question_cap E)
         (e_daily_budget_usd E) (e_org_doc_cap E) (e_org_storage_bytes_cap E) ctx (rq_now rq) (sv_db sv)) sv)"

definition feedback_endpoint ::
  "env \<Rightarrow> request \<Rightarrow> pystr \<Rightarrow> pystr \<Rightarrow> pystr option \<Rightarrow> server \<Rightarrow> unit reply \<times> server" where
  "feedback_endpoint E rq answer_id rating remark sv =
     signed_in E rq sv (\<lambda>token ctx.
     validated (FeedbackRequest rating remark) sv
       (committing 201 (no_result (add_feedback (e_uuid E) ctx answer_id rating remark (sv_db sv))) sv))"

end
