(* ===== verification/Sample.thy ===== *)
theory Sample
  imports Api
begin

text \<open>
  A small deployment on which the properties are exercised: two organisations, three users, a
  group, one ingested and one pending document, their jobs and sessions, and an environment
  whose outside code is given by simple functions.  It satisfies the invariants of the service, so
  the hypotheses of the properties can hold.
\<close>

definition sample_env :: env where
  "sample_env = \<lparr>e_uuid = Some, e_lower = (\<lambda>x. x), e_pw_hash = (\<lambda>x. x), e_verify = (\<lambda>p h. p = h),
     e_hash_token = (\<lambda>x. x), e_hash = (\<lambda>x. x), e_unicode = plain_tables,
     e_embed = (\<lambda>ts. Inr (map (\<lambda>_. replicate EMBED_DIM 0) ts)), e_show_exc = (\<lambda>_. []),
     e_session_ttl_hours = 1, e_job_max_attempts = 3, e_job_stale_after_seconds = 600,
     e_chunk_size = 10, e_chunk_overlap = 2, e_org_storage_bytes_cap = 100, e_org_doc_cap = 5,
     e_embed_query = (\<lambda>_. Inr []), e_cosine = (\<lambda>_ _. 0), e_anthropic = None, e_answer_model = [], e_round6 = (\<lambda>x. x),
     e_day_of = (\<lambda>t. 0), e_month_start = (\<lambda>t. 0), e_daily_budget_usd = 5, e_monthly_question_cap = 1000,
     e_platform_daily_budget_usd = 20, e_retrieval_k = 5, e_coll = (\<lambda>x. x), e_rate_burst = 5,
     e_rate_per_min = 30, e_auth_rate_burst = 10, e_auth_rate_per_min = 10, e_client_ip_header = None\<rparr>"

definition acme_owner :: auth_context where
  "acme_owner = \<lparr>ctx_user = [11], ctx_org = [1], ctx_role = r_owner, ctx_email = [111]\<rparr>"

definition acme_member :: auth_context where
  "acme_member = \<lparr>ctx_user = [12], ctx_org = [1], ctx_role = r_member, ctx_email = [112]\<rparr>"

definition zeta_owner :: auth_context where
  "zeta_owner = \<lparr>ctx_user = [21], ctx_org = [2], ctx_role = r_owner, ctx_email = [121]\<rparr>"

definition handbook :: document_row where
  "handbook = \<lparr>d_id = [41], d_org = [1], d_source = ascii ''local-folder'', d_path = [5], d_content = [65, 66],
     d_hash = [65, 66], d_acl = [ascii ''group:'' @ [31]], d_status = DIngested, d_pii = [], d_revision = 0,
     d_updated = 0\<rparr>"

definition draft :: document_row where
  "draft = \<lparr>d_id = [42], d_org = [1], d_source = ascii ''local-folder'', d_path = [6], d_content = [67],
     d_hash = [67], d_acl = DEFAULT_ACL, d_status = DPending, d_pii = [], d_revision = 0, d_updated = 0\<rparr>"

definition draft_job :: job_row where
  "draft_job = \<lparr>j_id = [51], j_org = [1], j_kind = ascii ''ingest_document'',
     j_payload = [(ascii ''document_id'', [42])], j_key = [61], j_status = JQueued, j_attempts = 0, j_max = 3,
     j_error = None, j_run_after = 0, j_created = 0, j_updated = 0\<rparr>"

definition sample_db :: db where
  "sample_db = \<lparr>orgs = [\<lparr>o_id = [1], o_slug = [1], o_name = []\<rparr>, \<lparr>o_id = [2], o_slug = [2], o_name = []\<rparr>],
     users = [\<lparr>u_id = [11], u_email = [111], u_hash = [7]\<rparr>, \<lparr>u_id = [12], u_email = [112], u_hash = [8]\<rparr>,
              \<lparr>u_id = [21], u_email = [121], u_hash = [9]\<rparr>],
     memberships = [\<lparr>m_user = [11], m_org = [1], m_role = r_owner, m_created = 0\<rparr>,
                    \<lparr>m_user = [12], m_org = [1], m_role = r_member, m_created = 0\<rparr>,
                    \<lparr>m_user = [21], m_org = [2], m_role = r_owner, m_created = 0\<rparr>],
     groups = [\<lparr>g_id = [31], g_org = [1], g_name = [3], g_created = 0\<rparr>],
     group_members = [\<lparr>gm_group = [31], gm_user = [12]\<rparr>],
     sessions = [\<lparr>s_token = [91], s_user = [11], s_org = [1], s_expires = 100\<rparr>,
                 \<lparr>s_token = [92], s_user = [11], s_org = [1], s_expires = 100\<rparr>,
                 \<lparr>s_token = [93], s_user = [21], s_org = [2], s_expires = 100\<rparr>],
     documents = [handbook, draft],
     chunks = [\<lparr>c_org = [1], c_doc = [41], c_ordinal = 0, c_text = [65, 66], c_embedding = replicate EMBED_DIM 0,
                c_acl = [ascii ''group:'' @ [31]]\<rparr>],
     jobs = [draft_job],
     answers = [\<lparr>a_id = [71], a_org = [1], a_user = [12], a_question = [4], a_provider = [], a_refused = False,
                 a_blocked = False, a_input = 0, a_output = 0, a_cost = 0, a_estimated = False, a_created = 0\<rparr>],
     feedback = [], audit_log = [], platform_spend = []\<rparr>"

lemmas sample_defs = sample_db_def sample_env_def acme_owner_def acme_member_def zeta_owner_def
  handbook_def draft_def draft_job_def DEFAULT_ACL_def

lemma sample_chunks: "chunk_text 10 2 [65, 66] None None = Inr [[65, 66]]"
  by (simp add: chunk_text_def py_range_def strip_def lstrip_def is_space_def)

lemma sample_db_ok: "db_ok sample_db"
  by (simp add: db_ok_def keys_ok_def id_defs refs_ok_def home_defs owners_ok_def roles_ok_def is_owner_def
      is_member_def known_role_def refs_def refs_opt_def sample_defs)

lemma sample_queue_ok: "queue_ok Some sample_db"
  by (simp add: queue_ok_def sample_defs)

end
