(* ===== verification/Service.thy ===== *)
theory Service
  imports Routes Sample
begin

text \<open>
  The HTTP surface as one function: an \<open>endpoint\<close> is a route with its parsed arguments, \<open>draws\<close>
  is what the request draws from outside (identifiers, tokens, the clock, how long the caller
  reads), and \<open>serve\<close> dispatches.  The laws carry what is proved of the transition system of
  \<open>Desk\<close> over to it.
\<close>

datatype endpoint =
    Healthz bool
  | Signup pystr pystr pystr pystr
  | Login pystr pystr "pystr option"
  | Logout
  | Me
  | ChangePassword pystr pystr
  | AddMember pystr pystr pystr
  | ListMembers int int
  | SetMemberRole pystr pystr
  | RemoveMember pystr
  | CreateGroup pystr
  | ListGroups
  | GetGroup pystr
  | DeleteGroup pystr
  | ListGroupMembers pystr
  | AddGroupMember pystr pystr
  | RemoveGroupMember pystr pystr
  | UploadFolder "upload_item list"
  | ListDocuments int int
  | GetDocument pystr
  | DeleteDocument pystr
  | UpdateDocumentAcl pystr "pystr list"
  | ExportOrg
  | DeleteOrg
  | Search pystr int
  | Ask ask_in "int option"
  | AuditLog int int
  | Usage
  | Feedback pystr pystr "pystr option"

record draws =
  dr_org :: pystr
  dr_user :: pystr
  dr_token :: pystr
  dr_group :: pystr
  dr_doc :: "nat \<Rightarrow> pystr"
  dr_job :: "nat \<Rightarrow> pystr"
  dr_clock :: "nat \<Rightarrow> time"
  dr_frames :: nat

definition coded :: "'a reply \<times> server \<Rightarrow> nat \<times> server" where
  "coded p = (status_of (fst p), snd p)"

fun serve :: "env \<Rightarrow> request \<Rightarrow> draws \<Rightarrow> endpoint \<Rightarrow> server \<Rightarrow> nat \<times> server" where
  "serve E rq d (Healthz voyage) sv = coded (healthz E voyage, sv)"
| "serve E rq d (Signup slug name email password) sv =
     coded (signup_endpoint E rq slug name email password (dr_org d) (dr_user d) (dr_token d) sv)"
| "serve E rq d (Login email password slug) sv = coded (login_endpoint E rq email password slug (dr_token d) sv)"
| "serve E rq d Logout sv = coded (logout E rq sv)"
| "serve E rq d Me sv = coded (me E rq sv)"
| "serve E rq d (ChangePassword current new) sv = coded (change_password_endpoint E rq current new sv)"
| "serve E rq d (AddMember email password role) sv = coded (add_member_endpoint E rq email password role (dr_user d) sv)"
| "serve E rq d (ListMembers limit offset) sv = coded (list_members_endpoint E rq limit offset sv)"
| "serve E rq d (SetMemberRole uid role) sv = coded (set_member_role_endpoint E rq uid role sv)"
| "serve E rq d (RemoveMember uid) sv = coded (remove_member_endpoint E rq uid sv)"
| "serve E rq d (CreateGroup name) sv = coded (create_group_endpoint E rq name (dr_group d) sv)"
| "serve E rq d ListGroups sv = coded (list_groups_endpoint E rq sv)"
| "serve E rq d (GetGroup gid) sv = coded (get_group_endpoint E rq gid sv)"
| "serve E rq d (DeleteGroup gid) sv = coded (delete_group_endpoint E rq gid sv)"
| "serve E rq d (ListGroupMembers gid) sv = coded (list_group_members_endpoint E rq gid sv)"
| "serve E rq d (AddGroupMember gid email) sv = coded (add_group_member_endpoint E rq gid email sv)"
| "serve E rq d (RemoveGroupMember gid uid) sv = coded (remove_group_member_endpoint E rq gid uid sv)"
| "serve E rq d (UploadFolder docs) sv = coded (upload_folder_endpoint E rq docs (dr_doc d) (dr_job d) (dr_clock d) sv)"
| "serve E rq d (ListDocuments limit offset) sv = coded (list_documents_endpoint E rq limit offset sv)"
| "serve E rq d (GetDocument i) sv = coded (get_document_endpoint E rq i sv)"
| "serve E rq d (DeleteDocument i) sv = coded (delete_document_endpoint E rq i sv)"
| "serve E rq d (UpdateDocumentAcl i acl) sv = coded (update_document_acl_endpoint E rq i acl sv)"
| "serve E rq d ExportOrg sv = coded (export_org E rq sv)"
| "serve E rq d DeleteOrg sv = coded (delete_org_endpoint E rq sv)"
| "serve E rq d (Search query k) sv = coded (search_endpoint E rq query k sv)"
| "serve E rq d (Ask q k) sv = coded (ask_endpoint E rq q k (dr_clock d) (dr_frames d) sv)"
| "serve E rq d (AuditLog limit offset) sv = coded (audit_log_endpoint E rq limit offset sv)"
| "serve E rq d Usage sv = coded (usage_endpoint E rq sv)"
| "serve E rq d (Feedback i rating remark) sv = coded (feedback_endpoint E rq i rating remark sv)"

section \<open>Who may call\<close>

fun anonymous :: "endpoint \<Rightarrow> bool" where
  "anonymous (Healthz voyage) = True"
| "anonymous (Signup slug name email password) = True"
| "anonymous (Login email password slug) = True"
| "anonymous Logout = True"
| "anonymous _ = False"

text \<open>The role an endpoint asks for; \<open>None\<close> where any member of the organisation may call it.\<close>

fun required_role :: "endpoint \<Rightarrow> pystr option" where
  "required_role (AddMember email password role) = Some r_admin"
| "required_role (SetMemberRole uid role) = Some r_admin"
| "required_role (RemoveMember uid) = Some r_admin"
| "required_role (CreateGroup name) = Some r_admin"
| "required_role (DeleteGroup gid) = Some r_admin"
| "required_role (AddGroupMember gid email) = Some r_admin"
| "required_role (RemoveGroupMember gid uid) = Some r_admin"
| "required_role (UploadFolder docs) = Some r_admin"
| "required_role (DeleteDocument i) = Some r_admin"
| "required_role (UpdateDocumentAcl i acl) = Some r_admin"
| "required_role ExportOrg = Some r_admin"
| "required_role DeleteOrg = Some r_owner"
| "required_role (AuditLog limit offset) = Some r_admin"
| "required_role Usage = Some r_admin"
| "required_role _ = None"

lemmas endpoint_defs = healthz_def signup_endpoint_def login_endpoint_def logout_def me_def change_password_endpoint_def
  add_member_endpoint_def list_members_endpoint_def set_member_role_endpoint_def remove_member_endpoint_def
  create_group_endpoint_def list_groups_endpoint_def get_group_endpoint_def delete_group_endpoint_def
  list_group_members_endpoint_def add_group_member_endpoint_def remove_group_member_endpoint_def
  upload_folder_endpoint_def list_documents_endpoint_def get_document_endpoint_def delete_document_endpoint_def
  update_document_acl_endpoint_def export_org_def delete_org_endpoint_def search_endpoint_def ask_endpoint_def
  audit_log_endpoint_def usage_endpoint_def feedback_endpoint_def

lemma status_error [simp]: "status_of (error_reply e) = http_status e"
  by (simp add: error_reply_def)

lemma error_code [simp]: "400 \<le> http_status e"
  by (cases e) simp_all

lemma signed_in_Inl: "current_ctx E rq (sv_db sv) = Inl e \<Longrightarrow> signed_in E rq sv handler = (error_reply e, sv)"
  by (simp add: signed_in_def)

lemma signed_in_Inr: "current_ctx E rq (sv_db sv) = Inr (token, ctx) \<Longrightarrow> signed_in E rq sv handler = handler token ctx"
  by (simp add: signed_in_def)

text \<open>
  C23.  Without a live session there is nothing behind the login: every endpoint but the health
  check, sign-up, login and logout answers with an error and changes nothing, the in-memory
  limiters included.
\<close>

theorem no_session_no_access:
  assumes "current_ctx E rq (sv_db sv) = Inl e" and "\<not> anonymous ep"
  shows "400 \<le> fst (serve E rq d ep sv) \<and> snd (serve E rq d ep sv) = sv"
  using assms(2) by (cases ep) (simp_all add: endpoint_defs coded_def signed_in_Inl [OF assms(1)])

definition anonymous_request :: request where
  "anonymous_request = \<lparr>rq_authorization = None, rq_header = (\<lambda>_. None), rq_peer = None, rq_now = 5, rq_tick = 0\<rparr>"

definition sample_server :: server where
  "sample_server = \<lparr>sv_db = sample_db, sv_limiter = [], sv_auth_limiter = []\<rparr>"

definition sample_draws :: draws where
  "sample_draws = \<lparr>dr_org = [3], dr_user = [4], dr_token = [94], dr_group = [32], dr_doc = (\<lambda>i. [43 + i]), dr_job = (\<lambda>i. [53 + i]),
     dr_clock = (\<lambda>_. 5), dr_frames = 9\<rparr>"

theorem no_session_no_access_witness:
  "snd (serve sample_env anonymous_request sample_draws (GetDocument [41]) sample_server) = sample_server"
proof -
  have "current_ctx sample_env anonymous_request (sv_db sample_server) = Inl (AuthError (ascii ''missing bearer token''))"
    by (simp add: current_ctx_def bearer_token_def anonymous_request_def)
  from no_session_no_access [OF this, of "GetDocument [41]" sample_draws] show ?thesis by simp
qed

lemma lacks_role:
  assumes "\<not> role_at_least (ctx_role ctx) r"
  shows "\<exists>m. require_role ctx r = Inl (Forbidden m)"
  using assms by (simp add: require_role_def check_def)

text \<open>
  C24.  The authorisation matrix: a signed-in caller whose role is below the one an endpoint asks
  for is refused with 403, or with 422 when the body is not even valid, and the database is left
  as it was.
\<close>

theorem role_matrix:
  assumes ctx: "current_ctx E rq (sv_db sv) = Inr (token, ctx)"
    and "required_role ep = Some r" and "\<not> role_at_least (ctx_role ctx) r"
  shows "fst (serve E rq d ep sv) \<in> {403, 422} \<and> sv_db (snd (serve E rq d ep sv)) = sv_db sv"
proof -
  obtain m where m: "require_role ctx r = Inl (Forbidden m)" using lacks_role [OF assms(3)] by blast
  then show ?thesis
    using assms(2)
    by (cases ep)
      (auto simp: endpoint_defs coded_def signed_in_Inr [OF ctx] validated_def respond_def reading_def committing_def
        add_member_route_def require_can_grant_def set_member_role_route_def set_member_role_def
        remove_member_route_def remove_member_def create_group_def delete_group_def add_group_member_by_email_def
        remove_group_member_def upload_folder_def sync_source_def delete_document_route_def delete_document_def
        update_document_acl_route_def update_document_acl_def export_def delete_org_route_def count_audit_def
        usage_summary_def call_def no_result_def)
qed

theorem role_matrix_witness:
  "fst (serve sample_env (anonymous_request\<lparr>rq_authorization := Some (ascii ''bearer '' @ [95])\<rparr>) sample_draws
     DeleteOrg (sample_server\<lparr>sv_db := sample_db\<lparr>sessions := [\<lparr>s_token = [95], s_user = [12], s_org = [1], s_expires = 100\<rparr>]\<rparr>\<rparr>))
   \<in> {403, 422}"
proof -
  let ?rq = "anonymous_request\<lparr>rq_authorization := Some (ascii ''bearer '' @ [95])\<rparr>"
  let ?sv = "sample_server\<lparr>sv_db := sample_db\<lparr>sessions := [\<lparr>s_token = [95], s_user = [12], s_org = [1], s_expires = 100\<rparr>]\<rparr>\<rparr>"
  have "current_ctx sample_env ?rq (sv_db ?sv) = Inr ([95], acme_member)"
    by (simp add: current_ctx_Inr bearer_token_def resolve_session_def anonymous_request_def strip_def lstrip_def is_space_def
        sample_defs)
  from role_matrix [OF this, of DeleteOrg r_owner sample_draws] show ?thesis
    by (simp add: acme_member_def role_at_least_def)
qed

section \<open>Requests as steps\<close>

lemma tenant_requestI:
  "tenant_request E ctx s (snd (change_password_route E ctx current new raw now s))"
  "tenant_request E ctx s (snd (add_member_route E ctx email password role u now s))"
  "tenant_request E ctx s (snd (set_member_role_route E ctx uid role now s))"
  "tenant_request E ctx s (snd (remove_member_route E ctx uid now s))"
  "tenant_request E ctx s (snd (upload_folder E ctx items fd fj now clock s))"
  "tenant_request E ctx s (snd (delete_document_route E ctx i now s))"
  "tenant_request E ctx s (snd (update_document_acl_route E ctx i acl now s))"
  "tenant_request E ctx s (snd (delete_org_route ctx s))"
  "tenant_request E ctx s (snd (answer_stream E ctx q clock n s))"
  by (rule tenant_request.intros, rule prod.collapse [symmetric])+

lemma committed:
  assumes "\<And>x s'. m = Inr (x, s') \<Longrightarrow> tenant_request E ctx (sv_db sv) s'"
  shows "sv_db (snd (committing code m sv)) = sv_db sv \<or> tenant_request E ctx (sv_db sv) (sv_db (snd (committing code m sv)))"
  using assms by (auto simp: committing_db split: sum.split prod.split)

lemma signed_in_step:
  assumes ctx: "current_ctx E rq (sv_db sv) = Inr (token, ctx)" and "\<not> anonymous ep"
  shows "sv_db (snd (serve E rq d ep sv)) = sv_db sv
    \<or> tenant_request E ctx (sv_db sv) (sv_db (snd (serve E rq d ep sv)))"
proof (cases ep)
  case (ChangePassword current new)
  obtain rep sv' where run: "throttled E rq sv (\<lambda>sv. validated (ChangePasswordRequest current new) sv
     (respond 204 (change_password_route E ctx current new token (rq_now rq) (sv_db sv)) sv)) = (rep, sv')"
    by (metis prod.collapse)
  then have "sv_db sv' = sv_db sv \<or> tenant_request E ctx (sv_db sv) (sv_db sv')"
  proof (cases rule: throttled_cases)
    case (passed sv1)
    then have "sv_db sv' = (if ChangePasswordRequest current new
        then snd (change_password_route E ctx current new token (rq_now rq) (sv_db sv)) else sv_db sv)"
      by (metis respond_db snd_conv validated_db)
    then show ?thesis by (simp add: tenant_requestI)
  qed simp
  with ChangePassword run show ?thesis by (simp add: endpoint_defs coded_def signed_in_Inr [OF ctx])
next
  case (CreateGroup name)
  then show ?thesis
    using committed [of "create_group ctx name (dr_group d) (rq_now rq) (sv_db sv)" E ctx sv]
    by (simp add: endpoint_defs coded_def signed_in_Inr [OF ctx] validated_db tenant_request.create_group)
next
  case (DeleteGroup gid)
  then show ?thesis
    using committed [of "no_result (delete_group (e_uuid E) ctx gid (sv_db sv))" E ctx sv]
    by (simp add: endpoint_defs coded_def signed_in_Inr [OF ctx] tenant_request.delete_group no_result_Inr)
next
  case (AddGroupMember gid email)
  then show ?thesis
    using committed [of "add_group_member_by_email (e_uuid E) (e_lower E) ctx gid email (sv_db sv)" E ctx sv]
    by (simp add: endpoint_defs coded_def signed_in_Inr [OF ctx] validated_db tenant_request.add_group_member)
next
  case (RemoveGroupMember gid uid)
  then show ?thesis
    using committed [of "no_result (remove_group_member (e_uuid E) ctx gid uid (sv_db sv))" E ctx sv]
    by (simp add: endpoint_defs coded_def signed_in_Inr [OF ctx] tenant_request.remove_group_member no_result_Inr)
next
  case (Feedback i rating remark)
  then show ?thesis
    using committed [of "no_result (add_feedback (e_uuid E) ctx i rating remark (sv_db sv))" E ctx sv]
    by (simp add: endpoint_defs coded_def signed_in_Inr [OF ctx] validated_db tenant_request.feedback no_result_Inr)
next
  case (Ask q k)
  then show ?thesis
    by (auto simp: endpoint_defs coded_def signed_in_Inr [OF ctx] validated_def Let_def case_prod_beta tenant_requestI)
qed (use assms(2) in \<open>simp_all add: endpoint_defs coded_def signed_in_Inr [OF ctx] validated_db respond_db tenant_requestI\<close>)

lemma signed_out_same:
  "current_ctx E rq (sv_db sv) = Inl e \<Longrightarrow> \<not> anonymous ep \<Longrightarrow> snd (serve E rq d ep sv) = sv"
  by (cases ep) (simp_all add: endpoint_defs coded_def signed_in_Inl)

lemma anonymous_step:
  assumes "anonymous ep" and "db_ok (sv_db sv)"
  shows "sv_db (snd (serve E rq d ep sv)) = sv_db sv
    \<or> (\<exists>org. desk_step E (Some org) (sv_db sv) (sv_db (snd (serve E rq d ep sv))))"
proof (cases ep)
  case (Signup slug name email password)
  obtain rep sv' where run: "signup_endpoint E rq slug name email password (dr_org d) (dr_user d) (dr_token d) sv = (rep, sv')"
    by (metis prod.collapse)
  then have "sv_db sv' = sv_db sv \<or> desk_step E (Some (dr_org d)) (sv_db sv) (sv_db sv')"
    unfolding signup_endpoint_def
  proof (cases rule: throttled_cases)
    case (passed sv1)
    then have "sv_db sv' = (if SignupRequest (e_unicode E) slug name email password
        then snd (signup E slug name email password (dr_org d) (dr_user d) (dr_token d) (rq_now rq) (sv_db sv)) else sv_db sv)"
      by (metis respond_db snd_conv validated_db)
    then show ?thesis using desk_step.signing_up [OF prod.collapse [symmetric]] by simp
  qed simp
  with Signup run show ?thesis by (auto simp: coded_def)
next
  case (Login email password slug)
  obtain rep sv' where run: "login_endpoint E rq email password slug (dr_token d) sv = (rep, sv')"
    by (metis prod.collapse)
  then have "sv_db sv' = sv_db sv \<or> (\<exists>org. desk_step E (Some org) (sv_db sv) (sv_db sv'))"
    unfolding login_endpoint_def
  proof (cases rule: throttled_cases)
    case (passed sv1)
    then have sv': "sv_db sv' = (if LoginRequest email password
        then snd (login E email password slug (dr_token d) (rq_now rq) (sv_db sv)) else sv_db sv)"
      by (metis respond_db snd_conv validated_db)
    show ?thesis
    proof (cases "authenticate (e_lower E) (e_verify E) email password slug (sv_db sv)")
      case (Inl e)
      with sv' show ?thesis by (simp add: login_def)
    next
      case (Inr ctx)
      with sv' desk_step.logging_in [OF Inr prod.collapse [symmetric]] show ?thesis by auto
    qed
  qed simp
  with Login run show ?thesis by (simp add: coded_def)
next
  case Logout
  show ?thesis
  proof (cases "bearer_token E rq")
    case (Inr token)
    let ?mine = "\<lambda>x. s_token x = e_hash_token E token"
    show ?thesis
    proof (cases "\<exists>x\<in>set (sessions (sv_db sv)). ?mine x")
      case True
      then obtain x where x: "x \<in> set (sessions (sv_db sv))" "?mine x" by blast
      have "distinct (map s_token (sessions (sv_db sv)))" using assms(2) by (simp add: db_ok_def keys_ok_def)
      then have "\<forall>y\<in>set (sessions (sv_db sv)). ?mine y \<longrightarrow> s_org y = s_org x"
        using x distinct_key_eq by metis
      from desk_step.logging_out [OF this] Inr Logout show ?thesis by (auto simp: coded_def logout_def)
    next
      case False
      then have "delete_session (e_hash_token E) token (sv_db sv) = sv_db sv"
        by (simp add: delete_session_def delete_where_def filter_id_conv)
      with Inr Logout show ?thesis by (simp add: coded_def logout_def)
    qed
  qed (simp add: Logout coded_def logout_def)
qed (use assms(1) in \<open>simp_all add: coded_def\<close>)



end
