(* ===== verification/AssistantLaws.thy ===== *)
theory AssistantLaws
  imports Assistant Sample
begin

text \<open>
  What an asked question costs and shows.  \<open>answer_provider\<close> is the contract of
  \<open>providers.py\<close>: tokens, then the usage, last and at most once.  \<open>ask_inv\<close> relates the frames a
  caller has seen to the generator and to the ledger; every \<open>next()\<close> keeps it.
\<close>

section \<open>The contract of a provider\<close>

fun events_ok :: "event list \<Rightarrow> bool" where
  "events_ok [] \<longleftrightarrow> True"
| "events_ok (TokenEv t # es) \<longleftrightarrow> events_ok es"
| "events_ok (UsageEv i out c # es) \<longleftrightarrow> es = []"

lemma events_ok_tokens: "events_ok (map TokenEv ts @ es) \<longleftrightarrow> events_ok es"
  by (induction ts) auto

locale answer_provider =
  fixes stream :: "pystr \<Rightarrow> pystr \<Rightarrow> passage list \<Rightarrow> answer_stream_out"
  assumes usage_last: "events_ok (fst (stream nonce question contexts))"
    and usage_unless_raised: "snd (stream nonce question contexts) = None \<Longrightarrow>
      \<exists>i out c. UsageEv i out c \<in> set (fst (stream nonce question contexts))"
begin

lemma returned_stream:
  assumes "stream nonce question contexts = (es, None)"
  shows "\<exists>ts i out c. es = map TokenEv ts @ [UsageEv i out c]"
proof -
  obtain i out c where "UsageEv i out c \<in> set es" "events_ok es"
    using usage_last [of nonce question contexts] usage_unless_raised [of nonce question contexts] assms by auto
  then show ?thesis
  proof (induction es rule: events_ok.induct)
    case (2 t es)
    then obtain ts i out c where "es = map TokenEv ts @ [UsageEv i out c]" by auto
    then have "TokenEv t # es = map TokenEv (t # ts) @ [UsageEv i out c]" by simp
    then show ?case by blast
  next
    case (3 i' out' c' es)
    then have "UsageEv i' out' c' # es = map TokenEv [] @ [UsageEv i' out' c']" by simp
    then show ?case by blast
  qed simp
qed

end

interpretation mock: answer_provider "mock_stream U"
proof
  show "events_ok (fst (mock_stream U nonce question contexts))" for nonce question contexts
    using events_ok_tokens [of "map (\<lambda>w. w @ ascii '' '') (split_words (mock_answer contexts))"]
    by (simp add: mock_stream_def tokens_of_def comp_def)
qed (auto simp: mock_stream_def)

interpretation claude: answer_provider "claude_stream U round6 client model"
proof
  show "events_ok (fst (claude_stream U round6 client model nonce question contexts))" for nonce question contexts
    using events_ok_tokens [of _ "[]"] events_ok_tokens [of _ "[UsageEv _ _ _]"]
    by (auto simp: claude_stream_def split: prod.splits sum.splits)
qed (auto simp: claude_stream_def split: prod.splits sum.splits)

lemma provider_events_ok: "events_ok (fst (p_stream (get_answer_provider E) nonce question contexts))"
  by (simp add: get_answer_provider_def mock.usage_last claude.usage_last split: option.split)

lemma provider_returned:
  assumes "p_stream (get_answer_provider E) nonce question contexts = (es, None)"
  shows "\<exists>ts i out c. es = map TokenEv ts @ [UsageEv i out c]"
  using assms mock.returned_stream claude.returned_stream
  by (auto simp: get_answer_provider_def split: option.splits)

section \<open>The ledger\<close>

definition spent :: "db \<Rightarrow> real" where
  "spent s = sum_list (map ps_cost (platform_spend s))"

lemma log_event_ledger [simp]:
  "answers (log_event E ctx action detail now s) = answers s"
  "platform_spend (log_event E ctx action detail now s) = platform_spend s"
  by (simp_all add: log_event_def audit_def insert_audit_def)

lemma spent_log_event [simp]: "spent (log_event E ctx action detail now s) = spent s"
  by (simp add: spent_def)

lemma add_spend_sum:
  assumes "distinct (map ps_day rows)"
  shows "sum_list (map ps_cost (add_spend day paid rows)) = sum_list (map ps_cost rows) + paid"
proof -
  have "sum_list (map ps_cost (update_where (\<lambda>p. ps_day p = day) (\<lambda>p. p\<lparr>ps_cost := ps_cost p + paid\<rparr>) rows))
      = sum_list (map ps_cost rows) + (if day \<in> ps_day ` set rows then paid else 0)"
    using assms by (induction rows) (auto simp: update_where_def)
  then show ?thesis by (auto simp: add_spend_def exists_where_iff)
qed

lemma update_last:
  assumes "a \<notin> a_id ` set rows" "P row" "\<And>r. P r \<Longrightarrow> a_id r = a"
  shows "update_where P f (rows @ [row]) = rows @ [f row]"
proof -
  have "update_where P f rows = rows"
    using assms(1,3) unfolding update_where_def by (intro map_idI) (auto split: if_splits)
  then show ?thesis using assms(2) by (simp add: update_where_def)
qed


definition entry_ok :: "auth_context \<Rightarrow> pystr \<Rightarrow> db \<Rightarrow> db \<Rightarrow> real \<Rightarrow> bool \<Rightarrow> bool" where
  "entry_ok ctx a s0 s paid est \<longleftrightarrow>
     a \<notin> a_id ` set (answers s0) \<and>
     (\<exists>row. answers s = answers s0 @ [row] \<and> a_id row = a \<and> a_org row = ctx_org ctx \<and> a_cost row = paid
        \<and> a_estimated row = est)"

text \<open>One new answer at this price, and the day's spend up by as much; or no answer and no spend.\<close>

definition ledger_ok :: "auth_context \<Rightarrow> pystr \<Rightarrow> db \<Rightarrow> bool \<Rightarrow> real \<Rightarrow> bool \<Rightarrow> db \<Rightarrow> bool" where
  "ledger_ok ctx a s0 opened paid est s \<longleftrightarrow>
     distinct (map ps_day (platform_spend s)) \<and> spent s = spent s0 + paid
     \<and> (if opened then entry_ok ctx a s0 s paid est else answers s = answers s0 \<and> paid = 0)"

lemma ledger_ok_log [simp]:
  "ledger_ok ctx a s0 opened paid est (log_event E ctx' action detail now s) = ledger_ok ctx a s0 opened paid est s"
  by (simp add: ledger_ok_def entry_ok_def)

lemma ledger_ok_record:
  assumes "record_answer ctx q p refused fresh now s = Inr (i, s')" "distinct (map ps_day (platform_spend s))"
  shows "i = fresh" "ledger_ok ctx fresh s True 0 False s'"
  using record_answer_Inr [OF assms(1)] assms(2) by (simp_all add: ledger_ok_def entry_ok_def spent_def)

text \<open>A scoped update of the answer that was opened, leaving the rest of its row's ledger fields to \<open>f\<close>.\<close>

lemma ledger_ok_update:
  assumes "ledger_ok ctx a s0 True c e s"
    and f: "\<And>r. a_id (f r) = a_id r" "\<And>r. a_org (f r) = a_org r"
      "\<And>r. a_cost r = c \<Longrightarrow> a_cost (f r) = paid" "\<And>r. a_estimated r = e \<Longrightarrow> a_estimated (f r) = est"
    and s': "answers s' = update_where (scoped ctx a_org (\<lambda>r. a_id r = a)) f (answers s)"
      "distinct (map ps_day (platform_spend s'))" "spent s' = spent s0 + paid"
  shows "ledger_ok ctx a s0 True paid est s'"
proof -
  obtain row where row: "a \<notin> a_id ` set (answers s0)" "answers s = answers s0 @ [row]" "a_id row = a"
    "a_org row = ctx_org ctx" "a_cost row = c" "a_estimated row = e"
    using assms(1) unfolding ledger_ok_def entry_ok_def by auto
  have "update_where (scoped ctx a_org (\<lambda>r. a_id r = a)) f (answers s0 @ [row]) = answers s0 @ [f row]"
    by (rule update_last [OF row(1)]) (use row in \<open>simp_all add: scoped_iff\<close>)
  then have "answers s' = answers s0 @ [f row]" using s'(1) row(2) by simp
  with row(1) f row(3-6) have "entry_ok ctx a s0 s' paid est" unfolding entry_ok_def by auto
  with s'(2,3) show ?thesis by (simp add: ledger_ok_def)
qed

lemma ledger_ok_blocked:
  assumes "mark_blocked pg ctx a s = Inr s'" "pg a = Some a" and led: "ledger_ok ctx a s0 True paid est s"
  shows "ledger_ok ctx a s0 True paid est s'"
proof -
  have s': "s' = s\<lparr>answers := update_where (scoped ctx a_org (\<lambda>r. a_id r = a)) (\<lambda>r. r\<lparr>a_blocked := True\<rparr>) (answers s)\<rparr>"
    using assms(1,2) unfolding mark_blocked_def by (auto simp: result_simps)
  have "distinct (map ps_day (platform_spend s))" "spent s = spent s0 + paid"
    using led unfolding ledger_ok_def by auto
  then show ?thesis
    by (intro ledger_ok_update [OF led, where f = "\<lambda>r. r\<lparr>a_blocked := True\<rparr>"]) (simp_all add: s' spent_def)
qed

lemma ledger_ok_finalize:
  assumes "finalize_answer pg day_of ctx a i out paid est now s = Inr s'" "pg a = Some a"
    and led: "ledger_ok ctx a s0 True 0 False s"
  shows "ledger_ok ctx a s0 True paid est s'"
proof -
  let ?f = "\<lambda>r. r\<lparr>a_input := i, a_output := out, a_cost := paid, a_estimated := est\<rparr>"
  have s': "s' = s\<lparr>answers := update_where (scoped ctx a_org (\<lambda>r. a_id r = a)) ?f (answers s),
              platform_spend := add_spend (day_of now) paid (platform_spend s)\<rparr>"
    using assms(1,2) unfolding finalize_answer_def by (auto simp: result_simps)
  have "distinct (map ps_day (platform_spend s))" "spent s = spent s0"
    using led unfolding ledger_ok_def by auto
  then show ?thesis
    by (intro ledger_ok_update [OF led, where f = ?f]) (simp_all add: s' spent_def add_spend_sum add_spend_days)
qed

lemma finalize_answer_returns: "pg a = Some a \<Longrightarrow> \<exists>s'. finalize_answer pg day_of ctx a i out paid est now s = Inr s'"
  by (simp add: finalize_answer_def result_simps uuid_arg_def)

section \<open>What the caller has seen\<close>

definition tokens :: "frame list \<Rightarrow> pystr list" where
  "tokens fs = concat (map (\<lambda>f. case f of Token t \<Rightarrow> [t] | _ \<Rightarrow> []) fs)"

definition dones :: "frame list \<Rightarrow> real list" where
  "dones fs = concat (map (\<lambda>f. case f of Done i out c w \<Rightarrow> [c] | _ \<Rightarrow> []) fs)"

text \<open>Sources come before the model's tokens and never before a refusal's.\<close>

definition sourced :: "frame list \<Rightarrow> bool" where
  "sourced fs = list_ex (\<lambda>f. case f of Sources src \<Rightarrow> True | _ \<Rightarrow> False) fs"

definition model_text :: "frame list \<Rightarrow> pystr list" where
  "model_text fs = (if sourced fs then tokens fs else [])"

definition cut_short :: "frame list \<Rightarrow> bool" where
  "cut_short fs \<longleftrightarrow> dones fs = [] \<and> model_text fs \<noteq> []"

definition charge :: "env \<Rightarrow> ask_in \<Rightarrow> hit list \<Rightarrow> frame list \<Rightarrow> real" where
  "charge E q hits fs =
     (if cut_short fs
      then snd (snd (p_estimate (get_answer_provider E) (q_estimate_nonce q) (q_question q) (context_of hits)
                       (concat (model_text fs))))
      else sum_list (dones fs))"

lemma seen_frame [simp]:
  "tokens [] = []" "dones [] = []" "\<not> sourced []"
  "tokens [Meta a b] = []" "tokens [Sources src] = []" "tokens [Token t] = [t]" "tokens [Done i out c w] = []"
  "tokens [ErrorFrame m] = []" "dones [Meta a b] = []" "dones [Sources src] = []" "dones [Token t] = []"
  "dones [Done i out c w] = [c]" "dones [ErrorFrame m] = []" "\<not> sourced [Meta a b]" "sourced [Sources src]"
  "\<not> sourced [Token t]" "\<not> sourced [Done i out c w]" "\<not> sourced [ErrorFrame m]"
  by (simp_all add: tokens_def dones_def sourced_def)

lemma seen_append [simp]:
  "tokens (fs @ gs) = tokens fs @ tokens gs" "dones (fs @ gs) = dones fs @ dones gs"
  "sourced (fs @ gs) \<longleftrightarrow> sourced fs \<or> sourced gs"
  by (simp_all add: tokens_def dones_def sourced_def)

definition allowed_hits :: "env \<Rightarrow> auth_context \<Rightarrow> ask_in \<Rightarrow> db \<Rightarrow> hit list" where
  "allowed_hits E ctx q s =
     (case retrieve (e_embed_query E) (e_cosine E) ctx (q_question q) (q_k q) s of Inl e \<Rightarrow> [] | Inr hits \<Rightarrow> hits)"

definition booked :: "env \<Rightarrow> auth_context \<Rightarrow> ask_in \<Rightarrow> db \<Rightarrow> frame list \<Rightarrow> bool \<Rightarrow> db \<Rightarrow> bool" where
  "booked E ctx q s0 fs opened s \<longleftrightarrow>
     ledger_ok ctx (q_answer q) s0 opened (charge E q (allowed_hits E ctx q s0) fs) (cut_short fs) s"

fun point_ok :: "point \<Rightarrow> frame list \<Rightarrow> bool" where
  "point_ok Fresh fs \<longleftrightarrow> fs = []"
| "point_ok (BlockedMeta reason) fs \<longleftrightarrow> \<not> sourced fs \<and> dones fs = []"
| "point_ok BlockedError fs \<longleftrightarrow> \<not> sourced fs \<and> dones fs = []"
| "point_ok Answering fs \<longleftrightarrow> \<not> sourced fs \<and> dones fs = [] \<and> tokens fs = []"
| "point_ok (Refusing ws) fs \<longleftrightarrow> \<not> sourced fs \<and> dones fs = []"
| "point_ok RefusalDone fs \<longleftrightarrow> \<not> sourced fs"
| "point_ok AfterSources fs \<longleftrightarrow> sourced fs \<and> dones fs = [] \<and> tokens fs = []"
| "point_ok (Streaming es ending) fs \<longleftrightarrow> sourced fs \<and> events_ok es \<and> (dones fs \<noteq> [] \<longrightarrow> es = [])"
| "point_ok Failed fs \<longleftrightarrow> True"
| "point_ok Ended fs \<longleftrightarrow> True"

definition gen_ok :: "ask_in \<Rightarrow> frame list \<Rightarrow> asking \<Rightarrow> bool" where
  "gen_ok q fs g \<longleftrightarrow>
     g_streamed g = model_text fs \<and> (g_billed g \<longleftrightarrow> sourced fs \<and> dones fs \<noteq> [])
     \<and> g_answer g = (if g_point g \<in> {Fresh} \<or> g_answer g = None then None else Some (q_answer q))
     \<and> (g_answer g = None \<longrightarrow> g_point g \<in> {Fresh, Failed, Ended} \<and> \<not> sourced fs \<and> dones fs = [])
     \<and> point_ok (g_point g) fs"

definition ask_inv :: "env \<Rightarrow> auth_context \<Rightarrow> ask_in \<Rightarrow> db \<Rightarrow> frame list \<Rightarrow> asking \<Rightarrow> db \<Rightarrow> bool" where
  "ask_inv E ctx q s0 fs g s \<longleftrightarrow>
     gen_ok q fs g \<and> (sourced fs \<longrightarrow> g_contexts g = allowed_hits E ctx q s0)
     \<and> (g_point g = Fresh \<longrightarrow> s = s0)
     \<and> (g_point g = Answering \<longrightarrow> g_contexts g = allowed_hits E ctx q s0)
     \<and> (if g_point g = Ended then booked E ctx q s0 fs (g_answer g \<noteq> None) s
        else ledger_ok ctx (q_answer q) s0 (g_answer g \<noteq> None) (sum_list (dones fs)) False s)"

lemma ask_inv_new:
  assumes "distinct (map ps_day (platform_spend s))"
  shows "ask_inv E ctx q s [] new_asking s"
  using assms by (simp add: ask_inv_def gen_ok_def new_asking_def model_text_def ledger_ok_def)

text \<open>The \<open>finally\<close> block books what \<open>charge\<close> says, and does not raise.\<close>

lemma settle_books:
  assumes inv: "ask_inv E ctx q s0 fs g s" and pt: "g_point g \<noteq> Ended" and id: "e_uuid E (q_answer q) = Some (q_answer q)"
  shows "\<exists>s'. settle E ctx q g now s = Inr s' \<and> booked E ctx q s0 fs (g_answer g \<noteq> None) s'"
proof (cases "g_answer g")
  case None
  with inv pt have "\<not> sourced fs" "dones fs = []" "ledger_ok ctx (q_answer q) s0 False 0 False s"
    by (auto simp: ask_inv_def gen_ok_def)
  with None show ?thesis by (simp add: settle_def booked_def charge_def cut_short_def model_text_def)
next
  case (Some a)
  with inv pt have a: "a = q_answer q" and led: "ledger_ok ctx (q_answer q) s0 True (sum_list (dones fs)) False s"
    and streamed: "g_streamed g = model_text fs" and billed: "g_billed g \<longleftrightarrow> sourced fs \<and> dones fs \<noteq> []"
    by (auto simp: ask_inv_def gen_ok_def split: if_splits)
  show ?thesis
  proof (cases "g_billed g \<or> g_streamed g = []")
    case True
    with streamed billed have "\<not> cut_short fs" by (auto simp: cut_short_def model_text_def)
    with led True Some show ?thesis by (simp add: settle_def booked_def charge_def)
  next
    case False
    with streamed have "sourced fs" by (auto simp: model_text_def split: if_splits)
    with False billed streamed have cut: "cut_short fs" and "g_contexts g = allowed_hits E ctx q s0"
      using inv by (auto simp: cut_short_def ask_inv_def)
    then have est: "settle E ctx q g now s =
        (let (i, out, paid) = p_estimate (get_answer_provider E) (q_estimate_nonce q) (q_question q)
             (context_of (allowed_hits E ctx q s0)) (concat (model_text fs))
         in finalize_answer (e_uuid E) (e_day_of E) ctx (q_answer q) i out paid True now s)"
      using False Some a streamed by (simp add: settle_def)
    obtain i out paid where p: "p_estimate (get_answer_provider E) (q_estimate_nonce q) (q_question q)
             (context_of (allowed_hits E ctx q s0)) (concat (model_text fs)) = (i, out, paid)"
      by (metis prod_cases3)
    obtain s' where fin: "finalize_answer (e_uuid E) (e_day_of E) ctx (q_answer q) i out paid True now s = Inr s'"
      using finalize_answer_returns id by blast
    have "ledger_ok ctx (q_answer q) s0 True 0 False s" using led cut by (simp add: cut_short_def)
    from ledger_ok_finalize [OF fin id this] cut p Some have "booked E ctx q s0 fs (g_answer g \<noteq> None) s'"
      by (simp add: booked_def charge_def)
    with est p fin show ?thesis by simp
  qed
qed

section \<open>Every step keeps the account\<close>

definition seen :: "frame option \<Rightarrow> frame list" where
  "seen f = (case f of None \<Rightarrow> [] | Some x \<Rightarrow> [x])"

lemma seen_option [simp]: "seen None = []" "seen (Some f) = [f]"
  by (simp_all add: seen_def)

definition keeps :: "env \<Rightarrow> auth_context \<Rightarrow> ask_in \<Rightarrow> db \<Rightarrow> frame list \<Rightarrow> exc + resumed \<Rightarrow> bool" where
  "keeps E ctx q s0 fs m \<longleftrightarrow>
     (\<exists>f g s. m = Inr (f, g, s) \<and> ask_inv E ctx q s0 (fs @ seen f) g s \<and> (f = None \<longleftrightarrow> g_point g = Ended))"

lemma keepsI: "ask_inv E ctx q s0 (fs @ [f]) g s \<Longrightarrow> g_point g \<noteq> Ended \<Longrightarrow> keeps E ctx q s0 fs (Inr (Some f, g, s))"
  by (force simp: keeps_def)

text \<open>Moving to another point with a frame that is neither a token nor the end.\<close>

lemma caught_keeps:
  assumes "gen_ok q fs (g\<lparr>g_point := Failed\<rparr>)" "sourced fs \<longrightarrow> g_contexts g = allowed_hits E ctx q s0"
    and "ledger_ok ctx (q_answer q) s0 (g_answer g \<noteq> None) (sum_list (dones fs)) False s"
  shows "keeps E ctx q s0 fs (caught q g e s)"
  unfolding caught_def by (rule keepsI) (use assms in \<open>auto simp: ask_inv_def gen_ok_def model_text_def\<close>)

lemma finish_keeps:
  assumes inv: "ask_inv E ctx q s0 fs g s" and pt: "g_point g \<noteq> Ended" "g_point g \<noteq> Fresh"
    and id: "e_uuid E (q_answer q) = Some (q_answer q)"
  shows "keeps E ctx q s0 fs (finish E ctx q g now s)"
proof -
  obtain s' where "settle E ctx q g now s = Inr s'" "booked E ctx q s0 fs (g_answer g \<noteq> None) s'"
    using settle_books [OF inv pt(1) id] by blast
  with inv pt have "finish E ctx q g now s = Inr (None, g\<lparr>g_point := Ended\<rparr>, s')"
    and "ask_inv E ctx q s0 fs (g\<lparr>g_point := Ended\<rparr>) s'"
    by (auto simp: finish_def ask_inv_def gen_ok_def)
  then show ?thesis by (simp add: keeps_def)
qed

lemma blocked_start_keeps:
  assumes s0: "distinct (map ps_day (platform_spend s0))" and id: "e_uuid E (q_answer q) = Some (q_answer q)"
  shows "keeps E ctx q s0 [] (blocked_start E ctx q new_asking reason now s0)"
proof (cases "record_answer ctx (q_question q) (p_name (get_answer_provider E)) False (q_answer q) now s0")
  case (Inl e)
  then have "blocked_start E ctx q new_asking reason now s0 = caught q new_asking e s0"
    by (simp add: blocked_start_def)
  moreover have "keeps E ctx q s0 [] (caught q new_asking e s0)"
    by (rule caught_keeps) (simp_all add: gen_ok_def new_asking_def model_text_def ledger_ok_def s0)
  ultimately show ?thesis by simp
next
  case (Inr r)
  obtain a s1 where "r = (a, s1)" by (cases r)
  with Inr have rec: "record_answer ctx (q_question q) (p_name (get_answer_provider E)) False (q_answer q) now s0 = Inr (a, s1)" by simp
  note led = ledger_ok_record [OF rec s0]
  obtain s2 where s2: "mark_blocked (e_uuid E) ctx a s1 = Inr s2"
    using id led(1) by (simp add: mark_blocked_def uuid_arg_def)
  have "ledger_ok ctx (q_answer q) s0 True 0 False s2"
    using ledger_ok_blocked [OF s2 _ led(2) [folded led(1)]] id led(1) by simp
  then have "keeps E ctx q s0 [] (Inr (Some (Meta a (p_name (get_answer_provider E))),
      new_asking\<lparr>g_answer := Some a, g_point := BlockedMeta reason\<rparr>,
      log_event E ctx (ascii ''question.blocked'') [(ascii ''answer_id'', JStr a), (ascii ''reason'', JStr reason)] now s2))"
    using led(1)
    by (intro keepsI) (simp_all add: ask_inv_def gen_ok_def new_asking_def model_text_def)
  then show ?thesis by (simp add: blocked_start_def rec s2)
qed

lemma answer_start_keeps:
  assumes s0: "distinct (map ps_day (platform_spend s0))"
  shows "keeps E ctx q s0 [] (answer_start E ctx q new_asking now s0)"
proof (cases "retrieve (e_embed_query E) (e_cosine E) ctx (q_question q) (q_k q) s0")
  case (Inl e)
  then have "answer_start E ctx q new_asking now s0 = caught q new_asking e s0"
    by (simp add: answer_start_def)
  moreover have "keeps E ctx q s0 [] (caught q new_asking e s0)"
    by (rule caught_keeps) (simp_all add: gen_ok_def new_asking_def model_text_def ledger_ok_def s0)
  ultimately show ?thesis by simp
next
  case hits: (Inr hits)
  let ?g = "new_asking\<lparr>g_contexts := hits\<rparr>" and ?p = "p_name (get_answer_provider E)"
  show ?thesis
  proof (cases "record_answer ctx (q_question q) ?p (hits = []) (q_answer q) now s0")
    case (Inl e)
    then have "answer_start E ctx q new_asking now s0 = caught q ?g e s0"
      using hits by (simp add: answer_start_def)
    moreover have "keeps E ctx q s0 [] (caught q ?g e s0)"
      by (rule caught_keeps) (simp_all add: gen_ok_def new_asking_def model_text_def ledger_ok_def s0)
    ultimately show ?thesis by simp
  next
    case (Inr r)
    obtain a s1 where "r = (a, s1)" by (cases r)
    with Inr have rec: "record_answer ctx (q_question q) ?p (hits = []) (q_answer q) now s0 = Inr (a, s1)" by simp
    note led = ledger_ok_record [OF rec s0]
    obtain s3 where s3: "answer_start E ctx q new_asking now s0
        = Inr (Some (Meta a ?p), ?g\<lparr>g_answer := Some a, g_point := Answering\<rparr>, s3)"
      and "ledger_ok ctx (q_answer q) s0 True 0 False s3"
      using led by (simp add: answer_start_def hits rec Let_def)
    then have "keeps E ctx q s0 [] (Inr (Some (Meta a ?p), ?g\<lparr>g_answer := Some a, g_point := Answering\<rparr>, s3))"
      using led(1) hits
      by (intro keepsI) (simp_all add: ask_inv_def gen_ok_def new_asking_def model_text_def allowed_hits_def)
    then show ?thesis using s3 by simp
  qed
qed

lemma usage_event_keeps:
  assumes inv: "ask_inv E ctx q s0 fs g s" and id: "e_uuid E (q_answer q) = Some (q_answer q)"
    and a: "g_answer g = Some (q_answer q)" and pt: "g_point g \<noteq> Ended" "g_point g \<noteq> Fresh"
    and open_: "sourced fs" "dones fs = []"
  shows "keeps E ctx q s0 fs (usage_event E ctx q g i out paid [] ending now s)"
proof -
  obtain s1 where s1: "finalize_answer (e_uuid E) (e_day_of E) ctx (q_answer q) i out paid False now s = Inr s1"
    using finalize_answer_returns [where pg = "e_uuid E" and a = "q_answer q"] id by blast
  have "ledger_ok ctx (q_answer q) s0 True 0 False s" using inv pt a open_ by (simp add: ask_inv_def)
  note led = ledger_ok_finalize [OF s1 id this]
  obtain w s2 where s2: "usage_event E ctx q g i out paid [] ending now s
      = Inr (Some (Done i out paid w), g\<lparr>g_billed := True, g_point := Streaming [] ending\<rparr>, s2)"
    and led2: "ledger_ok ctx (q_answer q) s0 True paid False s2"
    using led by (simp add: usage_event_def a s1 Let_def)
  show ?thesis
    unfolding s2 by (rule keepsI) (use inv a pt open_ led2 in \<open>simp_all add: ask_inv_def gen_ok_def model_text_def\<close>)
qed

lemma stream_events_keeps:
  assumes inv: "ask_inv E ctx q s0 fs g s" and id: "e_uuid E (q_answer q) = Some (q_answer q)"
    and pt: "g_point g \<notin> {Ended, Fresh}" and a: "g_answer g \<noteq> None"
    and open_: "sourced fs" "events_ok es" "dones fs \<noteq> [] \<longrightarrow> es = []"
  shows "keeps E ctx q s0 fs (stream_events E ctx q g es ending now s)"
proof -
  have a: "g_answer g = Some (q_answer q)" and "g_contexts g = allowed_hits E ctx q s0"
    using inv a open_(1) by (auto simp: ask_inv_def gen_ok_def split: if_splits)
  show ?thesis
  proof (cases es)
    case Nil
    show ?thesis
    proof (cases ending)
      case None
      with Nil finish_keeps [OF inv _ _ id] pt show ?thesis by simp
    next
      case (Some e)
      have "keeps E ctx q s0 fs (caught q g e s)"
        by (rule caught_keeps) (use inv pt in \<open>simp_all add: ask_inv_def gen_ok_def model_text_def\<close>)
      with Nil Some show ?thesis by simp
    qed
  next
    case (Cons ev rest)
    with open_ have dones: "dones fs = []" by auto
    show ?thesis
    proof (cases ev)
      case (TokenEv t)
      have "keeps E ctx q s0 fs (Inr (Some (Token t), g\<lparr>g_streamed := g_streamed g @ [t], g_point := Streaming rest ending\<rparr>, s))"
        by (rule keepsI) (use inv pt a open_ Cons TokenEv dones in
            \<open>simp_all add: ask_inv_def gen_ok_def model_text_def\<close>)
      with Cons TokenEv show ?thesis by simp
    next
      case (UsageEv i out paid)
      then have "rest = []" using Cons open_(2) by simp
      with usage_event_keeps [OF inv id a _ _ open_(1) dones] pt Cons UsageEv show ?thesis by simp
    qed
  qed
qed

lemma refusal_step_keeps:
  assumes inv: "ask_inv E ctx q s0 fs g s" and pt: "g_point g \<notin> {Ended, Fresh}" and a: "g_answer g \<noteq> None"
    and "\<not> sourced fs" "dones fs = []"
  shows "keeps E ctx q s0 fs (refusal_step g ws s)"
proof (cases ws)
  case Nil
  have "keeps E ctx q s0 fs (Inr (Some (Done 0 0 0 []), g\<lparr>g_point := RefusalDone\<rparr>, s))"
    by (rule keepsI) (use assms in \<open>auto simp: ask_inv_def gen_ok_def model_text_def\<close>)
  with Nil show ?thesis by (simp add: refusal_step_def)
next
  case (Cons w rest)
  have "keeps E ctx q s0 fs (Inr (Some (Token (w @ ascii '' '')), g\<lparr>g_point := Refusing rest\<rparr>, s))"
    by (rule keepsI) (use assms in \<open>auto simp: ask_inv_def gen_ok_def model_text_def\<close>)
  with Cons show ?thesis by (simp add: refusal_step_def)
qed

lemma ask_next_keeps:
  assumes inv: "ask_inv E ctx q s0 fs g s" and s0: "distinct (map ps_day (platform_spend s0))"
    and id: "e_uuid E (q_answer q) = Some (q_answer q)" and new: "g_point g = Fresh \<Longrightarrow> g = new_asking"
  shows "keeps E ctx q s0 fs (ask_next E ctx q g now s)"
proof (cases "g_point g")
  case Fresh
  with inv new have "fs = []" "s = s0" "g = new_asking" by (auto simp: ask_inv_def gen_ok_def)
  with Fresh blocked_start_keeps [OF s0 id] answer_start_keeps [OF s0] show ?thesis
    by (simp add: ask_next_def split: option.split)
next
  case (BlockedMeta reason)
  have "keeps E ctx q s0 fs (Inr (Some (ErrorFrame (ascii ''[LIMIT] request blocked: '' @ reason @ ascii ''. No answer was generated.'')),
               g\<lparr>g_point := BlockedError\<rparr>, s))"
    by (rule keepsI) (use inv BlockedMeta in \<open>auto simp: ask_inv_def gen_ok_def model_text_def\<close>)
  with BlockedMeta show ?thesis by (simp add: ask_next_def)
next
  case Answering
  have a: "g_answer g \<noteq> None" using inv Answering by (auto simp: ask_inv_def gen_ok_def)
  show ?thesis
  proof (cases "g_contexts g = []")
    case True
    with Answering inv a show ?thesis
      by (simp add: ask_next_def) (rule refusal_step_keeps, auto simp: ask_inv_def gen_ok_def)
  next
    case False
    have "keeps E ctx q s0 fs (Inr (Some (Sources (sources_of (g_contexts g))), g\<lparr>g_point := AfterSources\<rparr>, s))"
      by (rule keepsI) (use inv Answering a in \<open>auto simp: ask_inv_def gen_ok_def model_text_def\<close>)
    with Answering False show ?thesis by (simp add: ask_next_def)
  qed
next
  case (Refusing ws)
  with inv show ?thesis
    by (simp add: ask_next_def) (rule refusal_step_keeps, auto simp: ask_inv_def gen_ok_def)
next
  case AfterSources
  let ?s = "p_stream (get_answer_provider E) (q_nonce q) (q_question q) (context_of (g_contexts g))"
  have "keeps E ctx q s0 fs (stream_events E ctx q g (fst ?s) (snd ?s) now s)"
    by (rule stream_events_keeps [OF inv id])
      (use AfterSources inv provider_events_ok in \<open>auto simp: ask_inv_def gen_ok_def\<close>)
  with AfterSources show ?thesis by (simp add: ask_next_def case_prod_beta)
next
  case (Streaming es ending)
  have "keeps E ctx q s0 fs (stream_events E ctx q g es ending now s)"
    by (rule stream_events_keeps [OF inv id]) (use Streaming inv in \<open>auto simp: ask_inv_def gen_ok_def\<close>)
  with Streaming show ?thesis by (simp add: ask_next_def)
next
  case Ended
  with inv show ?thesis by (simp add: ask_next_def keeps_def)
qed (use finish_keeps [OF inv _ _ id] in \<open>simp_all add: ask_next_def\<close>)

lemma finish_Ended: "finish E ctx q g now s = Inr (f, g', s') \<Longrightarrow> g_point g' = Ended"
  by (auto simp: finish_def result_simps)

lemma next_not_fresh:
  assumes "ask_next E ctx q g now s = Inr (f, g', s')"
  shows "g_point g' \<noteq> Fresh"
proof -
  have stream: "g_point g' \<noteq> Fresh" if "stream_events E ctx q g es ending now s = Inr (f, g', s')" for es ending
    using that finish_Ended
    by (cases "(E, ctx, q, g, es, ending, now, s)" rule: stream_events.cases)
      (auto simp: caught_def usage_event_def Let_def split: sum.splits)
  show ?thesis
    using assms stream finish_Ended [of E ctx q g now s f g' s']
    by (auto simp: ask_next_def blocked_start_def answer_start_def caught_def refusal_step_def Let_def
        split: point.splits option.splits sum.splits prod.splits if_splits list.splits)
qed

section \<open>A whole stream\<close>

lemma read_frames_inv:
  assumes "ask_inv E ctx q s0 fs g s" and "distinct (map ps_day (platform_spend s0))"
    and "e_uuid E (q_answer q) = Some (q_answer q)" and "g_point g = Fresh \<Longrightarrow> g = new_asking"
    and "read_frames E ctx q clock i n g s = (fs', g', s')"
  shows "ask_inv E ctx q s0 (fs @ fs') g' s' \<and> (g_point g' = Fresh \<longrightarrow> n = 0 \<and> fs' = [])"
  using assms
proof (induction n arbitrary: i fs g s fs')
  case (Suc n)
  obtain f g1 s1 where step: "ask_next E ctx q g (clock i) s = Inr (f, g1, s1)"
    and inv: "ask_inv E ctx q s0 (fs @ seen f) g1 s1" and stop: "f = None \<longleftrightarrow> g_point g1 = Ended"
    using ask_next_keeps [OF Suc.prems(1-4), of "clock i"] unfolding keeps_def by blast
  show ?case
  proof (cases f)
    case None
    with step Suc.prems(5) inv stop show ?thesis by simp
  next
    case (Some x)
    with step Suc.prems(5) obtain rest where rest: "read_frames E ctx q clock (Suc i) n g1 s1 = (rest, g', s')" "fs' = x # rest"
      by (auto split: prod.splits)
    from Suc.IH [OF inv Suc.prems(2,3) _ rest(1)] next_not_fresh [OF step] Some rest(2) 
    have "ask_inv E ctx q s0 (fs @ fs') g' s'" "g_point g' = Fresh \<longrightarrow> n = 0 \<and> rest = []" by auto
    moreover have "g_point g' \<noteq> Fresh" if "n = 0"
      using that rest(1) next_not_fresh [OF step] by simp
    ultimately show ?thesis by auto
  qed
qed simp

lemma answer_stream_booked:
  assumes "answer_stream E ctx q clock n s = (fs, s')" and days: "distinct (map ps_day (platform_spend s))"
    and id: "e_uuid E (q_answer q) = Some (q_answer q)"
  shows "\<exists>opened. booked E ctx q s fs opened s'"
proof -
  obtain g s1 where run: "read_frames E ctx q clock 0 n new_asking s = (fs, g, s1)"
    and s': "s' = (case ask_close E ctx q g (clock n) s1 of Inl e \<Rightarrow> s1 | Inr s2 \<Rightarrow> s2)"
    using assms(1) by (auto simp: answer_stream_def split: prod.splits)
  have inv: "ask_inv E ctx q s fs g s1" and fresh: "g_point g = Fresh \<longrightarrow> fs = []"
    using read_frames_inv [OF ask_inv_new [OF days] days id _ run] by simp_all
  consider "g_point g = Fresh" | "g_point g = Ended" | "g_point g \<notin> {Fresh, Ended}" by blast
  then show ?thesis
  proof cases
    case 1
    with inv fresh s' have "booked E ctx q s fs False s'"
      by (auto simp: ask_inv_def gen_ok_def ask_close_def booked_def charge_def cut_short_def model_text_def)
    then show ?thesis by blast
  next
    case 2
    with inv s' show ?thesis by (auto simp: ask_inv_def ask_close_def)
  next
    case 3
    then have "ask_close E ctx q g (clock n) s1 = settle E ctx q g (clock n) s1"
      by (auto simp: ask_close_def split: point.splits)
    with settle_books [OF inv _ id, of "clock n"] 3 s' show ?thesis by auto
  qed
qed

text \<open>
  C18.  Every answer is billed exactly once, wherever the client stops reading and however the
  provider ends: the asker's ledger gains one row, or none when nothing was recorded, its price
  is the price in the done frame, or the estimate for the text that was streamed when there is no
  such frame, and the platform's spend grows by the same amount.
\<close>

theorem answer_billed_once:
  assumes "answer_stream E ctx q clock n s = (fs, s')" and "distinct (map ps_day (platform_spend s))"
    and "e_uuid E (q_answer q) = Some (q_answer q)"
  shows "spent s' = spent s + charge E q (allowed_hits E ctx q s) fs
    \<and> (answers s' = answers s \<and> charge E q (allowed_hits E ctx q s) fs = 0
      \<or> (\<exists>row. answers s' = answers s @ [row] \<and> a_id row = q_answer q \<and> a_org row = ctx_org ctx
           \<and> a_cost row = charge E q (allowed_hits E ctx q s) fs \<and> a_estimated row = cut_short fs))"
proof -
  from answer_stream_booked [OF assms] obtain opened where "booked E ctx q s fs opened s'" ..
  then show ?thesis by (cases opened) (auto simp: booked_def ledger_ok_def entry_ok_def)
qed

definition sample_ask :: ask_in where
  "sample_ask = \<lparr>q_question = ascii ''who?'', q_k = 5, q_answer = [77], q_nonce = [48], q_estimate_nonce = [49], q_reference = [50]\<rparr>"

lemma sample_ask_ok: "distinct (map ps_day (platform_spend sample_db))"
    "e_uuid sample_env (q_answer sample_ask) = Some (q_answer sample_ask)"
  by (simp_all add: sample_defs)

theorem answer_billed_once_witness:
  "spent (snd (answer_stream sample_env acme_member sample_ask (\<lambda>_. 5) 4 sample_db)) = spent sample_db
     + charge sample_env sample_ask (allowed_hits sample_env acme_member sample_ask sample_db)
         (fst (answer_stream sample_env acme_member sample_ask (\<lambda>_. 5) 4 sample_db))"
  using answer_billed_once [OF prod.collapse [symmetric] sample_ask_ok] by blast

section \<open>The stream as a script\<close>

text \<open>
  What a caller who reads to the end sees, as one list: the specification of the generator, with
  no state and no database but the one the question was asked in.
\<close>

fun events_script :: "env \<Rightarrow> ask_in \<Rightarrow> passage list \<Rightarrow> pystr list \<Rightarrow> event list \<Rightarrow> exc option \<Rightarrow> frame list" where
  "events_script E q ps streamed [] None = []"
| "events_script E q ps streamed [] (Some e) = [ErrorFrame (failure_message (q_reference q))]"
| "events_script E q ps streamed (TokenEv t # es) ending = Token t # events_script E q ps (streamed @ [t]) es ending"
| "events_script E q ps streamed (UsageEv i out c # es) ending =
     Done i out c (check_answer (e_unicode E) (concat streamed) ps) # events_script E q ps streamed es ending"

definition answer_script :: "env \<Rightarrow> ask_in \<Rightarrow> hit list \<Rightarrow> frame list" where
  "answer_script E q hits =
     (let (es, ending) = p_stream (get_answer_provider E) (q_nonce q) (q_question q) (context_of hits)
      in events_script E q (context_of hits) [] es ending)"

definition refusal_script :: "pystr list \<Rightarrow> frame list" where
  "refusal_script ws = map (\<lambda>w. Token (w @ ascii '' '')) ws @ [Done 0 0 0 []]"

definition limit_frame :: "pystr \<Rightarrow> frame" where
  "limit_frame reason = ErrorFrame (ascii ''[LIMIT] request blocked: '' @ reason @ ascii ''. No answer was generated.'')"

definition script :: "env \<Rightarrow> auth_context \<Rightarrow> ask_in \<Rightarrow> time \<Rightarrow> db \<Rightarrow> frame list" where
  "script E ctx q now s =
     (let provider = p_name (get_answer_provider E);
          opened = (\<lambda>refused. record_answer ctx (q_question q) provider refused (q_answer q) now s);
          failed = [ErrorFrame (failure_message (q_reference q))];
          meta = Meta (q_answer q) provider
      in case limit_block E ctx now s of
           Some reason \<Rightarrow> (case opened False of Inl e \<Rightarrow> failed | Inr _ \<Rightarrow> [meta, limit_frame reason])
         | None \<Rightarrow>
             (case retrieve (e_embed_query E) (e_cosine E) ctx (q_question q) (q_k q) s of
                Inl e \<Rightarrow> failed
              | Inr hits \<Rightarrow>
                  (case opened (hits = []) of
                     Inl e \<Rightarrow> failed
                   | Inr _ \<Rightarrow>
                       meta # (if hits = [] then refusal_script (split_words REFUSAL)
                               else Sources (sources_of hits) # answer_script E q hits))))"

fun rest_of :: "env \<Rightarrow> auth_context \<Rightarrow> ask_in \<Rightarrow> asking \<Rightarrow> point \<Rightarrow> frame list" where
  "rest_of E ctx q g (BlockedMeta reason) = [limit_frame reason]"
| "rest_of E ctx q g Answering =
     (if g_contexts g = [] then refusal_script (split_words REFUSAL)
      else Sources (sources_of (g_contexts g)) # answer_script E q (g_contexts g))"
| "rest_of E ctx q g (Refusing ws) = refusal_script ws"
| "rest_of E ctx q g AfterSources = answer_script E q (g_contexts g)"
| "rest_of E ctx q g (Streaming es ending) = events_script E q (context_of (g_contexts g)) (g_streamed g) es ending"
| "rest_of E ctx q g pt = []"

definition continues :: "env \<Rightarrow> auth_context \<Rightarrow> ask_in \<Rightarrow> frame list \<Rightarrow> exc + resumed \<Rightarrow> bool" where
  "continues E ctx q fs m \<longleftrightarrow>
     (\<forall>f g s. m = Inr (f, g, s) \<longrightarrow> fs = (case f of None \<Rightarrow> [] | Some x \<Rightarrow> x # rest_of E ctx q g (g_point g)))"

lemma finish_continues: "continues E ctx q [] (finish E ctx q g now s)"
  by (auto simp: continues_def finish_def result_simps)

lemma stream_events_continues:
  assumes "e_uuid E (q_answer q) = Some (q_answer q)" "g_answer g = Some (q_answer q)"
  shows "continues E ctx q (events_script E q (context_of (g_contexts g)) (g_streamed g) es ending)
    (stream_events E ctx q g es ending now s)"
proof (cases "(E, q, context_of (g_contexts g), g_streamed g, es, ending)" rule: events_script.cases)
  case (4 E' q' ps' streamed' i out c es' ending')
  then obtain s1 where
    "finalize_answer (e_uuid E) (e_day_of E) ctx (q_answer q) i out c False now s = Inr s1"
    using finalize_answer_returns [where pg = "e_uuid E" and a = "q_answer q"] assms(1) by blast
  with 4 assms(2) show ?thesis by (auto simp: continues_def usage_event_def Let_def)
qed (use finish_continues in \<open>auto simp: continues_def caught_def\<close>)

lemma ask_next_continues:
  assumes "e_uuid E (q_answer q) = Some (q_answer q)" "g_point g \<noteq> Fresh"
    and "g_point g \<notin> {Failed, Ended} \<Longrightarrow> g_answer g = Some (q_answer q)"
    and "g_point g = AfterSources \<Longrightarrow> g_streamed g = []"
  shows "continues E ctx q (rest_of E ctx q g (g_point g)) (ask_next E ctx q g now s)"
proof (cases "g_point g")
  case AfterSources
  with assms(3,4) stream_events_continues [OF assms(1), of "g"] show ?thesis
    by (auto simp: ask_next_def answer_script_def split: prod.splits)
next
  case (Streaming es ending)
  with assms(3) stream_events_continues [OF assms(1), of "g"] show ?thesis by (simp add: ask_next_def)
qed (use assms(2) finish_continues [of E ctx q g now s] in
      \<open>auto simp: ask_next_def continues_def refusal_step_def refusal_script_def limit_frame_def split: list.splits\<close>)

lemma read_frames_rest:
  assumes "ask_inv E ctx q s0 fs g s" and "distinct (map ps_day (platform_spend s0))"
    and "e_uuid E (q_answer q) = Some (q_answer q)" and "g_point g \<noteq> Fresh"
  shows "fst (read_frames E ctx q clock i n g s) = take n (rest_of E ctx q g (g_point g))"
  using assms
proof (induction n arbitrary: i fs g s)
  case (Suc n)
  obtain f g1 s1 where step: "ask_next E ctx q g (clock i) s = Inr (f, g1, s1)"
    and inv: "ask_inv E ctx q s0 (fs @ seen f) g1 s1"
    using ask_next_keeps [OF Suc.prems(1-3), of "clock i"] Suc.prems(4) unfolding keeps_def by blast
  have "g_point g \<notin> {Failed, Ended} \<Longrightarrow> g_answer g = Some (q_answer q)" "g_point g = AfterSources \<Longrightarrow> g_streamed g = []"
    using Suc.prems(1,4) by (auto simp: ask_inv_def gen_ok_def model_text_def split: if_splits)
  from ask_next_continues [OF Suc.prems(3,4) this] step
  have rest: "rest_of E ctx q g (g_point g) = (case f of None \<Rightarrow> [] | Some x \<Rightarrow> x # rest_of E ctx q g1 (g_point g1))"
    unfolding continues_def by blast
  show ?case
  proof (cases f)
    case None
    with step rest show ?thesis by simp
  next
    case (Some x)
    with Suc.IH [OF inv Suc.prems(2,3) next_not_fresh [OF step], of "Suc i"] step rest show ?thesis
      by (simp add: case_prod_beta)
  qed
qed simp

lemma first_step:
  "ask_next E ctx q new_asking now s =
     (case limit_block E ctx now s of
        Some reason \<Rightarrow> blocked_start E ctx q new_asking reason now s
      | None \<Rightarrow> answer_start E ctx q new_asking now s)"
proof -
  have "g_point new_asking = Fresh" by (simp add: new_asking_def)
  then show ?thesis by (simp add: ask_next_def)
qed

lemma first_step_script:
  assumes "e_uuid E (q_answer q) = Some (q_answer q)"
    and "ask_next E ctx q new_asking now s = Inr (f, g, s1)"
  shows "script E ctx q now s = (case f of None \<Rightarrow> [] | Some x \<Rightarrow> x # rest_of E ctx q g (g_point g))"
proof (cases "limit_block E ctx now s")
  case (Some reason)
  have blocked: "mark_blocked (e_uuid E) ctx (q_answer q) t \<noteq> Inl e" for t e
    using assms(1) by (simp add: mark_blocked_def uuid_arg_def)
  from assms(2) Some blocked show ?thesis
    by (auto simp: first_step script_def blocked_start_def caught_def Let_def dest: record_answer_Inr(1)
        split: sum.splits prod.splits)
next
  case None
  with assms(2) show ?thesis
    by (auto simp: first_step script_def answer_start_def caught_def Let_def dest: record_answer_Inr(1)
        split: sum.splits prod.splits)
qed

text \<open>
  C19.  The generator yields its script and nothing else: a caller who reads \<open>n\<close> frames has read
  the first \<open>n\<close> frames of it, so whoever keeps reading reaches its end, and when he stops changes
  nothing in what he has seen.
\<close>

theorem answer_stream_follows_script:
  assumes "distinct (map ps_day (platform_spend s))" and "e_uuid E (q_answer q) = Some (q_answer q)"
  shows "fst (answer_stream E ctx q clock n s) = take n (script E ctx q (clock 0) s)
    \<and> (length (script E ctx q (clock 0) s) \<le> n \<longrightarrow> fst (answer_stream E ctx q clock n s) = script E ctx q (clock 0) s)"
proof -
  have "fst (read_frames E ctx q clock 0 n new_asking s) = take n (script E ctx q (clock 0) s)"
  proof (cases n)
    case (Suc m)
    obtain f g s1 where step: "ask_next E ctx q new_asking (clock 0) s = Inr (f, g, s1)"
      and inv: "ask_inv E ctx q s ([] @ seen f) g s1"
      using ask_next_keeps [OF ask_inv_new [OF assms(1)] assms, where now = "clock 0"] unfolding keeps_def by blast
    show ?thesis
    proof (cases f)
      case None
      with Suc step first_step_script [OF assms(2) step] show ?thesis by simp
    next
      case (Some x)
      with Suc step first_step_script [OF assms(2) step]
        read_frames_rest [OF inv assms next_not_fresh [OF step], of clock "Suc 0" m]
      show ?thesis by (simp add: case_prod_beta)
    qed
  qed simp
  then show ?thesis by (simp add: answer_stream_def case_prod_beta)
qed

theorem answer_stream_follows_script_witness:
  "fst (answer_stream sample_env acme_member sample_ask (\<lambda>_. 5) 4 sample_db)
     = take 4 (script sample_env acme_member sample_ask 5 sample_db)"
  using answer_stream_follows_script [OF sample_ask_ok] by simp

section \<open>Streams that never reach the model\<close>

fun quiet_point :: "point \<Rightarrow> hit list \<Rightarrow> bool" where
  "quiet_point Answering hits \<longleftrightarrow> hits = []"
| "quiet_point AfterSources hits \<longleftrightarrow> False"
| "quiet_point (Streaming es ending) hits \<longleftrightarrow> False"
| "quiet_point Fresh hits \<longleftrightarrow> False"
| "quiet_point pt hits \<longleftrightarrow> True"

definition quiet :: "asking \<Rightarrow> bool" where
  "quiet g \<longleftrightarrow> quiet_point (g_point g) (g_contexts g) \<and> g_streamed g = []"

lemma settle_quiet: "g_streamed g = [] \<Longrightarrow> settle E ctx q g now s = Inr s"
  by (simp add: settle_def split: option.split)

lemma ask_next_quiet:
  assumes "quiet g"
  shows "\<exists>f g'. (\<forall>E ctx q now. ask_next E ctx q g now s = Inr (f, g', s)) \<and> quiet g'"
  using assms
  by (cases "g_point g")
    (auto simp: quiet_def ask_next_def finish_def settle_quiet refusal_step_def split: list.split)

lemma read_frames_quiet:
  assumes "quiet g"
  shows "\<exists>fs g'. (\<forall>E ctx q clock i. read_frames E ctx q clock i n g s = (fs, g', s)) \<and> quiet g'"
  using assms
proof (induction n arbitrary: g)
  case (Suc n)
  obtain f g1 where step: "\<And>E ctx q now. ask_next E ctx q g now s = Inr (f, g1, s)" and q1: "quiet g1"
    using ask_next_quiet [OF Suc.prems] by blast
  show ?case
  proof (cases f)
    case None
    with step q1 show ?thesis by auto
  next
    case (Some x)
    obtain fs g' where "\<And>E ctx q clock i. read_frames E ctx q clock i n g1 s = (fs, g', s)" "quiet g'"
      using Suc.IH [OF q1] by blast
    with step Some show ?thesis by (intro exI [of _ "x # fs"] exI [of _ g']) simp
  qed
qed auto

lemma answer_stream_quiet_start:
  assumes "\<And>f g s1. ask_next E ctx q new_asking (clock 0) s = Inr (f, g, s1) \<Longrightarrow> quiet g \<and> spent s1 = spent s"
    and same: "ask_next E' ctx q new_asking (clock 0) s = ask_next E ctx q new_asking (clock 0) s"
  shows "answer_stream E' ctx q clock n s = answer_stream E ctx q clock n s
    \<and> spent (snd (answer_stream E ctx q clock n s)) = spent s"
proof (cases n)
  case 0
  then show ?thesis by (simp add: answer_stream_def ask_close_def new_asking_def)
next
  case (Suc m)
  show ?thesis
  proof (cases "ask_next E ctx q new_asking (clock 0) s")
    case (Inl e)
    with Suc same show ?thesis by (simp add: answer_stream_def ask_close_def)
  next
    case (Inr r)
    obtain f g s1 where r: "r = (f, g, s1)" by (cases r)
    with Inr assms(1) have q1: "quiet g" and sp: "spent s1 = spent s" by auto
    obtain fs g' where rest: "\<And>E ctx q clock i. read_frames E ctx q clock i m g s1 = (fs, g', s1)" and q2: "quiet g'"
      using read_frames_quiet [OF q1] by blast
    have closed: "ask_close E ctx q h now s1 = Inr s1" if "quiet h" for E h now
      using that by (auto simp: ask_close_def quiet_def settle_quiet split: point.split)
    show ?thesis
      using Suc same Inr r rest sp closed [OF q1] closed [OF q2] by (cases f) (simp_all add: answer_stream_def)
  qed
qed

lemma record_answer_spent: "record_answer ctx q p refused fresh now s = Inr (i, s') \<Longrightarrow> spent s' = spent s"
  using record_answer_Inr(5) by (fastforce simp: spent_def)

lemma mark_blocked_spent: "mark_blocked pg ctx i s = Inr s' \<Longrightarrow> spent s' = spent s"
  by (auto simp: mark_blocked_def result_simps spent_def)

lemma blocked_start_quiet:
  "blocked_start E ctx q new_asking reason now s = Inr (f, g, s1) \<Longrightarrow> quiet g \<and> spent s1 = spent s"
  by (auto simp: blocked_start_def caught_def new_asking_def quiet_def Let_def
      dest!: record_answer_spent mark_blocked_spent split: sum.splits prod.splits)

lemma answer_start_quiet:
  "answer_start E ctx q new_asking now s = Inr (f, g, s1) \<Longrightarrow> allowed_hits E ctx q s = [] \<Longrightarrow>
     quiet g \<and> spent s1 = spent s"
  by (auto simp: answer_start_def allowed_hits_def caught_def new_asking_def quiet_def Let_def
      dest!: record_answer_spent split: sum.splits prod.splits if_splits)

definition with_client :: "client \<Rightarrow> env \<Rightarrow> env" where
  "with_client client E = E\<lparr>e_anthropic := map_option (\<lambda>_. client) (e_anthropic E)\<rparr>"

lemma with_client_same:
  "limit_block (with_client client E) = limit_block E" "log_event (with_client client E) = log_event E"
  "e_uuid (with_client client E) = e_uuid E" "e_embed_query (with_client client E) = e_embed_query E"
  "e_cosine (with_client client E) = e_cosine E" "e_unicode (with_client client E) = e_unicode E"
  "p_name (get_answer_provider (with_client client E)) = p_name (get_answer_provider E)"
  by (simp_all add: with_client_def get_answer_provider_def limit_block_def log_event_def fun_eq_iff split: option.split)

lemma with_client_start:
  "ask_next (with_client client E) ctx q new_asking now s = ask_next E ctx q new_asking now s"
  unfolding first_step blocked_start_def answer_start_def with_client_same ..

text \<open>
  C20.  A question over a limit, and a question for which the asker may see nothing, never reach
  the model: frames and database are the same whatever the model would have answered, and nothing
  is spent.
\<close>

theorem model_not_consulted:
  assumes "limit_block E ctx (clock 0) s \<noteq> None \<or> allowed_hits E ctx q s = []"
  shows "answer_stream (with_client client E) ctx q clock n s = answer_stream E ctx q clock n s
    \<and> spent (snd (answer_stream E ctx q clock n s)) = spent s"
proof (rule answer_stream_quiet_start [OF _ with_client_start])
  show "quiet g \<and> spent s1 = spent s" if "ask_next E ctx q new_asking (clock 0) s = Inr (f, g, s1)" for f g s1
    using that assms blocked_start_quiet answer_start_quiet unfolding first_step by (auto split: option.splits)
qed

theorem model_not_consulted_witness:
  "spent (snd (answer_stream sample_env zeta_owner sample_ask (\<lambda>_. 5) 4 sample_db)) = spent sample_db"
proof -
  have "allowed_hits sample_env zeta_owner sample_ask sample_db = []"
    by (simp add: allowed_hits_def retrieve_def search_def principals_def join_where_def searchable_def scoped_def
        acl_allows_def sample_defs Let_def)
  with model_not_consulted [of sample_env zeta_owner "\<lambda>_. 5" sample_db sample_ask "\<lambda>_ _ _. ([], Inl (ExternalError []))" 4]
  show ?thesis by simp
qed

text \<open>
  A declined request, which the API answers with a usage and a refusal: the caller gets the
  done frame and then an error frame as well.
\<close>

lemma declined_answer_is_done_and_failed:
  assumes "e_anthropic E = Some client"
    and "client SYSTEM (build_user_turn (e_unicode E) (q_question q) (context_of hits) (q_nonce q)) (supports_effort (e_answer_model E))
      = (texts, Inr final)"
    and "fm_refusal final = Some category"
  shows "\<exists>paid warnings. answer_script E q hits =
    map Token texts @ [Done (fm_input final) (fm_output final) paid warnings, ErrorFrame (failure_message (q_reference q))]"
proof -
  have "\<exists>w. events_script E q ps pre (map TokenEv ts @ [UsageEv i out c]) (Some e)
      = map Token ts @ [Done i out c w, ErrorFrame (failure_message (q_reference q))]" for ps pre ts i out c e
    by (induction ts arbitrary: pre) auto
  with assms show ?thesis
    by (simp add: answer_script_def get_answer_provider_def claude_stream_def) blast
qed

definition declining :: client where
  "declining = (\<lambda>_ _ _. ([], Inr \<lparr>fm_input = 900, fm_output = 1, fm_refusal = Some None\<rparr>))"

lemma declined_answer_example:
  "\<exists>paid warnings. answer_script (sample_env\<lparr>e_anthropic := Some declining\<rparr>) sample_ask []
     = [Done 900 1 paid warnings, ErrorFrame (failure_message [50])]"
  using declined_answer_is_done_and_failed [where E = "sample_env\<lparr>e_anthropic := Some declining\<rparr>" and client = declining
      and q = sample_ask and hits = "[]" and texts = "[]" and category = None
      and final = "\<lparr>fm_input = 900, fm_output = 1, fm_refusal = Some None\<rparr>"]
  by (simp add: sample_ask_def declining_def)

end
