(* ===== verification/Pool.thy ===== *)
theory Pool
  imports Access
begin

text \<open>
  \<open>db.py\<close>: the shared pool and the tenant setting that rides a transaction.  A connection is its two
  values of \<open>app.current_org\<close>, the session's and the transaction's, and whether \<open>_configure\<close> has
  turned on the iterative index scan.  The pool is psycopg's: how one is opened, what it hands out
  and how it takes a connection back are the parameters \<open>open_pool\<close>, \<open>lend\<close> and \<open>give\<close> over any type
  of pools.  Postgres itself is the state \<open>db\<close>; \<open>body\<close> is the caller's block, given the tenant that
  the policies read in it.
\<close>

record connection =
  cn_local :: "pystr option"
  cn_session :: "pystr option"
  cn_relaxed :: bool

text \<open>\<open>_configure\<close>, once per physical connection.\<close>

definition configure_connection :: "connection \<Rightarrow> connection" where
  "configure_connection c = c\<lparr>cn_relaxed := True\<rparr>"

text \<open>\<open>get_pool\<close> and \<open>close_pool\<close>: the module keeps one pool, opened by its first use.\<close>

definition get_pool :: "((connection \<Rightarrow> connection) \<Rightarrow> nat \<Rightarrow> nat \<Rightarrow> 'p) \<Rightarrow> nat \<Rightarrow> nat \<Rightarrow> 'p option \<Rightarrow> 'p" where
  "get_pool open_pool db_pool_min db_pool_max p =
     (case p of Some po \<Rightarrow> po | None \<Rightarrow> open_pool configure_connection db_pool_min db_pool_max)"

definition close_pool :: "'p option \<Rightarrow> 'p option" where
  "close_pool p = None"

text \<open>\<open>set_config('app.current_org', org, true)\<close>, the setting the policies read, and a transaction's end.\<close>

definition set_tenant :: "pystr option \<Rightarrow> connection \<Rightarrow> connection" where
  "set_tenant org c = (case org of None \<Rightarrow> c | Some i \<Rightarrow> c\<lparr>cn_local := Some i\<rparr>)"

definition current_org :: "connection \<Rightarrow> pystr option" where
  "current_org c = (case cn_local c of Some i \<Rightarrow> Some i | None \<Rightarrow> cn_session c)"

definition end_transaction :: "connection \<Rightarrow> connection" where
  "end_transaction c = c\<lparr>cn_local := None\<rparr>"

definition connect ::
  "('p \<Rightarrow> exc + (connection \<times> 'p)) \<Rightarrow> (connection \<Rightarrow> 'p \<Rightarrow> 'p) \<Rightarrow> pystr option
     \<Rightarrow> (pystr option \<Rightarrow> db \<Rightarrow> exc + ('a \<times> db)) \<Rightarrow> 'p \<Rightarrow> db \<Rightarrow> (exc + 'a) \<times> 'p \<times> db" where
  "connect lend give org body po s =
     (case lend po of
        Inl e \<Rightarrow> (Inl e, po, s)
      | Inr (c, po1) \<Rightarrow>
          (let c1 = set_tenant org c; po2 = give (end_transaction c1) po1 in
           case body (current_org c1) s of
             Inl e \<Rightarrow> (Inl e, po2, s)
           | Inr (x, s') \<Rightarrow> (Inr x, po2, s')))"

definition require_row :: "'a option \<Rightarrow> exc + 'a" where
  "require_row row = or_raise row (ExternalError (ascii ''query returned no row where one was guaranteed''))"

section \<open>No tenant survives its block\<close>

definition without_tenant :: "connection \<Rightarrow> bool" where
  "without_tenant c \<longleftrightarrow> cn_local c = None \<and> cn_session c = None"

lemma set_tenant_without:
  assumes "without_tenant c"
  shows "current_org (set_tenant org c) = org" "without_tenant (end_transaction (set_tenant org c))"
  using assms by (simp_all add: without_tenant_def current_org_def set_tenant_def end_transaction_def split: option.split)

text \<open>
  Suppose the pool only lends connections without a tenant as long as it was only given such ones:
  \<open>holds po\<close> says so of \<open>po\<close>.  Then every block runs under exactly the tenant it asked for, or under
  none, and leaves the pool as clean as it was whether it commits or rolls back; a block that raises
  leaves the database as it was.
\<close>

lemma connect_tenant:
  assumes run: "connect lend give org body po s = (r, po', s')" and clean: "holds po"
    and lent: "\<And>po c po'. holds po \<Longrightarrow> lend po = Inr (c, po') \<Longrightarrow> without_tenant c \<and> holds po'"
    and given: "\<And>po c. holds po \<Longrightarrow> without_tenant c \<Longrightarrow> holds (give c po)"
  shows "holds po' \<and> ((\<exists>e. lend po = Inl e \<and> r = Inl e \<and> s' = s) \<or> (\<exists>e. body org s = Inl e \<and> r = Inl e \<and> s' = s)
      \<or> (\<exists>x. body org s = Inr (x, s') \<and> r = Inr x))"
proof (cases "lend po")
  case (Inl e)
  with run clean show ?thesis by (simp add: connect_def)
next
  case (Inr q)
  obtain c po1 where q: "q = (c, po1)" by (cases q)
  note c = lent [OF clean Inr [unfolded q]]
  have "holds (give (end_transaction (set_tenant org c)) po1)"
    using c set_tenant_without(2) by (blast intro: given)
  with run Inr q c show ?thesis
    by (auto simp: connect_def set_tenant_without(1) Let_def split: sum.splits prod.splits)
qed

text \<open>Were the setting the session's, the next block without a tenant would read the last one's rows.\<close>

lemma session_setting_leaks:
  "current_org (set_tenant None (end_transaction (c\<lparr>cn_local := None, cn_session := Some org\<rparr>))) = Some org"
  by (simp add: current_org_def set_tenant_def end_transaction_def)

text \<open>A block opened without a tenant reads no row of a table under the policy.\<close>

lemma no_tenant_no_rows: "select_where (\<lambda>r. rls None (k r)) rows = []"
  by (simp add: rls_def select_where_def)

end
