(* ===== verification/DemoTexts.thy ===== *)
theory DemoTexts
  imports Chunking
begin

text \<open>
  The texts of the demo documents of \<open>seed.py\<close>, line by line, and how the chunker cuts them: at the
  default window two of the eight are a single chunk.
\<close>

definition text_lines :: "string list \<Rightarrow> pystr" where
  "text_lines ls = concat (map (\<lambda>l. ascii l @ [10]) ls)"

definition ACME_HANDBOOK :: pystr where
  "ACME_HANDBOOK = text_lines
     [''Acme Corp employee handbook, revised for the current year.'',
      [],
      ''Refunds are processed within five business days of the request reaching the'',
      ''support queue. A refund on an order paid by card returns to the original card'',
      ''and may take a further three to five days to appear, which is the card network's'',
      ''timing and not something support can accelerate. Refunds on invoiced accounts are'',
      ''issued as account credit by default; a customer who wants the money returned'',
      ''instead has to ask, and that request needs a manager's approval because it'',
      ''reverses a recognised payment.'',
      [],
      ''Expenses are reimbursed monthly. Submit receipts by the last working day of the'',
      ''month and the payment lands with the following month's salary. Anything over two'',
      ''hundred dollars needs a line manager's approval before it is incurred, not after,'',
      ''and the most common reason a claim is rejected is that this happened backwards.'',
      [],
      ''Holiday is twenty-five days plus public holidays, accrued monthly from the start'',
      ''date. Up to five unused days carry into the next year and expire at the end of'',
      ''March. Anything beyond five days is lost, so managers are asked to plan leave'',
      ''across the team rather than approving it first-come.'',
      [],
      ''Parental leave is sixteen weeks at full pay for the primary carer and four weeks'',
      ''for the secondary carer, available from the first day of employment with no'',
      ''qualifying period. Leave can be taken in up to three blocks within the first year.'']"

definition ACME_SECURITY :: pystr where
  "ACME_SECURITY = text_lines
     [''Acme Corp security policy.'',
      [],
      ''Production API keys are rotated every ninety days and stored in the company'',
      ''vault. Rotation is automated and does not require a deployment; a service that'',
      ''breaks on rotation is a service that has cached a credential it should have been'',
      ''reading per request, and that is a bug to fix rather than a reason to extend the'',
      ''rotation window.'',
      [],
      ''Access to production data requires a named justification recorded at the time of'',
      ''access. The justification is not reviewed before access is granted, because a'',
      ''review gate turns an emergency into an outage. It is reviewed afterwards, weekly,'',
      ''and an access without a justification is treated as an incident regardless of'',
      ''whether anything was read.'',
      [],
      ''Laptops are full-disk encrypted and enrolled in device management. A lost device'',
      ''is reported the same day. Reporting late is the problem worth avoiding, so there'',
      ''is no penalty attached to reporting at all.'',
      [],
      ''Third-party services that will hold customer data need a review before signing,'',
      ''and the review asks three questions: where the data is stored, who at the vendor'',
      ''can read it, and what happens to it when the contract ends.'']"

definition ACME_SALARY :: pystr where
  "ACME_SALARY = text_lines
     [''Acme Corp compensation bands, confidential to the People team.'',
      [],
      ''Engineering is banded from E1 to E6. E1 starts at fifty-two thousand and E6 tops'',
      ''out at one hundred and forty-eight thousand, with each band overlapping the next'',
      ''by roughly fifteen percent so that a strong performer near the top of a band is'',
      ''paid more than a new joiner in the band above.'',
      [],
      ''Reviews happen twice a year. The budget for increases is set in advance as a'',
      ''percentage of total payroll, which means every increase is funded from the same'',
      ''pool and a manager arguing for one person is implicitly arguing against another.'',
      ''This is stated plainly here because pretending otherwise makes the conversation'',
      ''worse rather than kinder.'',
      [],
      ''Equity is granted on joining and refreshed annually from the third year. Grants'',
      ''vest monthly over four years with a one-year cliff on the initial grant only.'',
      [],
      ''Offers above the midpoint of a band need People team approval, and offers above'',
      ''the top of a band need an exception recorded with the reasoning.'']"

definition ACME_INCIDENTS :: pystr where
  "ACME_INCIDENTS = text_lines
     [''Acme Corp incident response runbook.'',
      [],
      ''An incident starts when someone declares one. There is no severity threshold to'',
      ''argue about first: declare it, then downgrade it if it turns out to be small. The'',
      ''cost of a spurious incident is an hour of attention. The cost of a late one is'',
      ''the outage plus the time spent deciding whether it counted.'',
      [],
      ''The declaring person is the incident lead until they hand it over explicitly.'',
      ''The lead does not debug. The lead keeps the timeline, decides what gets'',
      ''communicated, and pulls in the people who do debug.'',
      [],
      ''Customer communication goes out within thirty minutes of declaring, even when the'',
      ''only honest content is that something is wrong and the cause is not yet known.'',
      ''Silence reads as absence, and the status page is cheaper than the support queue.'',
      [],
      ''Every incident gets a written review within five working days. The review names'',
      ''what happened and what changes, and it does not name who made the mistake,'',
      ''because a review that assigns blame is a review that stops receiving information.'']"

definition GLOBEX_PRODUCTS :: pystr where
  "GLOBEX_PRODUCTS = text_lines
     [''Globex Inc product overview.'',
      [],
      ''Globex manufactures industrial widgets and ships them worldwide. The current'',
      ''range covers three families: the standard series for general assembly work, the'',
      ''heavy series rated for continuous load, and the precision series held to a'',
      ''tighter tolerance for instrumentation customers.'',
      [],
      ''Lead time is four weeks for standard, six for heavy, and eight to ten for'',
      ''precision, measured from a confirmed order rather than from first contact.'',
      ''Precision orders carry a longer tail because each batch is measured individually'',
      ''and a batch that fails measurement is remade rather than sold down as standard.'',
      [],
      ''Minimum order quantity is fifty units for standard and heavy, and ten for'',
      ''precision. Below that the setup cost dominates the unit price to the point where'',
      ''the quote stops being useful to the customer.'',
      [],
      ''Warranty is twenty-four months from delivery against manufacturing defect. Wear'',
      ''in normal service is not a defect, and the distinction is made by inspection'',
      ''rather than by the age of the part.'']"

definition GLOBEX_ONBOARDING :: pystr where
  "GLOBEX_ONBOARDING = text_lines
     [''Globex Inc new hire onboarding.'',
      [],
      ''New hires complete orientation during their first week. Orientation covers the'',
      ''safety briefing, the site tour, and the systems access request, and none of the'',
      ''three can be skipped or done remotely because two of them are physical and the'',
      ''third depends on the first two being signed off.'',
      [],
      ''Week two is shadowing. A new hire on the production floor pairs with an'',
      ''experienced operator and does not run a machine alone. On the commercial side the'',
      ''equivalent is sitting in on customer calls without leading one.'',
      [],
      ''The probation period is six months with a review at three. The review at three'',
      ''months is the one that matters: it exists so that nothing in the six-month review'',
      ''is a surprise, and a manager who saves feedback for month six has run the process'',
      ''wrong.'',
      [],
      ''Equipment is issued on day one. A new hire who arrives to no laptop should treat'',
      ''that as a failure of the process and escalate rather than wait, because waiting'',
      ''is how a first week gets lost.'']"

definition GLOBEX_PRICING :: pystr where
  "GLOBEX_PRICING = text_lines
     [''Globex Inc pricing and discount policy, commercial team only.'',
      [],
      ''List price for the standard series is fourteen dollars per unit at the minimum'',
      ''order quantity, falling to nine dollars fifty at ten thousand units. The heavy'',
      ''series starts at thirty-one dollars and the precision series at eighty-eight,'',
      ''with the same volume curve applied proportionally.'',
      [],
      ''Sales may discount up to eight percent without approval. Between eight and'',
      ''fifteen percent needs the commercial director. Beyond fifteen percent needs the'',
      ''finance director, and in practice that conversation is about whether the order is'',
      ''strategic rather than about the margin, so it is worth framing it that way.'',
      [],
      ''Payment terms are thirty days net. Sixty-day terms are available to customers'',
      ''with twelve months of clean payment history and are withdrawn after a single'',
      ''missed payment rather than after a pattern, because the pattern is what the'',
      ''withdrawal is meant to prevent.'',
      [],
      ''Quotes expire after thirty days. Material costs move faster than that and an'',
      ''expired quote reissued at the same number is a decision, not an administrative'',
      ''step.'']"

definition GLOBEX_SUPPLIERS :: pystr where
  "GLOBEX_SUPPLIERS = text_lines
     [''Globex Inc supplier list and terms, commercial team only.'',
      [],
      ''Raw stock comes from two suppliers by design rather than one. The primary holds'',
      ''roughly seventy percent of volume on a twelve-month contract; the secondary holds'',
      ''the balance on rolling three-month terms and is priced about four percent higher.'',
      ''That four percent is the cost of not being a single supplier's hostage, and it is'',
      ''reviewed annually with the explicit understanding that the cheaper answer is the'',
      ''fragile one.'',
      [],
      ''Tooling is single-sourced because the tolerances are specific to that vendor's'',
      ''process, and this is a known risk with no current mitigation beyond holding six'',
      ''months of spare tooling on site.'',
      [],
      ''Payment to suppliers is thirty days, matching what Globex asks of its own'',
      ''customers. Paying suppliers later than Globex expects to be paid has been raised'',
      ''as a cash flow option twice and rejected both times.'',
      [],
      ''A supplier who misses two consecutive delivery windows moves to weekly review.'']"

section \<open>When a text is one chunk\<close>

lemma strip_ends:
  assumes "strip s \<noteq> []"
  shows "\<not> is_space (strip s ! 0)" "\<not> is_space (strip s ! (length (strip s) - 1))"
proof -
  have kept: "length (strip s) \<le> length (lstrip (strip s))"
    using strip_idem [of s] by (metis strip_def length_rev lstrip_def length_dropWhile_le)
  then show "\<not> is_space (strip s ! 0)"
    using assms length_dropWhile_le [of is_space "tl (strip s)"]
    by (cases "strip s") (auto simp: lstrip_def)
  have "\<not> is_space (hd (rev (strip s)))"
    using assms hd_dropWhile [of is_space "rev (lstrip s)"] by (simp add: strip_def lstrip_def)
  then show "\<not> is_space (strip s ! (length (strip s) - 1))" using assms by (simp add: hd_rev last_conv_nth)
qed

lemma py_range_cons:
  fixes stop step :: nat
  assumes "0 < stop" "0 < step"
  shows "py_range stop step = 0 # map (\<lambda>i. i * step) [1..<(stop + step - 1) div step]"
  using py_range_from [of step 0 stop] assms by (simp add: py_range_def upt_conv_Cons)

lemma one_chunk:
  assumes "0 \<le> overlap" "overlap < width" "strip text \<noteq> []" "length (strip text) \<le> nat width"
  shows "chunk_text width overlap text None None = Inr [strip text]"
  using assms py_range_cons [of "length (strip text)" "nat (width - overlap)"] by (simp add: chunk_text_def Let_def)

lemma several_chunks:
  assumes "0 \<le> overlap" "overlap < width" "nat width < length (strip text)"
  shows "\<exists>c d cs. chunk_text width overlap text None None = Inr (c # d # cs)"
proof -
  let ?t = "strip text" and ?step = "nat (width - overlap)"
  let ?rest = "map (\<lambda>i. i * ?step) [1..<(length ?t + ?step - 1) div ?step]"
  have filled: "?t \<noteq> []" using assms(3) by auto
  have first: "strip (take (nat width) ?t) \<noteq> []"
    using occurs_strip [of 0 0 "nat width" ?t] strip_ends(1) [OF filled] filled assms(1,2) by (auto simp: occurs_def)
  have "\<exists>c\<in>set (chunk_pieces (nat width) ?t ?rest). occurs c ?t (length ?t - 1)"
    using chunk_pieces_cover [of ?step "nat width" "length ?t - 1" ?t 1] strip_ends(2) [OF filled] filled assms by simp
  then obtain d cs where rest: "chunk_pieces (nat width) ?t ?rest = d # cs" by (cases "chunk_pieces (nat width) ?t ?rest") auto
  have "py_range (length ?t) ?step = 0 # ?rest" using py_range_cons filled assms(2) by simp
  then have "chunk_text width overlap text None None = Inr (strip (take (nat width) ?t) # d # cs)"
    using assms filled first rest by (simp add: chunk_text_def Let_def)
  then show ?thesis by blast
qed

lemma strip_text_lines:
  assumes "ls \<noteq> []" "hd ls \<noteq> []" "last ls \<noteq> []"
    and "\<not> is_space (of_char (hd (hd ls)))" "\<not> is_space (of_char (last (last ls)))"
  shows "length (strip (text_lines ls)) = (\<Sum>l\<leftarrow>ls. Suc (length l)) - 1"
proof -
  obtain c b where left: "text_lines ls = c # b" "\<not> is_space c"
    using assms(1,2,4) by (cases ls; cases "hd ls") (auto simp: text_lines_def)
  obtain ks l d where "ls = ks @ [l @ [d]]" "\<not> is_space (of_char d)"
    using assms(1,3,5) by (metis append_butlast_last_id last_snoc)
  then obtain a e where right: "text_lines ls = a @ [e, 10]" "\<not> is_space e"
    by (auto simp: text_lines_def ascii_def)
  have "is_space 10" by (simp add: is_space_def)
  moreover have "lstrip (a @ [e, 10]) = a @ [e, 10]" using left right(1) by (simp add: lstrip_def)
  ultimately have "strip (text_lines ls) = a @ [e]" using right by (simp add: strip_def lstrip_def)
  moreover have "length (text_lines ls) = (\<Sum>l\<leftarrow>ls. Suc (length l))"
    by (simp add: text_lines_def length_concat comp_def ascii_def)
  ultimately show ?thesis using right by simp
qed

text \<open>\<open>seed.py\<close> says of its documents that they are cut into several chunks; these two are not.\<close>

lemma short_texts:
  "chunk_text 1000 150 GLOBEX_ONBOARDING None None = Inr [strip GLOBEX_ONBOARDING]"
  "chunk_text 1000 150 GLOBEX_SUPPLIERS None None = Inr [strip GLOBEX_SUPPLIERS]"
proof -
  have "length (strip GLOBEX_ONBOARDING) = 982" "length (strip GLOBEX_SUPPLIERS) = 960"
    unfolding GLOBEX_ONBOARDING_def GLOBEX_SUPPLIERS_def by (subst strip_text_lines; simp add: is_space_def)+
  then show "chunk_text 1000 150 GLOBEX_ONBOARDING None None = Inr [strip GLOBEX_ONBOARDING]"
    "chunk_text 1000 150 GLOBEX_SUPPLIERS None None = Inr [strip GLOBEX_SUPPLIERS]"
    by (auto intro!: one_chunk)
qed

lemma long_texts:
  assumes "t \<in> {ACME_HANDBOOK, ACME_SECURITY, ACME_SALARY, ACME_INCIDENTS, GLOBEX_PRODUCTS, GLOBEX_PRICING}"
  shows "\<exists>c d cs. chunk_text 1000 150 t None None = Inr (c # d # cs)"
proof -
  have "length (strip ACME_HANDBOOK) = 1416" "length (strip ACME_SECURITY) = 1137" "length (strip ACME_SALARY) = 1002"
    "length (strip ACME_INCIDENTS) = 1022" "length (strip GLOBEX_PRODUCTS) = 1017" "length (strip GLOBEX_PRICING) = 1090"
    unfolding ACME_HANDBOOK_def ACME_SECURITY_def ACME_SALARY_def ACME_INCIDENTS_def GLOBEX_PRODUCTS_def GLOBEX_PRICING_def
    by (subst strip_text_lines; simp add: is_space_def)+
  with assms have "1000 < length (strip t)" by auto
  then show ?thesis by (intro several_chunks) simp_all
qed

end
