(* ===== verification/Seed.thy ===== *)
theory Seed
  imports Api DemoTexts
begin

text \<open>
  \<open>seed.py\<close>: the two demo organisations, and the reset that removes them; the texts are those of
  \<open>DemoTexts\<close>.  The identifiers and times Postgres draws are \<open>seed_draws\<close>.  Every call is a
  transaction of its own, and an exception ends the command with what was committed before it.
\<close>

record demo_document =
  dd_path :: pystr
  dd_content :: pystr
  dd_group :: "pystr option"

record demo_org =
  do_slug :: pystr
  do_name :: pystr
  do_owner :: pystr
  do_member :: pystr
  do_group :: pystr
  do_documents :: "demo_document list"

definition DEMO_PASSWORD :: pystr where
  "DEMO_PASSWORD = ascii ''demo-password-123''"

definition demo_row :: "pystr \<Rightarrow> pystr \<Rightarrow> pystr option \<Rightarrow> demo_document" where
  "demo_row path text grp = \<lparr>dd_path = path, dd_content = text, dd_group = grp\<rparr>"

definition ORGS :: "demo_org list" where
  "ORGS =
     [\<lparr>do_slug = ascii ''acme'', do_name = ascii ''Acme Corp'', do_owner = ascii ''owner@acme.test'',
       do_member = ascii ''analyst@acme.test'', do_group = ascii ''people-team'',
       do_documents =
         [demo_row (ascii ''handbook.md'') ACME_HANDBOOK None,
          demo_row (ascii ''security.md'') ACME_SECURITY None,
          demo_row (ascii ''incidents.md'') ACME_INCIDENTS None,
          demo_row (ascii ''compensation.md'') ACME_SALARY (Some (ascii ''people-team''))]\<rparr>,
      \<lparr>do_slug = ascii ''globex'', do_name = ascii ''Globex Inc'', do_owner = ascii ''owner@globex.test'',
       do_member = ascii ''operator@globex.test'', do_group = ascii ''commercial'',
       do_documents =
         [demo_row (ascii ''products.md'') GLOBEX_PRODUCTS None,
          demo_row (ascii ''onboarding.md'') GLOBEX_ONBOARDING None,
          demo_row (ascii ''pricing.md'') GLOBEX_PRICING (Some (ascii ''commercial'')),
          demo_row (ascii ''suppliers.md'') GLOBEX_SUPPLIERS (Some (ascii ''commercial''))]\<rparr>]"

section \<open>Reset\<close>

definition ends_with :: "pystr \<Rightarrow> pystr \<Rightarrow> bool" where
  "ends_with post s \<longleftrightarrow> length post \<le> length s \<and> drop (length s - length post) s = post"

text \<open>The two loops of the one transaction; \<open>like '%@slug.test'\<close> is a suffix, as the slugs have no wildcard.\<close>

definition reset_org :: "demo_org \<Rightarrow> db \<Rightarrow> db" where
  "reset_org spec s =
     (case find (\<lambda>r. o_slug r = do_slug spec) (orgs s) of
        None \<Rightarrow> s
      | Some row \<Rightarrow> delete_orgs (\<lambda>r. o_id r = o_id row) s)"

definition reset_accounts :: "demo_org \<Rightarrow> db \<Rightarrow> db" where
  "reset_accounts spec s =
     delete_users (\<lambda>u. ends_with (ascii ''@'' @ do_slug spec @ ascii ''.test'') (u_email u)) s"

definition reset_demo :: "demo_org list \<Rightarrow> db \<Rightarrow> db" where
  "reset_demo specs s = fold reset_accounts specs (fold reset_org specs s)"

section \<open>Seed\<close>

record seed_draws =
  sd_org :: pystr
  sd_owner :: pystr
  sd_member :: pystr
  sd_group :: pystr
  sd_doc :: "nat \<Rightarrow> pystr"
  sd_job :: "nat \<Rightarrow> pystr"
  sd_now :: time
  sd_clock :: "nat \<Rightarrow> time"

definition org_exists :: "pystr \<Rightarrow> db \<Rightarrow> bool" where
  "org_exists slug s = exists_where (\<lambda>r. o_slug r = slug) (orgs s)"

definition demo_items :: "pystr \<Rightarrow> demo_org \<Rightarrow> upload_item list" where
  "demo_items group_id spec =
     map (\<lambda>d. \<lparr>it_path = dd_path d, it_content = dd_content d,
               it_acl = Some (if dd_group d \<noteq> None \<and> dd_group d \<noteq> Some []
                              then [ascii ''group:'' @ group_id] else [ascii ''public-to-org''])\<rparr>)
       (do_documents spec)"

definition seed_org :: "env \<Rightarrow> seed_draws \<Rightarrow> demo_org \<Rightarrow> db \<Rightarrow> (exc + unit) \<times> db" where
  "seed_org E d spec s =
     (if org_exists (do_slug spec) s then (Inr (), s)
      else
        call (create_org_with_owner (e_lower E) (e_pw_hash E) (do_slug spec) (do_name spec) (do_owner spec)
                DEMO_PASSWORD (sd_org d) (sd_owner d) (sd_now d) s) s (\<lambda>ctx s1.
        call (create_group ctx (do_group spec) (sd_group d) (sd_now d) s1) s1 (\<lambda>grp s2.
        call (no_result (add_group_member (e_uuid E) ctx (sd_group d) (ctx_user ctx) s2)) s2 (\<lambda>_ s3.
        call (add_member (e_lower E) (e_pw_hash E) (ctx_org ctx) (do_member spec) DEMO_PASSWORD r_member
                (sd_member d) (sd_now d) s3) s3 (\<lambda>_ s4.
          (case sync_documents (e_hash E) (detect_types (e_unicode E)) (e_job_max_attempts E) (sd_doc d) (sd_job d)
                  (sd_now d) (sd_clock d) (ctx_org ctx) (ascii ''local-folder'') (demo_items (sd_group d) spec)
                  (\<lambda>_. Inr ()) s4 of
             (Inl e, s5) \<Rightarrow> (Inl e, s5)
           | (Inr result, s5) \<Rightarrow> (Inr (), s5)))))))"

fun seed_orgs :: "env \<Rightarrow> (nat \<Rightarrow> seed_draws) \<Rightarrow> nat \<Rightarrow> demo_org list \<Rightarrow> db \<Rightarrow> (exc + unit) \<times> db" where
  "seed_orgs E d i [] s = (Inr (), s)"
| "seed_orgs E d i (spec # specs) s =
     (case seed_org E (d i) spec s of
        (Inl e, s') \<Rightarrow> (Inl e, s')
      | (Inr _, s') \<Rightarrow> seed_orgs E d (Suc i) specs s')"

definition seed_demo ::
  "env \<Rightarrow> (nat \<Rightarrow> seed_draws) \<Rightarrow> (nat \<Rightarrow> time) \<Rightarrow> demo_org list \<Rightarrow> db \<Rightarrow> (exc + run_counts) \<times> db" where
  "seed_demo E d clock specs s =
     (case seed_orgs E d 0 specs s of
        (Inl e, s') \<Rightarrow> (Inl e, s')
      | (Inr _, s') \<Rightarrow>
          run_pending (e_uuid E) (e_embed E) (e_show_exc E) (e_chunk_size E) (e_chunk_overlap E)
            (e_job_stale_after_seconds E) clock 1000 s')"

section \<open>Laws\<close>

text \<open>An organisation that exists is left alone, and seeding never removes one.\<close>

lemma seed_org_skips: "org_exists (do_slug spec) s \<Longrightarrow> seed_org E d spec s = (Inr (), s)"
  by (simp add: seed_org_def)

lemma seed_orgs_skips: "\<forall>spec\<in>set specs. org_exists (do_slug spec) s \<Longrightarrow> seed_orgs E d i specs s = (Inr (), s)"
  by (induction specs arbitrary: i) (simp_all add: seed_org_skips)

lemma seed_idempotent:
  assumes "\<forall>spec\<in>set specs. org_exists (do_slug spec) s"
  shows "seed_demo E d clock specs s =
    run_pending (e_uuid E) (e_embed E) (e_show_exc E) (e_chunk_size E) (e_chunk_overlap E)
      (e_job_stale_after_seconds E) clock 1000 s"
  using seed_orgs_skips [OF assms] by (simp add: seed_demo_def)

text \<open>Every document of the two organisations is given to the group its organisation creates, or to everyone.\<close>

lemma demo_groups:
  "spec \<in> set ORGS \<Longrightarrow> d \<in> set (do_documents spec) \<Longrightarrow> dd_group d = None \<or> dd_group d = Some (do_group spec)"
  by (auto simp: ORGS_def demo_row_def simp del: ascii_Cons)

text \<open>The restricted documents of an organisation go to its one group, the others to everyone.\<close>

lemma demo_items_acl:
  "it \<in> set (demo_items g spec) \<Longrightarrow> it_acl it = Some [ascii ''group:'' @ g] \<or> it_acl it = Some [ascii ''public-to-org'']"
  by (auto simp: demo_items_def simp del: ascii_Cons)

lemma reset_accounts_gone:
  assumes "u \<in> set (users (reset_accounts spec s))"
  shows "\<not> ends_with (ascii ''@'' @ do_slug spec @ ascii ''.test'') (u_email u)"
  using assms by (auto simp: reset_accounts_def delete_users_def delete_answers_def Let_def table_simps simp del: ascii_Cons)

end
