(* ===== verification/EvalLaws.thy ===== *)
theory EvalLaws
  imports Evals
begin

text \<open>
  What the permission-leak eval rests on, call by call: which rows a call may touch, that one access
  list on every document stays the only one, who a bearer token signs in, and what a caller whom
  that list does not name is shown.
\<close>

section \<open>Calls that returned\<close>

lemma and_next_Inr: "and_next m f = (Inr y, sv') \<longleftrightarrow> (\<exists>x sv1. m = (Inr x, sv1) \<and> f x sv1 = (Inr y, sv'))"
  by (cases m; cases "fst m") (auto simp: and_next_def split: sum.splits)

lemma client_call_Inr: "client_call p = (Inr rep, sv') \<longleftrightarrow> p = (rep, sv') \<and> status_of rep < 500"
  by (cases p) (auto simp: client_call_def)

lemma json_of_Inr: "json_of key p = (Inr x, sv') \<longleftrightarrow> (\<exists>code. p = (Reply code x, sv') \<and> code < 500)"
proof
  assume "json_of key p = (Inr x, sv')"
  then obtain rep sv1 where "client_call p = (Inr rep, sv1)"
      "(case rep of Reply code x \<Rightarrow> (Inr x, sv1) | Refused code detail retry \<Rightarrow> (Inl (KeyError key), sv1)) = (Inr x, sv')"
    by (auto simp: json_of_def and_next_Inr)
  then show "\<exists>code. p = (Reply code x, sv') \<and> code < 500"
    by (cases rep) (auto simp: client_call_Inr)
qed (auto simp: json_of_def and_next_Inr client_call_def)

lemma signed_in_Reply:
  assumes "signed_in E rq sv handler = (Reply c x, sv')"
  obtains token ctx where "current_ctx E rq (sv_db sv) = Inr (token, ctx)" "handler token ctx = (Reply c x, sv')"
  using assms by (cases "current_ctx E rq (sv_db sv)") (auto simp: signed_in_def error_reply_def)

lemma respond_Reply: "respond code m sv = (Reply c x, sv') \<longleftrightarrow> c = code \<and> m = (Inr x, sv_db sv') \<and> sv' = sv\<lparr>sv_db := sv_db sv'\<rparr>"
  by (cases m; cases "fst m") (auto simp: respond_def error_reply_def)

lemma validated_Reply: "validated ok sv handled = (Reply c x, sv') \<longleftrightarrow> ok \<and> handled = (Reply c x, sv')"
  by (simp add: validated_def del: ascii_Cons)

lemma signup_Reply:
  assumes "signup_endpoint E rq slug name email password org u raw sv = (Reply c x, sv')"
  shows "signup E slug name email password org u raw (rq_now rq) (sv_db sv) = (Inr x, sv_db sv')"
  using assms unfolding signup_endpoint_def
  by (elim throttled_cases) (simp_all add: validated_Reply respond_Reply)

lemma login_Reply:
  assumes "login_endpoint E rq email password slug raw sv = (Reply c x, sv')"
  shows "login E email password slug raw (rq_now rq) (sv_db sv) = (Inr x, sv_db sv')"
  using assms unfolding login_endpoint_def
  by (elim throttled_cases) (simp_all add: validated_Reply respond_Reply)

lemma add_member_Reply:
  assumes "add_member_endpoint E rq email password role u sv = (Reply c x, sv')"
  obtains ctx where "add_member_route E ctx email password role u (rq_now rq) (sv_db sv) = (Inr x, sv_db sv')"
  using assms unfolding add_member_endpoint_def
  by (elim signed_in_Reply) (auto simp: validated_Reply respond_Reply)

lemma search_Reply:
  assumes "search_endpoint E rq query k sv = (rep, sv')"
  shows "sv' = sv"
    and "rep = Reply c hits \<Longrightarrow> \<exists>token ctx. current_ctx E rq (sv_db sv) = Inr (token, ctx)
      \<and> retrieve (e_embed_query E) (e_cosine E) ctx query (nat k) (sv_db sv) = Inr hits"
proof -
  show "sv' = sv" using assms
    by (auto simp: search_endpoint_def signed_in_def validated_def reading_def respond_def split: sum.splits if_splits)
  assume "rep = Reply c hits"
  with assms have "search_endpoint E rq query k sv = (Reply c hits, sv')" by simp
  then show "\<exists>token ctx. current_ctx E rq (sv_db sv) = Inr (token, ctx)
      \<and> retrieve (e_embed_query E) (e_cosine E) ctx query (nat k) (sv_db sv) = Inr hits"
    unfolding search_endpoint_def by (elim signed_in_Reply) (auto simp: validated_Reply reading_def respond_Reply)
qed

section \<open>Rows a call leaves alone\<close>

definition same_desk :: "db \<Rightarrow> db \<Rightarrow> bool" where
  "same_desk s s' \<longleftrightarrow> orgs s' = orgs s \<and> users s' = users s \<and> memberships s' = memberships s \<and> sessions s' = sessions s
      \<and> documents s' = documents s \<and> chunks s' = chunks s"

lemma same_desk_refl [simp]: "same_desk s s"
  by (simp add: same_desk_def)

lemma same_desk_trans: "same_desk a b \<Longrightarrow> same_desk b c \<Longrightarrow> same_desk a c"
  by (simp add: same_desk_def)

lemma log_event_same: "same_desk s (log_event E ctx action detail now s)"
  by (simp add: same_desk_def log_event_def audit_def insert_audit_def)

lemma ledger_same:
  "record_answer ctx q p refused fresh now s = Inr (i, s1) \<Longrightarrow> same_desk s s1"
  "mark_blocked pg ctx i s = Inr s1 \<Longrightarrow> same_desk s s1"
  "finalize_answer pg day_of ctx i it ot paid est now s = Inr s1 \<Longrightarrow> same_desk s s1"
  by (auto simp: same_desk_def record_answer_def mark_blocked_def finalize_answer_def insert_answer_def result_simps
      split: if_splits)

lemma settle_same: "settle E ctx q g now s = Inr s' \<Longrightarrow> same_desk s s'"
  by (auto simp: settle_def Let_def case_prod_beta split: option.splits if_splits intro: ledger_same)

lemma stream_events_same: "stream_events E ctx q g es ending now s = Inr (f, g', s') \<Longrightarrow> same_desk s s'"
  by (cases "(E, ctx, q, g, es, ending, now, s)" rule: stream_events.cases)
    (auto simp: caught_def finish_def usage_event_def Let_def andthen_Inr split: sum.splits if_splits
      intro: ledger_same same_desk_trans [OF ledger_same(3) log_event_same] dest: settle_same)

lemma blocked_start_same: "blocked_start E ctx q g reason now s = Inr (f, g', s') \<Longrightarrow> same_desk s s'"
  by (auto simp: blocked_start_def caught_def Let_def split: sum.splits prod.splits
      intro: ledger_same same_desk_trans [OF ledger_same(1) same_desk_trans [OF ledger_same(2) log_event_same]])

lemma answer_start_same: "answer_start E ctx q g now s = Inr (f, g', s') \<Longrightarrow> same_desk s s'"
  by (auto simp: answer_start_def caught_def Let_def split: sum.splits prod.splits if_splits
      intro: same_desk_trans [OF ledger_same(1) log_event_same]
        same_desk_trans [OF ledger_same(1) same_desk_trans [OF log_event_same log_event_same]])

lemma ask_next_same: "ask_next E ctx q g now s = Inr (f, g', s') \<Longrightarrow> same_desk s s'"
  by (auto simp: ask_next_def refusal_step_def finish_def andthen_Inr split: point.splits option.splits list.splits
      if_splits prod.splits dest: settle_same stream_events_same blocked_start_same answer_start_same)

lemma read_frames_same: "read_frames E ctx q clock i n g s = (fs, g', s') \<Longrightarrow> same_desk s s'"
proof (induction n arbitrary: i g s fs)
  case (Suc n)
  then show ?case
    by (auto split: sum.splits option.splits prod.splits dest!: ask_next_same intro: same_desk_trans)
qed simp

lemma answer_stream_same:
  assumes "answer_stream E ctx q clock n s = (fs, s')"
  shows "same_desk s s'"
proof -
  obtain g s1 where run: "read_frames E ctx q clock 0 n new_asking s = (fs, g, s1)"
    and s': "s' = (case ask_close E ctx q g (clock n) s1 of Inl e \<Rightarrow> s1 | Inr s2 \<Rightarrow> s2)"
    using assms by (auto simp: answer_stream_def split: prod.splits)
  have "same_desk s1 s'"
    using s' settle_same [of E ctx q g "clock n" s1] by (auto simp: ask_close_def split: point.splits sum.splits)
  with read_frames_same [OF run] show ?thesis by (rule same_desk_trans)
qed

lemma ask_endpoint_cases:
  assumes "ask_endpoint E rq q k clock n sv = (rep, sv')"
  obtains (refused) code detail retry where "rep = Refused code detail retry" "sv_db sv' = sv_db sv"
  | (answered) code token ctx q' fs where "current_ctx E rq (sv_db sv) = Inr (token, ctx)" "rep = Reply code fs"
      "answer_stream E ctx q' clock n (sv_db sv) = (fs, sv_db sv')"
  using assms
  by (auto simp: ask_endpoint_def signed_in_def validated_def error_reply_def Let_def
      simp del: ascii_Cons split: sum.splits prod.splits if_splits option.splits)

lemma ask_endpoint_same: "ask_endpoint E rq q k clock n sv = (rep, sv') \<Longrightarrow> same_desk (sv_db sv) (sv_db sv')"
  by (erule ask_endpoint_cases) (simp_all add: answer_stream_same)


section \<open>One access list for all\<close>

text \<open>
  \<open>only_acl A s\<close>: every document and every chunk of \<open>s\<close> carries the access list \<open>A\<close>.  An upload of
  items with that list keeps it, and so does the drain, which copies the list of a document to
  its chunks.
\<close>

definition only_acl :: "pystr list \<Rightarrow> db \<Rightarrow> bool" where
  "only_acl A s \<longleftrightarrow> (\<forall>d\<in>set (documents s). d_acl d = A) \<and> (\<forall>c\<in>set (chunks s). c_acl c = A)"

definition acl_frame :: "pystr list \<Rightarrow> db \<Rightarrow> db \<Rightarrow> bool" where
  "acl_frame A s s' \<longleftrightarrow> users s' = users s \<and> sessions s' = sessions s \<and> (only_acl A s \<longrightarrow> only_acl A s')"

lemma acl_frame_refl [simp]: "acl_frame A s s"
  by (simp add: acl_frame_def)

lemma acl_frame_trans: "acl_frame A a b \<Longrightarrow> acl_frame A b c \<Longrightarrow> acl_frame A a c"
  by (simp add: acl_frame_def)

lemma same_desk_acl: "same_desk s s' \<Longrightarrow> acl_frame A s s'"
  by (simp add: same_desk_def acl_frame_def only_acl_def)

lemma jobs_acl [simp]: "acl_frame A s (s\<lparr>jobs := js\<rparr>)"
  by (simp add: acl_frame_def only_acl_def)

lemma tombstone_acl: "acl_frame A s (tombstone org now doc s)"
  by (auto simp: acl_frame_def only_acl_def tombstone_def table_simps bury_document_def)

lemma tombstone_missing_acl: "tombstone_missing org now incoming existing s = (n, s') \<Longrightarrow> acl_frame A s s'"
proof (induction existing arbitrary: s n)
  case (Cons row existing)
  then show ?case
    by (auto simp: Let_def split: if_splits prod.splits intro: acl_frame_trans [OF tombstone_acl])
qed simp

lemma upsert_acl:
  assumes "upsert_document row now s = Inr (p, s')" "d_acl row = A"
  shows "acl_frame A s s'"
proof -
  obtain doc rv where "p = (doc, rv)" by (cases p)
  with assms show ?thesis
    by (auto simp: acl_frame_def only_acl_def table_simps elim!: upsert_document_Inr)
qed

lemma sync_item_acl:
  assumes "sync_item hash detect org source ex fresh now item a = Inr a'" "it_acl item = Some A"
  shows "acl_frame A (sa_db a) (sa_db a')"
  using assms by (auto simp: sync_item_def result_simps item_row_def split: if_splits dest!: upsert_acl [where A = A])

lemma sync_items_acl:
  assumes "sync_items hash detect org source ex fresh_doc now i items a = Inr a'" "\<forall>item\<in>set items. it_acl item = Some A"
  shows "acl_frame A (sa_db a) (sa_db a')"
  using assms
proof (induction items arbitrary: i a)
  case (Cons item items)
  then show ?case by (auto simp: result_simps dest!: sync_item_acl [where A = A] intro: acl_frame_trans)
qed simp

lemma enqueue_acl: "enqueue m org kind payload key ma fresh now s = Inr (b, s') \<Longrightarrow> acl_frame A s s'"
  by (auto simp: enqueue_def insert_job_def split: if_splits)

lemma enqueue_all_acl: "enqueue_all m org fj clock i todo s = (r, s') \<Longrightarrow> acl_frame A s s'"
proof (induction todo arbitrary: i s)
  case (Cons job todo)
  then show ?case
    by (cases job) (auto split: sum.splits intro: acl_frame_trans [OF enqueue_acl])
qed simp

lemma sync_source_acl:
  assumes "sync_source hash detect m bc dc fd fj now clock ctx source items s = (r, s')"
    and items: "\<forall>item\<in>set items. it_acl item = Some A"
  shows "acl_frame A s s'"
proof -
  have trans: "acl_frame A s s1"
    if sync: "sync_transaction hash detect fd now org source items precheck s = Inr (res, todo, s1)" for org precheck res todo s1
  proof -
    obtain acc where acc: "sync_items hash detect org source (existing_rows org source s) fd now 0 items
          \<lparr>sa_enqueued = 0, sa_unchanged = 0, sa_jobs = [], sa_db = s\<rparr> = Inr acc"
      and rest: "(let (deleted, s') = tombstone_missing org now (map it_path items) (existing_rows org source s) (sa_db acc)
         in Inr (\<lparr>sr_enqueued = sa_enqueued acc, sr_unchanged = sa_unchanged acc, sr_deleted = deleted\<rparr>,
              sa_jobs acc, s')) = (Inr (res, todo, s1) :: exc + _)"
      using sync unfolding sync_transaction_def Let_def [of "existing_rows org source s"] andthen_Inr by blast
    from rest obtain n where tombs:
      "tombstone_missing org now (map it_path items) (existing_rows org source s) (sa_db acc) = (n, s1)"
      by (cases "tombstone_missing org now (map it_path items) (existing_rows org source s) (sa_db acc)") simp
    from sync_items_acl [OF acc items] tombstone_missing_acl [OF tombs] show ?thesis
      by (auto intro: acl_frame_trans)
  qed
  show ?thesis
    using assms(1) unfolding sync_source_def sync_documents_def
    by (auto split: sum.splits prod.splits dest!: trans enqueue_all_acl [where A = A] intro: acl_frame_trans)
qed

lemma process_ingest_document_acl:
  assumes "process_ingest_document pg embed_docs cs co now org payload s = Inr s'"
  shows "acl_frame A s s'"
  using assms
proof (cases rule: process_ingest_document_Inr)
  case (ingested id doc rows)
  from ingested(6) have "\<forall>c\<in>set rows. c_acl c = d_acl doc" by (auto elim!: chunk_rows_Inr)
  with ingested(3) ingest_write_Inr(1) [OF ingested(7)] show ?thesis
    by (auto simp: acl_frame_def only_acl_def table_simps)
qed simp

lemma mark_document_failed_acl:
  assumes "mark_document_failed pg org i now s = Inr s'"
  shows "acl_frame A s s'"
proof -
  let ?fail = "\<lambda>d. d\<lparr>d_status := DFailed, d_updated := now\<rparr>"
  obtain P where s': "s' = s\<lparr>documents := update_where P ?fail (documents s)\<rparr>"
    using assms unfolding mark_document_failed_def andthen_Inr by blast
  have "d_acl d = A" if "\<forall>d\<in>set (documents s). d_acl d = A" "d \<in> set (documents s')" for d
    using that by (auto simp: s' set_update_where)
  then show ?thesis by (simp add: acl_frame_def only_acl_def s')
qed

lemma work_job_acl: "work_job pg embed_docs show_exc cs co now job s = (r, s') \<Longrightarrow> acl_frame A s s'"
proof (erule work_job_cases)
  have failed: "mark_failed i err b now s = (st, s1) \<Longrightarrow> acl_frame A s s1" for i err b st s s1
    by (auto simp: mark_failed_def Let_def split: option.splits if_splits)
  show "acl_frame A s s'" if "handle_job pg embed_docs cs co now job s = Inr s1" "s' = mark_succeeded (j_id job) now s1" for s1
    using that process_ingest_document_acl [of pg embed_docs cs co now "j_org job" "j_payload job" s s1 A]
    by (auto simp: handle_job_def mark_succeeded_def split: if_splits intro: acl_frame_trans)
  show "acl_frame A s s'" if "mark_failed (j_id job) (show_exc e) None now s = (st, s')" for e st
    using failed [OF that] .
  show "acl_frame A s s'" if "mark_failed (j_id job) (show_exc e) None now s = (JDead, s1)"
    "mark_document_failed pg (j_org job) doc now s1 = Inr s'" for e s1 doc
  proof -
    have "acl_frame A s1 s'"
      using that(2) mark_document_failed_acl by blast
    with failed [OF that(1)] show ?thesis by (rule acl_frame_trans)
  qed
qed

interpretation drained: job_loop "\<lambda>i. claim_one stale (clock (2 * i))"
  "\<lambda>i. work_job pg embed_docs show_exc cs co (clock (2 * i + 1))" "acl_frame A s"
  for stale clock pg embed_docs show_exc cs co A s
proof
  fix q i j q1 r q2
  assume "acl_frame A s q" and claim: "claim_one stale (clock (2 * i)) q = Some (j, q1)"
    and work: "work_job pg embed_docs show_exc cs co (clock (2 * i + 1)) j q1 = (r, q2)"
  moreover have "acl_frame A q q1" using claim by (auto elim: claim_one_Some)
  ultimately show "acl_frame A s q2" using work_job_acl [OF work] by (blast intro: acl_frame_trans)
qed

lemma run_pending_acl:
  assumes "run_pending pg embed_docs show_exc cs co stale clock n s = (r, s')"
  shows "acl_frame A s s'"
  using drained.loop_inv [OF _ assms [unfolded run_pending_def], of A s] by simp

lemma eval_upload_acl:
  assumes "eval_upload E W i token items sv = (Inr counts, sv')" and items: "\<forall>item\<in>set items. it_acl item = Some A"
  shows "acl_frame A (sv_db sv) (sv_db sv')"
proof -
  let ?d = "ew_draws W i" and ?rq = "eval_request W i (bearer token)"
  obtain rep sv1 where up: "upload_folder_endpoint E ?rq items (dr_doc ?d) (dr_job ?d) (dr_clock ?d) sv = (rep, sv1)"
    and run: "(case run_pending (e_uuid E) (e_embed E) (e_show_exc E) (e_chunk_size E) (e_chunk_overlap E)
                        (e_job_stale_after_seconds E) (dr_clock ?d) 1000 (sv_db sv1) of
                  (r, s) \<Rightarrow> (r, sv1\<lparr>sv_db := s\<rparr>)) = (Inr counts, sv')"
    using assms(1) by (auto simp: eval_upload_def Let_def and_next_Inr client_call_Inr)
  have folder: "acl_frame A (sv_db sv) s'"
    if "upload_folder E ctx items fd fj now clock (sv_db sv) = (r, s')" for ctx fd fj now clock r s'
    using that sync_source_acl [OF _ items] acl_frame_trans [OF _ same_desk_acl [OF log_event_same]]
    unfolding upload_folder_def by (auto simp del: ascii_Cons split: sum.splits prod.splits)
  have "acl_frame A (sv_db sv) (sv_db sv1)"
    using up unfolding upload_folder_endpoint_def signed_in_def validated_def respond_def
    by (auto simp del: ascii_Cons split: sum.splits prod.splits if_splits dest: folder)
  moreover have "acl_frame A (sv_db sv1) (sv_db sv')"
    using run by (auto split: prod.splits dest: run_pending_acl)
  ultimately show ?thesis by (rule acl_frame_trans)
qed

section \<open>Who is signed in\<close>

lemma call_Inr: "call m s f = (Inr x, s') \<longleftrightarrow> (\<exists>y s1. m = Inr (y, s1) \<and> f y s1 = (Inr x, s'))"
  by (auto simp: call_def split: sum.splits prod.splits)

lemma start_session_rows:
  assumes "start_session E ctx action detail raw now s = (Inr x, s')"
  shows "fst x = raw" "e_hash_token E raw \<notin> s_token ` set (sessions s)" "users s' = users s"
    "sessions s' = sessions s @ [\<lparr>s_token = e_hash_token E raw, s_user = ctx_user ctx, s_org = ctx_org ctx,
       s_expires = now + hours (e_session_ttl_hours E)\<rparr>]"
    "documents s' = documents s" "chunks s' = chunks s"
proof -
  obtain token s1 where "create_session (e_hash_token E) (e_session_ttl_hours E) ctx raw now s = Inr (token, s1)"
    and x: "x = (token, ctx_org ctx, ctx_role ctx)" "s' = log_event E ctx action detail now s1"
    using assms unfolding start_session_def by (auto simp: call_Inr)
  note made = create_session_Inr [OF this(1)] and same = log_event_same [of s1 E ctx action detail now]
  show "fst x = raw" "e_hash_token E raw \<notin> s_token ` set (sessions s)" "users s' = users s"
    "sessions s' = sessions s @ [\<lparr>s_token = e_hash_token E raw, s_user = ctx_user ctx, s_org = ctx_org ctx,
       s_expires = now + hours (e_session_ttl_hours E)\<rparr>]"
    "documents s' = documents s" "chunks s' = chunks s"
    using made same x by (simp_all add: same_desk_def)
qed

lemma signup_rows:
  assumes "signup E slug name email password org u raw now s = (Inr x, s')"
  shows "users s' = users s @ [\<lparr>u_id = u, u_email = e_lower E (strip email), u_hash = e_pw_hash E password\<rparr>]"
    "documents s' = documents s" "chunks s' = chunks s"
proof -
  obtain ctx s1 where made: "create_org_with_owner (e_lower E) (e_pw_hash E) slug name email password org u now s = Inr (ctx, s1)"
    and rest: "start_session E ctx (ascii ''org.created'') [(ascii ''slug'', JStr slug)] raw now s1 = (Inr x, s')"
    using assms unfolding signup_def by (auto simp: call_Inr simp del: ascii_Cons)
  show "users s' = users s @ [\<lparr>u_id = u, u_email = e_lower E (strip email), u_hash = e_pw_hash E password\<rparr>]"
    "documents s' = documents s" "chunks s' = chunks s"
    using create_org_Inr(6) [OF made] start_session_rows(3,5,6) [OF rest] by simp_all
qed

lemma add_member_rows:
  assumes "add_member_route E ctx email password role u now s = (Inr x, s')"
  shows "x = u" "u \<notin> u_id ` set (users s)" "e_lower E (strip email) \<notin> u_email ` set (users s)"
    "users s' = users s @ [\<lparr>u_id = u, u_email = e_lower E (strip email), u_hash = e_pw_hash E password\<rparr>]"
    "documents s' = documents s" "chunks s' = chunks s"
proof -
  obtain s1 where made: "add_member (e_lower E) (e_pw_hash E) (ctx_org ctx) email password role u now s = Inr (x, s1)"
    and s': "\<exists>action detail. s' = log_event E ctx action detail now s1"
    using assms unfolding add_member_route_def by (auto simp: call_Inr split: sum.splits)
  obtain action detail where s': "s' = log_event E ctx action detail now s1" using s' by blast
  note made = add_member_Inr [OF made] and same = log_event_same [of s1 E ctx action detail now]
  show "x = u" "u \<notin> u_id ` set (users s)" "e_lower E (strip email) \<notin> u_email ` set (users s)"
    "users s' = users s @ [\<lparr>u_id = u, u_email = e_lower E (strip email), u_hash = e_pw_hash E password\<rparr>]"
    "documents s' = documents s" "chunks s' = chunks s"
    using made same s' by (simp_all add: same_desk_def)
qed

lemma login_rows:
  assumes "login E email password slug raw now s = (Inr x, s')"
  obtains u and ctx :: auth_context where "u \<in> set (users s)" "u_email u = e_lower E (strip email)" "ctx_user ctx = u_id u" "fst x = raw"
    "e_hash_token E raw \<notin> s_token ` set (sessions s)" "users s' = users s"
    "sessions s' = sessions s @ [\<lparr>s_token = e_hash_token E raw, s_user = u_id u, s_org = ctx_org ctx,
       s_expires = now + hours (e_session_ttl_hours E)\<rparr>]"
    "documents s' = documents s" "chunks s' = chunks s"
proof -
  obtain ctx where auth: "authenticate (e_lower E) (e_verify E) email password slug s = Inr ctx"
    and rest: "start_session E ctx (ascii ''user.login'') [] raw now s = (Inr x, s')"
    using assms unfolding login_def by (auto simp del: ascii_Cons split: sum.splits)
  from auth obtain u where u: "u \<in> set (users s)" "u_email u = e_lower E (strip email)" "ctx_user ctx = u_id u"
    by (elim authenticate_Inr) auto
  with start_session_rows [OF rest] show thesis by (intro that [of u ctx]) simp_all
qed

text \<open>The bearer of a token whose session is in the table once is the user of that session.\<close>

lemma bearer_is:
  assumes ctx: "current_ctx E (eval_request W i (bearer raw)) s = Inr (token, ctx)" and raw: "strip raw = raw"
    and sessions: "sessions s = ss @ [x]" "s_token x = e_hash_token E raw" "e_hash_token E raw \<notin> s_token ` set ss"
  shows "ctx_user ctx = s_user x"
proof -
  have "bearer_token E (eval_request W i (bearer raw)) = Inr token"
    and found: "resolve_session (e_hash_token E) token (ew_now W i) s = Some ctx"
    using ctx by (simp_all add: current_ctx_Inr eval_request_def del: ascii_Cons)
  then have "token = raw"
    using raw by (auto simp: bearer_token_def eval_request_def bearer_def Let_def split: if_splits)
  with found obtain y where "y \<in> set (sessions s)" "s_token y = e_hash_token E raw" "ctx_user ctx = s_user y"
    by (elim resolve_session_Some) auto
  with sessions show ?thesis by (auto simp: image_iff)
qed

section \<open>What a stranger is shown\<close>

lemma restricted_search:
  assumes "only_acl [ascii ''user:'' @ u] s" "ctx_user ctx \<noteq> u"
  shows "search cosine ctx q k s = []"
proof -
  have "False" if hit: "h \<in> set (search cosine ctx q k s)" for h
  proof -
    obtain c where "c \<in> set (chunks s)" "acl_allows (c_acl c) (principals ctx s)"
      by (rule search_hits [OF hit]) blast
    with assms(1) have "ascii ''user:'' @ u \<in> set (principals ctx s)"
      by (auto simp: only_acl_def acl_allows_iff simp del: ascii_Cons)
    with assms(2) show False by (auto simp: principals_iff public_principal_def)
  qed
  then show ?thesis by (meson last_in_set)
qed

lemma split_words_chars: "w \<in> set (split_words s) \<Longrightarrow> set w \<subseteq> set s"
proof (induction s rule: split_words.induct)
  case (1 s)
  show ?case
  proof
    fix c assume c: "c \<in> set w"
    let ?t = "dropWhile is_space s"
    have t: "?t \<noteq> []" and w: "w = takeWhile (\<lambda>c. \<not> is_space c) ?t \<or> w \<in> set (split_words (dropWhile (\<lambda>c. \<not> is_space c) ?t))"
      using "1.prems" by (auto simp: split_words.simps [of s] lstrip_def Let_def split: if_splits)
    have "set ?t \<subseteq> set s" by (meson set_dropWhileD subsetI)
    from w show "c \<in> set s"
    proof
      assume "w = takeWhile (\<lambda>c. \<not> is_space c) ?t"
      with c \<open>set ?t \<subseteq> set s\<close> show ?thesis by (auto dest: set_takeWhileD)
    next
      assume "w \<in> set (split_words (dropWhile (\<lambda>c. \<not> is_space c) ?t))"
      with "1.IH" t c \<open>set ?t \<subseteq> set s\<close> show ?thesis by (auto simp: lstrip_def dest: set_dropWhileD)
    qed
  qed
qed

text \<open>A generator that found no passage yields no sources, and tokens of the fixed refusal only.\<close>

fun mute :: "frame \<Rightarrow> bool" where
  "mute (Sources ss) = False"
| "mute (Token t) = (45 \<notin> set t)"
| "mute _ = True"

fun mute_point :: "point \<Rightarrow> bool" where
  "mute_point (Refusing ws) = (\<forall>w\<in>set ws. 45 \<notin> set w)"
| "mute_point AfterSources = False"
| "mute_point (Streaming es ending) = False"
| "mute_point _ = True"

lemma refusal_words: "\<forall>w\<in>set (split_words REFUSAL). 45 \<notin> set w"
proof -
  have "45 \<notin> set REFUSAL" by (simp add: REFUSAL_def)
  then show ?thesis using split_words_chars by blast
qed

lemma refusal_step_mute:
  assumes "refusal_step g ws s = Inr (f, g', s')" "\<forall>w\<in>set ws. 45 \<notin> set w"
  shows "mute_point (g_point g') \<and> g_contexts g' = g_contexts g \<and> g_point g' \<noteq> Fresh \<and> (\<forall>fr. f = Some fr \<longrightarrow> mute fr)"
  using assms by (cases ws) (auto simp: refusal_step_def)

lemma finish_mute:
  assumes "finish E ctx q g now s = Inr (f, g', s')"
  shows "mute_point (g_point g') \<and> g_contexts g' = g_contexts g \<and> g_point g' \<noteq> Fresh \<and> (\<forall>fr. f = Some fr \<longrightarrow> mute fr)"
  using assms by (auto simp: finish_def andthen_Inr)

lemma ask_next_mute:
  assumes step: "ask_next E ctx q g now s = Inr (f, g', s')" and g: "mute_point (g_point g)" "g_contexts g = []"
    and fresh: "g_point g = Fresh \<Longrightarrow> \<forall>hits. retrieve (e_embed_query E) (e_cosine E) ctx (q_question q) (q_k q) s = Inr hits \<longrightarrow> hits = []"
  shows "mute_point (g_point g') \<and> g_contexts g' = [] \<and> g_point g' \<noteq> Fresh \<and> (\<forall>fr. f = Some fr \<longrightarrow> mute fr)"
proof (cases "g_point g")
  case Fresh
  show ?thesis
  proof (cases "limit_block E ctx now s")
    case None
    then have "answer_start E ctx q g now s = Inr (f, g', s')" using step Fresh by (simp add: ask_next_def)
    then show ?thesis using fresh [OF Fresh] g(2)
      by (auto simp: answer_start_def caught_def Let_def split: sum.splits prod.splits)
  next
    case (Some reason)
    then have "blocked_start E ctx q g reason now s = Inr (f, g', s')" using step Fresh by (simp add: ask_next_def)
    then show ?thesis using g(2) by (auto simp: blocked_start_def caught_def Let_def split: sum.splits prod.splits)
  qed
next
  case Answering
  then show ?thesis using step g(2) refusal_step_mute [OF _ refusal_words] by (auto simp: ask_next_def)
next
  case (Refusing ws)
  then show ?thesis using step g refusal_step_mute [of g ws] by (auto simp: ask_next_def)
qed (use step g finish_mute [of E ctx q g now s f g' s'] in \<open>auto simp: ask_next_def simp del: ascii_Cons\<close>)

lemma read_frames_mute:
  assumes "read_frames E ctx q clock i n g s = (fs, g', s')" "mute_point (g_point g)" "g_contexts g = []"
    and "g_point g = Fresh \<Longrightarrow> \<forall>hits. retrieve (e_embed_query E) (e_cosine E) ctx (q_question q) (q_k q) s = Inr hits \<longrightarrow> hits = []"
  shows "\<forall>f\<in>set fs. mute f"
  using assms
proof (induction n arbitrary: i g s fs)
  case (Suc n)
  show ?case
  proof (cases "ask_next E ctx q g (clock i) s")
    case (Inl e)
    with Suc.prems(1) show ?thesis by simp
  next
    case (Inr p)
    obtain f g1 s1 where p: "p = (f, g1, s1)" by (cases p)
    note next_ok = ask_next_mute [OF Inr [unfolded p] Suc.prems(2-4)]
    show ?thesis
    proof (cases f)
      case None
      with Suc.prems(1) Inr p show ?thesis by simp
    next
      case (Some fr)
      obtain fs1 where fs: "fs = fr # fs1" "read_frames E ctx q clock (Suc i) n g1 s1 = (fs1, g', s')"
        using Suc.prems(1) Inr p Some by (auto split: prod.splits)
      from Suc.IH [OF fs(2)] next_ok Some fs(1) show ?thesis by simp
    qed
  qed
qed simp

lemma mute_frames:
  assumes "\<forall>f\<in>set fs. mute f"
  shows "sources_in fs = []" "45 \<notin> set (text_in fs)"
proof -
  have "\<not> (case f of Sources ss \<Rightarrow> True | _ \<Rightarrow> False)" if "f \<in> set fs" for f
    using assms that by (cases f) auto
  then have "find (\<lambda>e. case e of Sources ss \<Rightarrow> True | _ \<Rightarrow> False) fs = None" by (simp add: find_None)
  then show "sources_in fs = []" by (simp add: sources_in_def)
  show "45 \<notin> set (text_in fs)"
    using assms by (induction fs) (auto simp: text_in_def split: frame.splits)
qed

lemma answer_stream_mute:
  assumes "answer_stream E ctx q clock n s = (fs, s')" "only_acl [ascii ''user:'' @ u] s" "ctx_user ctx \<noteq> u"
  shows "sources_in fs = [] \<and> 45 \<notin> set (text_in fs)"
proof -
  obtain g s1 where "read_frames E ctx q clock 0 n new_asking s = (fs, g, s1)"
    using assms(1) by (auto simp: answer_stream_def split: prod.splits)
  from read_frames_mute [OF this] have "\<forall>f\<in>set fs. mute f"
    using restricted_search [OF assms(2,3)] by (auto simp: new_asking_def retrieve_def andthen_Inr simp del: ascii_Cons)
  from mute_frames [OF this] show ?thesis by blast
qed

section \<open>The calls of an eval\<close>

lemma eval_ask_same:
  assumes "eval_ask E W i token question sv = (Inr fs, sv')"
  shows "same_desk (sv_db sv) (sv_db sv')"
  using assms by (auto simp: eval_ask_def Let_def and_next_Inr client_call_Inr dest: ask_endpoint_same)

lemma eval_ask_mute:
  assumes ask: "eval_ask E W i raw question sv = (Inr fs, sv')" and acl: "only_acl [ascii ''user:'' @ u] (sv_db sv)"
    and who: "\<And>token ctx. current_ctx E (eval_request W i (bearer raw)) (sv_db sv) = Inr (token, ctx) \<Longrightarrow> ctx_user ctx \<noteq> u"
  shows "sources_in fs = [] \<and> 45 \<notin> set (text_in fs)"
proof -
  obtain rep where rep: "ask_endpoint E (eval_request W i (bearer raw)) ((ew_ask W i)\<lparr>q_question := question\<rparr>) None
        (dr_clock (ew_draws W i)) (dr_frames (ew_draws W i)) sv = (rep, sv')"
    and fs: "fs = (case rep of Reply code fs \<Rightarrow> fs | Refused code detail retry \<Rightarrow> [])"
    using ask by (auto simp: eval_ask_def Let_def and_next_Inr client_call_Inr)
  from rep show ?thesis
  proof (cases rule: ask_endpoint_cases)
    case (refused code detail retry)
    with fs show ?thesis by (simp add: sources_in_def text_in_def)
  next
    case (answered code token ctx q' fs')
    with fs answer_stream_mute [OF answered(3) acl] who [OF answered(1)] show ?thesis by simp
  qed
qed

lemma eval_signup_rows:
  assumes "eval_signup E W i slug email sv = (Inr token, sv')"
  shows "\<exists>u. users (sv_db sv') = users (sv_db sv) @ [u] \<and> u_email u = e_lower E (strip email)"
    "documents (sv_db sv') = documents (sv_db sv)" "chunks (sv_db sv') = chunks (sv_db sv)"
  using assms signup_rows by (auto simp: eval_signup_def Let_def and_next_Inr json_of_Inr dest!: signup_Reply)

lemma eval_add_member_rows:
  assumes "eval_add_member E W i owner email sv = (Inr uid, sv')"
  shows "uid \<notin> u_id ` set (users (sv_db sv))" "e_lower E (strip email) \<notin> u_email ` set (users (sv_db sv))"
    "\<exists>u. users (sv_db sv') = users (sv_db sv) @ [u] \<and> u_id u = uid \<and> u_email u = e_lower E (strip email)"
    "documents (sv_db sv') = documents (sv_db sv)" "chunks (sv_db sv') = chunks (sv_db sv)"
proof -
  obtain code where "add_member_endpoint E (eval_request W i (bearer owner)) email PW r_member (dr_user (ew_draws W i)) sv
      = (Reply code uid, sv')"
    using assms by (auto simp: eval_add_member_def json_of_Inr)
  then obtain ctx where made: "add_member_route E ctx email PW r_member (dr_user (ew_draws W i))
      (rq_now (eval_request W i (bearer owner))) (sv_db sv) = (Inr uid, sv_db sv')"
    by (elim add_member_Reply)
  show "uid \<notin> u_id ` set (users (sv_db sv))" "e_lower E (strip email) \<notin> u_email ` set (users (sv_db sv))"
    "\<exists>u. users (sv_db sv') = users (sv_db sv) @ [u] \<and> u_id u = uid \<and> u_email u = e_lower E (strip email)"
    "documents (sv_db sv') = documents (sv_db sv)" "chunks (sv_db sv') = chunks (sv_db sv)"
    using add_member_rows [OF made] by simp_all
qed

lemma eval_login_rows:
  assumes "eval_login E W i email slug sv = (Inr token, sv')"
  obtains u x where "u \<in> set (users (sv_db sv))" "u_email u = e_lower E (strip email)" "token = dr_token (ew_draws W i)"
    "users (sv_db sv') = users (sv_db sv)" "sessions (sv_db sv') = sessions (sv_db sv) @ [x]" "s_user x = u_id u"
    "s_token x = e_hash_token E token" "e_hash_token E token \<notin> s_token ` set (sessions (sv_db sv))"
    "documents (sv_db sv') = documents (sv_db sv)" "chunks (sv_db sv') = chunks (sv_db sv)"
proof -
  obtain x code where "login_endpoint E (eval_request W i None) email PW (Some slug) (dr_token (ew_draws W i)) sv = (Reply code x, sv')"
    and token: "token = fst x"
    using assms by (auto simp: eval_login_def and_next_Inr json_of_Inr)
  from login_Reply [OF this(1)] obtain u and ctx :: auth_context where
    u: "u \<in> set (users (sv_db sv))" "u_email u = e_lower E (strip email)" "fst x = dr_token (ew_draws W i)"
    "e_hash_token E (dr_token (ew_draws W i)) \<notin> s_token ` set (sessions (sv_db sv))" "users (sv_db sv') = users (sv_db sv)"
    "sessions (sv_db sv') = sessions (sv_db sv) @ [\<lparr>s_token = e_hash_token E (dr_token (ew_draws W i)), s_user = u_id u,
       s_org = ctx_org ctx, s_expires = rq_now (eval_request W i None) + hours (e_session_ttl_hours E)\<rparr>]"
    "documents (sv_db sv') = documents (sv_db sv)" "chunks (sv_db sv') = chunks (sv_db sv)"
    by (rule login_rows)
  show thesis by (rule that [OF u(1,2) _ u(5,6)]) (use u token in simp_all)
qed

end
