(* ===== verification/EvalGate.thy ===== *)
theory EvalGate
  imports EvalLaws
begin

text \<open>
  The permission-leak eval: its verdict for every service, and one run of it on a small deployment.
\<close>

section \<open>The verdict\<close>

text \<open>
  C11.  The permission-leak eval cannot find a leak.  Whatever the embedder, the model, the tables and
  the clocks do, if the eval comes to a verdict its report says \<open>y_leaked=False\<close>, and it passes
  exactly when the member the document was uploaded for can read it: sign-up, membership, upload,
  drain, login, search and answer stream compose so that the other member's search finds nothing and
  his answer is the fixed refusal.  The token drawn for him has no blank at either end.
\<close>

theorem secret_never_leaks:
  assumes run: "permission_leak_eval E W sv = (Inr v, sv')"
    and raw: "strip (dr_token (ew_draws W 5)) = dr_token (ew_draws W 5)"
  shows "ev_detail v = ascii ''x_can_read='' @ py_bool (ev_passed v) @ ascii '' y_leaked=False''"
proof -
  obtain owner sv1 x_id sv2 y_id sv3 counts sv4 x sv5 y sv6 xs sv7 rep sv8 ys sv9 where
    1: "eval_signup E W 0 (ascii ''acme'') (ascii ''owner@acme.test'') (eval_reset sv) = (Inr owner, sv1)"
    and 2: "eval_add_member E W 1 owner (ascii ''x@acme.test'') sv1 = (Inr x_id, sv2)"
    and 3: "eval_add_member E W 2 owner (ascii ''y@acme.test'') sv2 = (Inr y_id, sv3)"
    and 4: "eval_upload E W 3 owner
        [\<lparr>it_path = ascii ''secret.txt'', it_content = SECRET, it_acl = Some [ascii ''user:'' @ x_id]\<rparr>] sv3 = (Inr counts, sv4)"
    and 5: "eval_login E W 4 (ascii ''x@acme.test'') (ascii ''acme'') sv4 = (Inr x, sv5)"
    and 6: "eval_login E W 5 (ascii ''y@acme.test'') (ascii ''acme'') sv5 = (Inr y, sv6)"
    and 7: "eval_ask E W 6 x SECRET sv6 = (Inr xs, sv7)"
    and 8: "search_endpoint E (eval_request W 7 (bearer y)) SECRET 50 sv7 = (rep, sv8)"
    and 9: "eval_ask E W 8 y SECRET sv8 = (Inr ys, sv9)"
    and v: "(case rep of
         Refused code detail retry \<Rightarrow> (Inl (ExternalError (ascii ''string indices must be integers'')), sv9)
       | Reply code hits \<Rightarrow>
           (let x_can_read = cites (ascii ''secret.txt'') xs;
                y_leaked = list_ex (\<lambda>h. h_path h = ascii ''secret.txt'') hits
                  \<or> contains (ascii ''copper-moon-42'') (text_in ys) \<or> sources_in ys \<noteq> []
            in (Inr \<lparr>ev_name = ascii ''permission-leak'', ev_passed = x_can_read \<and> \<not> y_leaked,
                     ev_detail = ascii ''x_can_read='' @ py_bool x_can_read @ ascii '' y_leaked='' @ py_bool y_leaked\<rparr>,
                sv9))) = (Inr v, sv')"
    using run unfolding permission_leak_eval_def and_next_Inr client_call_Inr by blast
  have sv8: "sv8 = sv7" using search_Reply(1) [OF 8] .
  let ?A = "[ascii ''user:'' @ x_id]"
  obtain uo ux uy where us: "users (sv_db sv3) = [uo, ux, uy]" and ux: "u_id ux = x_id"
    and uy: "u_id uy \<noteq> x_id" "e_lower E (strip (ascii ''y@acme.test'')) \<notin> {u_email uo, u_email ux}"
    using eval_signup_rows(1) [OF 1] eval_add_member_rows(1-3) [OF 2] eval_add_member_rows(1-3) [OF 3]
    by (auto simp: eval_reset_def empty_db_def simp del: ascii_Cons)
  have "only_acl ?A (sv_db sv3)"
    using eval_signup_rows(2,3) [OF 1] eval_add_member_rows(4,5) [OF 2] eval_add_member_rows(4,5) [OF 3]
    by (simp add: only_acl_def eval_reset_def empty_db_def)
  with eval_upload_acl [OF 4, of ?A] us have acl4: "only_acl ?A (sv_db sv4)" and us4: "users (sv_db sv4) = [uo, ux, uy]"
    by (simp_all add: acl_frame_def)
  obtain acl5: "only_acl ?A (sv_db sv5)" and us5: "users (sv_db sv5) = [uo, ux, uy]"
    using 5 by (rule eval_login_rows) (use acl4 us4 in \<open>simp add: only_acl_def\<close>)
  obtain u r where u: "u \<in> set (users (sv_db sv5))" "u_email u = e_lower E (strip (ascii ''y@acme.test''))"
    and r: "y = dr_token (ew_draws W 5)" "sessions (sv_db sv6) = sessions (sv_db sv5) @ [r]" "s_user r = u_id u"
      "s_token r = e_hash_token E y" "e_hash_token E y \<notin> s_token ` set (sessions (sv_db sv5))"
    and acl6: "only_acl ?A (sv_db sv6)"
    using 6 by (rule eval_login_rows) (use acl5 in \<open>simp add: only_acl_def\<close>)
  have "s_user r \<noteq> x_id" using u us5 uy r(3) by (auto simp del: ascii_Cons)
  have same: "sessions (sv_db sv7) = sessions (sv_db sv6)" and acl7: "only_acl ?A (sv_db sv7)"
    using eval_ask_same [OF 7] acl6 by (simp_all add: same_desk_def only_acl_def)
  have who: "ctx_user ctx \<noteq> x_id" if "current_ctx E (eval_request W i (bearer y)) (sv_db sv7) = Inr (token, ctx)" for i token ctx
    using bearer_is [OF that _ same [unfolded r(2)] r(4,5)] raw r(1) \<open>s_user r \<noteq> x_id\<close> by simp
  have "sources_in ys = [] \<and> 45 \<notin> set (text_in ys)" using eval_ask_mute [OF 9 [unfolded sv8] acl7 who] .
  moreover from this have "\<not> contains (ascii ''copper-moon-42'') (text_in ys)"
    by (auto simp: contains_occurs occurs_in_def)
  moreover have "hits = []" if "rep = Reply code hits" for code hits
    using search_Reply(2) [OF 8 that] who restricted_search [OF acl7] by (auto simp: retrieve_def andthen_Inr)
  ultimately show ?thesis using v by (cases rep) (auto simp: Let_def)
qed

section \<open>A run\<close>

definition gate_env :: env where
  "gate_env = sample_env\<lparr>e_lower := map (\<lambda>c. if 65 \<le> c \<and> c \<le> 90 then c + 32 else c), e_chunk_size := 100\<rparr>"

definition gate_world :: eval_world where
  "gate_world = \<lparr>ew_now = (\<lambda>_. 0), ew_tick = (\<lambda>_. 0),
     ew_draws = (\<lambda>i. \<lparr>dr_org = [1], dr_user = [10 + i], dr_token = [90 + i], dr_group = [31], dr_doc = (\<lambda>_. [41]),
       dr_job = (\<lambda>_. [51]), dr_clock = (\<lambda>_. 1), dr_frames = 2\<rparr>),
     ew_ask = (\<lambda>i. \<lparr>q_question = [], q_k = 0, q_answer = [70 + i], q_nonce = [48], q_estimate_nonce = [48], q_reference = [48]\<rparr>),
     ew_nonce = (\<lambda>i. [48 + i]), ew_show = concat\<rparr>"

lemma log_event_fields [simp]:
  "orgs (log_event E ctx action detail now s) = orgs s" "users (log_event E ctx action detail now s) = users s"
  "memberships (log_event E ctx action detail now s) = memberships s" "sessions (log_event E ctx action detail now s) = sessions s"
  "documents (log_event E ctx action detail now s) = documents s" "chunks (log_event E ctx action detail now s) = chunks s"
  "jobs (log_event E ctx action detail now s) = jobs s" "groups (log_event E ctx action detail now s) = groups s"
  "group_members (log_event E ctx action detail now s) = group_members s"
  by (simp_all add: log_event_def audit_def insert_audit_def)

lemmas gate_defs = gate_env_def gate_world_def sample_env_def eval_request_def bearer_def

lemma gate_fields [simp]:
  "e_lower gate_env = map (\<lambda>c. if 65 \<le> c \<and> c \<le> 90 then c + 32 else c)" "e_pw_hash gate_env = (\<lambda>x. x)"
  "e_verify gate_env = (\<lambda>p h. p = h)" "e_hash_token gate_env = (\<lambda>x. x)" "e_hash gate_env = (\<lambda>x. x)"
  "e_unicode gate_env = plain_tables" "e_uuid gate_env = Some" "e_embed gate_env = (\<lambda>ts. Inr (map (\<lambda>_. replicate EMBED_DIM 0) ts))"
  "e_chunk_size gate_env = 100" "e_chunk_overlap gate_env = 2" "e_org_storage_bytes_cap gate_env = 100" "e_org_doc_cap gate_env = 5"
  "e_job_max_attempts gate_env = 3" "e_job_stale_after_seconds gate_env = 600" "e_embed_query gate_env = (\<lambda>_. Inr [])"
  "e_session_ttl_hours gate_env = 1" "e_auth_rate_burst gate_env = 10" "e_auth_rate_per_min gate_env = 10"
  "ew_draws gate_world i = \<lparr>dr_org = [1], dr_user = [10 + i], dr_token = [90 + i], dr_group = [31], dr_doc = (\<lambda>_. [41]),
     dr_job = (\<lambda>_. [51]), dr_clock = (\<lambda>_. 1), dr_frames = 2\<rparr>"
  "rq_now (eval_request gate_world i a) = 0" "rq_tick (eval_request gate_world i a) = 0"
  by (simp_all add: gate_defs)

lemma gate_open: "rate_check b p k (Some 10) (Some 10) 0 [] = ((True, 0), [(k, 9, 0)])"
  "rate_check b p k (Some 10) (Some 10) 0 [(k, 9, 0)] = ((True, 0), [(k, 8, 0)])"
  "rate_check b p k (Some 10) (Some 10) 0 [(k, 8, 0)] = ((True, 0), [(k, 7, 0)])"
  by (simp_all add: rate_check_def sweep_idle_def Let_def)

lemma gate_slug: "SignupRequest plain_tables (ascii ''acme'') (ascii ''acme'') (ascii ''owner@acme.test'') PW"
  by (simp add: SignupRequest_def Slug_def full_match_def SLUG_def slug_char_def sized_def Email_def Password_def PW_def)


abbreviation gate_server :: "db \<Rightarrow> real \<Rightarrow> server" where
  "gate_server s t \<equiv> \<lparr>sv_db = s, sv_limiter = [], sv_auth_limiter = [(ascii ''testclient'', t, 0)]\<rparr>"

abbreviation gate_user :: "nat \<Rightarrow> string \<Rightarrow> user_row" where
  "gate_user i email \<equiv> \<lparr>u_id = [i], u_email = ascii email, u_hash = PW\<rparr>"

abbreviation gate_member :: "nat \<Rightarrow> pystr \<Rightarrow> membership_row" where
  "gate_member i role \<equiv> \<lparr>m_user = [i], m_org = [1], m_role = role, m_created = 0\<rparr>"

abbreviation gate_session :: "nat \<Rightarrow> nat \<Rightarrow> session_row" where
  "gate_session i u \<equiv> \<lparr>s_token = [i], s_user = [u], s_org = [1], s_expires = 3600000000\<rparr>"

definition gate_rows :: "user_row list \<Rightarrow> membership_row list \<Rightarrow> session_row list \<Rightarrow> db \<Rightarrow> bool" where
  "gate_rows us ms ss s \<longleftrightarrow> orgs s = [\<lparr>o_id = [1], o_slug = ascii ''acme'', o_name = ascii ''acme''\<rparr>] \<and> users s = us
     \<and> memberships s = ms \<and> sessions s = ss"

lemma gate_signup:
  "\<exists>s. eval_signup gate_env gate_world 0 (ascii ''acme'') (ascii ''owner@acme.test'') (eval_reset sample_server)
       = (Inr [90], gate_server s 9)
     \<and> gate_rows [gate_user 10 ''owner@acme.test''] [gate_member 10 r_owner] [gate_session 90 10] s
     \<and> documents s = [] \<and> chunks s = [] \<and> jobs s = []"
  using gate_slug
  by (simp add: eval_signup_def json_of_def client_call_def and_next_def signup_endpoint_def throttled_def auth_rate_limit_def
      gate_open client_key_def validated_def respond_def signup_def call_def start_session_def create_org_with_owner_def
      create_session_def eval_reset_def sample_server_def empty_db_def insert_org_def insert_user_def insert_membership_def
      insert_session_def on_unique.simps db_raise_def new_session_token_def gate_defs gate_rows_def id_defs is_member_def
      hours_def known_role_def strip_def lstrip_def is_space_def Let_def)


lemma gate_bearer: "k < 10 \<Longrightarrow> bearer_token gate_env (eval_request gate_world i (bearer [90 + k])) = Inr [90 + k]"
  by (simp add: bearer_token_def gate_defs strip_def lstrip_def is_space_def)

lemmas add_member_defs = eval_add_member_def json_of_def client_call_def and_next_def add_member_endpoint_def signed_in_def
  validated_def respond_def add_member_route_def call_def add_member_def insert_user_def insert_membership_def
  db_raise_def gate_rows_def id_defs known_role_def Let_def is_member_def strip_def lstrip_def is_space_def

abbreviation gate_owner :: auth_context where
  "gate_owner \<equiv> \<lparr>ctx_user = [10], ctx_org = [1], ctx_role = r_owner, ctx_email = ascii ''owner@acme.test''\<rparr>"

lemma gate_valid: "AddMemberRequest (ascii ''x@acme.test'') PW r_member" "AddMemberRequest (ascii ''y@acme.test'') PW r_member"
  by (simp_all add: AddMemberRequest_def Email_def Password_def PW_def sized_def Role_def r_member_def)

lemma gate_owner_ctx:
  assumes "gate_rows us ms [gate_session 90 10] s" "us = gate_user 10 ''owner@acme.test'' # us'" "ms = gate_member 10 r_owner # ms'"
  shows "current_ctx gate_env (eval_request gate_world i (bearer [90])) s = Inr ([90], gate_owner)"
  using assms gate_bearer [of 0 i]
  by (simp add: current_ctx_Inr resolve_session_def gate_rows_def)

lemma gate_add_x:
  assumes "gate_rows [gate_user 10 ''owner@acme.test''] [gate_member 10 r_owner] [gate_session 90 10] s"
    "documents s = []" "chunks s = []" "jobs s = []"
  shows "\<exists>s'. eval_add_member gate_env gate_world 1 [90] (ascii ''x@acme.test'') (gate_server s t) = (Inr [11], gate_server s' t)
     \<and> gate_rows [gate_user 10 ''owner@acme.test'', gate_user 11 ''x@acme.test''] [gate_member 10 r_owner, gate_member 11 r_member]
         [gate_session 90 10] s' \<and> documents s' = [] \<and> chunks s' = [] \<and> jobs s' = []"
proof -
  have grant: "require_can_grant gate_owner r_member = Inr ()" by (simp add: require_can_grant_Inr)
  show ?thesis using assms gate_owner_ctx [OF assms(1), of "[]" "[]" 1] grant gate_valid by (simp add: add_member_defs)
qed

lemma gate_add_y:
  assumes "gate_rows [gate_user 10 ''owner@acme.test'', gate_user 11 ''x@acme.test''] [gate_member 10 r_owner, gate_member 11 r_member]
      [gate_session 90 10] s" "documents s = []" "chunks s = []" "jobs s = []"
  shows "\<exists>s'. eval_add_member gate_env gate_world 2 [90] (ascii ''y@acme.test'') (gate_server s t) = (Inr [12], gate_server s' t)
     \<and> gate_rows [gate_user 10 ''owner@acme.test'', gate_user 11 ''x@acme.test'', gate_user 12 ''y@acme.test'']
         [gate_member 10 r_owner, gate_member 11 r_member, gate_member 12 r_member] [gate_session 90 10] s'
     \<and> documents s' = [] \<and> chunks s' = [] \<and> jobs s' = []"
proof -
  have grant: "require_can_grant gate_owner r_member = Inr ()" by (simp add: require_can_grant_Inr)
  show ?thesis
    using assms gate_owner_ctx [OF assms(1), of "[gate_user 11 ''x@acme.test'']" "[gate_member 11 r_member]" 2] grant gate_valid
    by (simp add: add_member_defs)
qed

lemma run_loop_one:
  assumes "claim 0 q = Some (job, q1)" "work 0 job q1 = (Inr out, q2)" "claim 1 q2 = None"
  shows "run_loop claim work 0 (Suc (Suc n)) counts q = (Inr (count_outcome out counts), q2)"
  using assms by simp

definition gate_item :: upload_item where
  "gate_item = \<lparr>it_path = ascii ''secret.txt'', it_content = SECRET, it_acl = Some [ascii ''user:'' @ [11]]\<rparr>"

abbreviation gate_document :: "doc_status \<Rightarrow> time \<Rightarrow> document_row" where
  "gate_document status t \<equiv> \<lparr>d_id = [41], d_org = [1], d_source = ascii ''local-folder'', d_path = ascii ''secret.txt'',
     d_content = SECRET, d_hash = SECRET, d_acl = [ascii ''user:'' @ [11]], d_status = status,
     d_pii = detect_types plain_tables SECRET, d_revision = 0, d_updated = t\<rparr>"

abbreviation gate_job :: "pystr \<Rightarrow> job_status \<Rightarrow> int \<Rightarrow> job_row" where
  "gate_job key status n \<equiv> \<lparr>j_id = [51], j_org = [1], j_kind = ascii ''ingest_document'',
     j_payload = [(ascii ''document_id'', [41])], j_key = key, j_status = status, j_attempts = n, j_max = 3, j_error = None,
     j_run_after = 1, j_created = 1, j_updated = 1\<rparr>"

lemma gate_folder:
  assumes rows: "gate_rows us ms ss s" "documents s = []" "chunks s = []" "jobs s = []"
  shows "\<exists>res s' key. upload_folder gate_env gate_owner [gate_item] (\<lambda>_. [41]) (\<lambda>_. [51]) 0 (\<lambda>_. 1) s = (Inr res, s')
     \<and> gate_rows us ms ss s' \<and> documents s' = [gate_document DPending 0] \<and> chunks s' = [] \<and> jobs s' = [gate_job key JQueued 0]"
proof -
  have allowed: "require_role gate_owner r_admin = Inr ()" by (simp add: require_role_Inr)
  have caps: "check_caps 100 5 gate_owner [gate_item] s = Inr ()"
    using rows(2) by (simp add: check_caps_def live_documents_def content_bytes_def gate_item_def SECRET_def utf8_len_def utf8_width_def)
  show ?thesis
    using rows allowed caps
    by (simp add: upload_folder_def sync_source_def sync_documents_def sync_transaction_def gate_item_def existing_rows_def
        sync_item_def unchanged_row_def item_row_def upsert_document_def id_defs gate_rows_def enqueue_def insert_job_def
        db_raise_def Let_def)
qed

lemma gate_drain:
  assumes rows: "gate_rows us ms ss s" "documents s = [gate_document DPending 0]" "chunks s = []" "jobs s = [gate_job key JQueued 0]"
  shows "\<exists>counts s'. run_pending Some (\<lambda>ts. Inr (map (\<lambda>_. replicate EMBED_DIM 0) ts)) show_exc 100 2 600 (\<lambda>_. 1) 1000 s = (Inr counts, s')
     \<and> gate_rows us ms ss s'"
proof -
  have chunked: "chunk_text 100 2 SECRET None None = Inr [SECRET]"
    by (simp add: SECRET_def chunk_text_def py_range_def strip_def lstrip_def is_space_def)
  have claim: "claim_one 600 1 s = Some (gate_job key JRunning 1, s\<lparr>jobs := [gate_job key JRunning 1]\<rparr>)"
    using rows(4) by (simp add: claim_one_def due_jobs_def due_job_def start_job_def)
  obtain s' where work: "work_job Some (\<lambda>ts. Inr (map (\<lambda>_. replicate EMBED_DIM 0) ts)) show_exc 100 2 1 (gate_job key JRunning 1)
      (s\<lparr>jobs := [gate_job key JRunning 1]\<rparr>) = (Inr Succeeded, s')"
    and s': "jobs s' = [gate_job key JSucceeded 1]" "gate_rows us ms ss s'"
    using rows chunked
    by (simp add: work_job_def handle_job_def process_ingest_document_def ingest_read_def chunk_rows_def ingest_write_def
        insert_chunk_def mark_succeeded_def Let_def db_raise_def gate_rows_def id_defs)
  have idle: "claim_one 600 1 s' = None" using s'(1) by (simp add: claim_one_def due_jobs_def due_job_def)
  have "run_pending Some (\<lambda>ts. Inr (map (\<lambda>_. replicate EMBED_DIM 0) ts)) show_exc 100 2 600 (\<lambda>_. 1) (Suc (Suc 998)) s
      = (Inr (count_outcome Succeeded \<lparr>rc_processed = 0, rc_succeeded = 0, rc_requeued = 0, rc_dead = 0\<rparr>), s')"
    unfolding run_pending_def by (rule run_loop_one, rule claim, rule work, rule idle)
  then have "\<exists>counts. run_pending Some (\<lambda>ts. Inr (map (\<lambda>_. replicate EMBED_DIM 0) ts)) show_exc 100 2 600 (\<lambda>_. 1) 1000 s = (Inr counts, s')"
    by simp
  with s'(2) show ?thesis by blast
qed

lemma gate_upload:
  assumes rows: "gate_rows us ms ss s" "documents s = []" "chunks s = []" "jobs s = []"
    and ctx: "current_ctx gate_env (eval_request gate_world 3 (bearer [90])) s = Inr ([90], gate_owner)"
  shows "\<exists>counts s'. eval_upload gate_env gate_world 3 [90] [gate_item] (gate_server s t) = (Inr counts, gate_server s' t)
     \<and> gate_rows us ms ss s'"
proof -
  have valid: "FolderUploadRequest plain_tables (map (\<lambda>i. (it_path i, it_content i)) [gate_item])"
    by (simp add: FolderUploadRequest_def UploadedDocument_def DocumentPath_def sized_def no_control_characters_def
        is_invisible_def plain_tables_def gate_item_def SECRET_def)
  from gate_folder [OF rows] obtain res s1 key where up:
    "upload_folder gate_env gate_owner [gate_item] (\<lambda>_. [41]) (\<lambda>_. [51]) 0 (\<lambda>_. 1) s = (Inr res, s1)"
    and s1: "gate_rows us ms ss s1" "documents s1 = [gate_document DPending 0]" "chunks s1 = []" "jobs s1 = [gate_job key JQueued 0]"
    by blast
  from gate_drain [OF s1, of "e_show_exc gate_env"] show ?thesis
    using ctx valid up
    by (auto simp: eval_upload_def client_call_def and_next_def upload_folder_endpoint_def signed_in_def validated_def respond_def
        Let_def simp del: ascii_Cons)
qed

abbreviation gate_people :: "session_row list \<Rightarrow> db \<Rightarrow> bool" where
  "gate_people \<equiv> gate_rows [gate_user 10 ''owner@acme.test'', gate_user 11 ''x@acme.test'', gate_user 12 ''y@acme.test'']
     [gate_member 10 r_owner, gate_member 11 r_member, gate_member 12 r_member]"

lemmas login_defs = eval_login_def json_of_def client_call_def and_next_def login_endpoint_def throttled_def auth_rate_limit_def
  gate_open client_key_def validated_def respond_def login_def call_def start_session_def create_session_def insert_session_def
  db_raise_def new_session_token_def gate_rows_def id_defs authenticate_def choose_membership_def memberships_of_def LoginRequest_def
  Email_def Password_def sized_def hours_def strip_def lstrip_def is_space_def Let_def

lemma gate_peer: "rq_peer (eval_request gate_world i a) = Some (ascii ''testclient'')" "e_client_ip_header gate_env = None"
  by (simp_all add: gate_defs)

lemma gate_login_x:
  assumes "gate_people [gate_session 90 10] s"
  shows "\<exists>s'. eval_login gate_env gate_world 4 (ascii ''x@acme.test'') (ascii ''acme'') (gate_server s 9) = (Inr [94], gate_server s' 8)
     \<and> gate_people [gate_session 90 10, gate_session 94 11] s'"
  using assms by (simp add: login_defs gate_peer) (simp add: PW_def)

lemma gate_login_y:
  assumes "gate_people [gate_session 90 10, gate_session 94 11] s"
  shows "\<exists>s'. eval_login gate_env gate_world 5 (ascii ''y@acme.test'') (ascii ''acme'') (gate_server s 8) = (Inr [95], gate_server s' 7)
     \<and> gate_people [gate_session 90 10, gate_session 94 11, gate_session 95 12] s'"
  using assms by (simp add: login_defs gate_peer) (simp add: PW_def)

lemma gate_ask:
  assumes "k < 10"
  shows "\<exists>fs sv'. eval_ask gate_env gate_world i [90 + k] question sv = (Inr fs, sv') \<and> same_desk (sv_db sv) (sv_db sv')"
proof -
  let ?p = "ask_endpoint gate_env (eval_request gate_world i (bearer [90 + k])) ((ew_ask gate_world i)\<lparr>q_question := question\<rparr>) None
      (dr_clock (ew_draws gate_world i)) (dr_frames (ew_draws gate_world i)) sv"
  have "status_of (fst ?p) < 500"
    using gate_bearer [OF assms, of i]
    by (auto simp: ask_endpoint_def signed_in_def current_ctx_def validated_def error_reply_def or_raise_def Let_def
        simp del: gate_fields ascii_Cons split: sum.splits prod.splits option.splits)
  moreover have "same_desk (sv_db sv) (sv_db (snd ?p))" by (rule ask_endpoint_same) (rule prod.collapse [symmetric])
  ultimately show ?thesis by (simp add: eval_ask_def and_next_def client_call_def Let_def del: gate_fields)
qed

lemma gate_search:
  assumes "gate_people [gate_session 90 10, gate_session 94 11, gate_session 95 12] (sv_db sv)"
  shows "\<exists>hits. search_endpoint gate_env (eval_request gate_world 7 (bearer [95])) SECRET 50 sv = (Reply 200 hits, sv)"
  using assms gate_bearer [of 5 7]
  by (simp add: search_endpoint_def signed_in_def current_ctx_def or_raise_def resolve_session_def gate_rows_def validated_def
      SearchRequest_def sized_def bounded_def SECRET_def reading_def respond_def retrieve_def)

theorem secret_never_leaks_witness:
  "\<exists>v sv'. permission_leak_eval gate_env gate_world sample_server = (Inr v, sv')
     \<and> ev_detail v = ascii ''x_can_read='' @ py_bool (ev_passed v) @ ascii '' y_leaked=False''"
proof -
  obtain s1 where 1: "eval_signup gate_env gate_world 0 (ascii ''acme'') (ascii ''owner@acme.test'') (eval_reset sample_server)
      = (Inr [90], gate_server s1 9)"
    and s1: "gate_rows [gate_user 10 ''owner@acme.test''] [gate_member 10 r_owner] [gate_session 90 10] s1"
      "documents s1 = []" "chunks s1 = []" "jobs s1 = []" using gate_signup by blast
  obtain s2 where 2: "eval_add_member gate_env gate_world 1 [90] (ascii ''x@acme.test'') (gate_server s1 9) = (Inr [11], gate_server s2 9)"
    and s2: "gate_rows [gate_user 10 ''owner@acme.test'', gate_user 11 ''x@acme.test''] [gate_member 10 r_owner, gate_member 11 r_member]
         [gate_session 90 10] s2" "documents s2 = []" "chunks s2 = []" "jobs s2 = []" using gate_add_x [OF s1] by blast
  obtain s3 where 3: "eval_add_member gate_env gate_world 2 [90] (ascii ''y@acme.test'') (gate_server s2 9) = (Inr [12], gate_server s3 9)"
    and s3: "gate_people [gate_session 90 10] s3" "documents s3 = []" "chunks s3 = []" "jobs s3 = []" using gate_add_y [OF s2] by blast
  obtain counts s4 where 4: "eval_upload gate_env gate_world 3 [90] [gate_item] (gate_server s3 9) = (Inr counts, gate_server s4 9)"
    and s4: "gate_people [gate_session 90 10] s4"
    using gate_upload [OF s3 gate_owner_ctx [OF s3(1) refl refl]] by blast
  obtain s5 where 5: "eval_login gate_env gate_world 4 (ascii ''x@acme.test'') (ascii ''acme'') (gate_server s4 9) = (Inr [94], gate_server s5 8)"
    and s5: "gate_people [gate_session 90 10, gate_session 94 11] s5" using gate_login_x [OF s4] by blast
  obtain s6 where 6: "eval_login gate_env gate_world 5 (ascii ''y@acme.test'') (ascii ''acme'') (gate_server s5 8) = (Inr [95], gate_server s6 7)"
    and s6: "gate_people [gate_session 90 10, gate_session 94 11, gate_session 95 12] s6" using gate_login_y [OF s5] by blast
  obtain xs sv7 where 7: "eval_ask gate_env gate_world 6 [94] SECRET (gate_server s6 7) = (Inr xs, sv7)"
    and "same_desk s6 (sv_db sv7)" using gate_ask [of 4 6 SECRET "gate_server s6 7"] by auto
  with s6 have "gate_people [gate_session 90 10, gate_session 94 11, gate_session 95 12] (sv_db sv7)"
    by (simp add: same_desk_def gate_rows_def)
  then obtain hits where 8: "search_endpoint gate_env (eval_request gate_world 7 (bearer [95])) SECRET 50 sv7 = (Reply 200 hits, sv7)"
    using gate_search by blast
  obtain ys sv9 where 9: "eval_ask gate_env gate_world 8 [95] SECRET sv7 = (Inr ys, sv9)"
    using gate_ask [of 5 8 SECRET sv7] by auto
  have "\<exists>v. permission_leak_eval gate_env gate_world sample_server = (Inr v, sv9)"
    using 4 unfolding permission_leak_eval_def
    by (simp only: 1 2 3 5 6 7 8 9 and_next_def prod.case sum.case client_call_def gate_item_def status_of.simps fst_conv snd_conv
        reply.case if_False Let_def) (simp add: 9)
  then obtain v where "permission_leak_eval gate_env gate_world sample_server = (Inr v, sv9)" by blast
  moreover have "strip (dr_token (ew_draws gate_world 5)) = dr_token (ew_draws gate_world 5)"
    by (simp add: strip_def lstrip_def is_space_def)
  ultimately show ?thesis using secret_never_leaks by blast
qed

end
