(* ===== verification/Bench.thy ===== *)
theory Bench
  imports Api
begin

text \<open>
  \<open>bench.py\<close>: the synthetic corpus of the retrieval benchmark, the loop that times the searches and
  the figures it prints.  A seeded \<open>random.Random\<close> is the sequence of its draws and the position in
  it; \<open>digits5\<close> is what \<open>:.5f\<close> makes of a float; the clock is the sequence of the readings of
  \<open>perf_counter\<close>.  The vector index and the query plan are Postgres' own, and printing is outside.
\<close>

section \<open>The corpus\<close>

definition rand_vec :: "(nat \<Rightarrow> real) \<Rightarrow> nat \<Rightarrow> real list \<times> nat" where
  "rand_vec uniform i = (map (\<lambda>j. uniform (i + j)) [0..<EMBED_DIM], i + EMBED_DIM)"

text \<open>\<open>truncate _ALL_TABLES cascade\<close>: every table but \<open>platform_spend\<close>.\<close>

definition bench_truncate :: "db \<Rightarrow> db" where
  "bench_truncate s = empty_db\<lparr>platform_spend := platform_spend s\<rparr>"

definition per_doc :: nat where
  "per_doc = 500"

text \<open>\<open>{i:05d}\<close>.\<close>

definition five_digits :: "nat \<Rightarrow> pystr" where
  "five_digits i = replicate (5 - length (dec_digits i)) 48 @ dec_digits i"

definition bench_document :: "pystr \<Rightarrow> pystr \<Rightarrow> time \<Rightarrow> nat \<Rightarrow> document_row" where
  "bench_document org fresh now i =
     \<lparr>d_id = fresh, d_org = org, d_source = ascii ''bench'',
      d_path = ascii ''bench/doc'' @ five_digits i @ ascii ''.md'', d_content = [], d_hash = ascii ''hash'' @ five_digits i,
      d_acl = [ascii ''public-to-org''], d_status = DIngested, d_pii = [], d_revision = 0, d_updated = now\<rparr>"

definition insert_document :: "document_row \<Rightarrow> db \<Rightarrow> sql_error + db" where
  "insert_document row s =
     (if exists_where (\<lambda>d. d_id d = d_id row \<or> (d_org d = d_org row \<and> d_source d = d_source row \<and> d_path d = d_path row)) (documents s)
      then Inl UniqueViolation
      else if d_org row \<notin> set (org_ids s) then Inl ForeignKeyViolation
      else Inr (s\<lparr>documents := documents s @ [row]\<rparr>))"

fun bench_documents :: "pystr \<Rightarrow> (nat \<Rightarrow> pystr) \<Rightarrow> time \<Rightarrow> nat list \<Rightarrow> db \<Rightarrow> exc + (pystr list \<times> db)" where
  "bench_documents org fresh now [] s = Inr ([], s)"
| "bench_documents org fresh now (i # is) s =
     andthen (db_raise (insert_document (bench_document org (fresh i) now i) s)) (\<lambda>s1.
     andthen (bench_documents org fresh now is s1) (\<lambda>(ids, s2). Inr (fresh i # ids, s2)))"

definition parents :: "nat \<Rightarrow> nat" where
  "parents n = (n + per_doc - 1) div per_doc"

fun bench_rows :: "pystr \<Rightarrow> pystr list \<Rightarrow> (nat \<Rightarrow> real) \<Rightarrow> (real \<Rightarrow> real) \<Rightarrow> nat list \<Rightarrow> nat \<Rightarrow> chunk_row list \<times> nat" where
  "bench_rows org parent_ids uniform digits5 [] pos = ([], pos)"
| "bench_rows org parent_ids uniform digits5 (i # is) pos =
     (let (vec, pos1) = rand_vec uniform pos;
          (rows, pos2) = bench_rows org parent_ids uniform digits5 is pos1
      in (\<lparr>c_org = org, c_doc = parent_ids ! (i div per_doc), c_ordinal = i mod per_doc,
           c_text = ascii ''synthetic chunk '' @ dec_digits i, c_embedding = map digits5 vec,
           c_acl = [ascii ''public-to-org'']\<rparr> # rows, pos2))"

text \<open>
  \<open>_seed\<close>: four transactions, of which the first and the last are the owner's own connections, so
  no policy applies to the rows they write.
\<close>

definition bench_seed ::
  "env \<Rightarrow> nat \<Rightarrow> (nat \<Rightarrow> real) \<Rightarrow> (real \<Rightarrow> real) \<Rightarrow> pystr \<Rightarrow> pystr \<Rightarrow> (nat \<Rightarrow> pystr) \<Rightarrow> time \<Rightarrow> db
     \<Rightarrow> (exc + (pystr \<times> pystr)) \<times> db" where
  "bench_seed E n uniform digits5 fresh_org fresh_user fresh_doc now s =
     (let s0 = bench_truncate s in
      call (create_org_with_owner (e_lower E) (e_pw_hash E) (ascii ''bench'') (ascii ''Bench'') (ascii ''o@bench.test'')
              (ascii ''pw-supersecret'') fresh_org fresh_user now s0) s0 (\<lambda>ctx s1.
      call (bench_documents (ctx_org ctx) fresh_doc now [0..<parents n] s1) s1 (\<lambda>parent_ids s2.
      case db_raise (insert_chunks (fst (bench_rows (ctx_org ctx) parent_ids uniform digits5 [0..<n] 0)) s2) of
        Inl e \<Rightarrow> (Inl e, s2)
      | Inr s3 \<Rightarrow> (Inr (ctx_org ctx, ctx_user ctx), s3))))"

section \<open>The timings\<close>

text \<open>Each search is timed by two readings of the clock; the searches only read.\<close>

fun time_search ::
  "(real list \<Rightarrow> real list \<Rightarrow> real) \<Rightarrow> auth_context \<Rightarrow> (nat \<Rightarrow> real) \<Rightarrow> (nat \<Rightarrow> real) \<Rightarrow> nat \<Rightarrow> nat \<Rightarrow> nat \<Rightarrow> db
     \<Rightarrow> (hit list \<times> real) list \<times> nat" where
  "time_search cosine ctx clock uniform t 0 pos s = ([], pos)"
| "time_search cosine ctx clock uniform t (Suc queries) pos s =
     (let (vec, pos1) = rand_vec uniform pos;
          hits = search cosine ctx vec 6 s;
          (rest, pos2) = time_search cosine ctx clock uniform (Suc t) queries pos1 s
      in ((hits, (clock (2 * t + 1) - clock (2 * t)) * 1000) # rest, pos2))"

text \<open>\<open>statistics.median\<close>, and an index into a list that may be negative.\<close>

definition median :: "real list \<Rightarrow> exc + real" where
  "median data =
     (let xs = sort data; n = length xs in
      if n = 0 then Inl (ValueError (ascii ''no median for empty data''))
      else if n mod 2 = 1 then Inr (xs ! (n div 2)) else Inr ((xs ! (n div 2 - 1) + xs ! (n div 2)) / 2))"

definition py_index :: "'a list \<Rightarrow> int \<Rightarrow> exc + 'a" where
  "py_index xs i =
     (let j = (if i < 0 then i + int (length xs) else i) in
      if 0 \<le> j \<and> j < int (length xs) then Inr (xs ! nat j) else Inl (ValueError (ascii ''list index out of range'')))"

definition p95 :: "real list \<Rightarrow> exc + real" where
  "p95 timings = py_index (sort timings) (\<lfloor>real (length timings) * (95 / 100)\<rfloor> - 1)"

record bench_report =
  br_p50 :: real
  br_p95 :: real
  br_max :: real

definition bench_report_of :: "real list \<Rightarrow> exc + bench_report" where
  "bench_report_of timings =
     andthen (median timings) (\<lambda>m. andthen (p95 timings) (\<lambda>p.
       Inr \<lparr>br_p50 = m, br_p95 = p, br_max = Max (set timings)\<rparr>))"

definition bench_main ::
  "env \<Rightarrow> bool \<Rightarrow> nat \<Rightarrow> nat \<Rightarrow> (nat \<Rightarrow> real) \<Rightarrow> (nat \<Rightarrow> real) \<Rightarrow> (real \<Rightarrow> real) \<Rightarrow> (nat \<Rightarrow> real) \<Rightarrow> pystr \<Rightarrow> pystr
     \<Rightarrow> (nat \<Rightarrow> pystr) \<Rightarrow> time \<Rightarrow> db \<Rightarrow> (exc + bench_report) \<times> db" where
  "bench_main E no_seed n queries uniform7 uniform11 digits5 clock fresh_org fresh_user fresh_doc now s =
     (let seeded = (if no_seed
          then (case authenticate (e_lower E) (e_verify E) (ascii ''o@bench.test'') (ascii ''pw-supersecret'') (Some (ascii ''bench'')) s of
                  Inl e \<Rightarrow> (Inl e, s) | Inr ctx \<Rightarrow> (Inr (ctx_org ctx, ctx_user ctx), s))
          else bench_seed E n uniform7 digits5 fresh_org fresh_user fresh_doc now s)
      in case seeded of
           (Inl e, s1) \<Rightarrow> (Inl e, s1)
         | (Inr _, s1) \<Rightarrow>
             (case authenticate (e_lower E) (e_verify E) (ascii ''o@bench.test'') (ascii ''pw-supersecret'') (Some (ascii ''bench'')) s1 of
                Inl e \<Rightarrow> (Inl e, s1)
              | Inr ctx \<Rightarrow>
                  (let (warm, pos) = time_search (e_cosine E) ctx clock uniform11 0 3 0 s1;
                       (timed, pos') = time_search (e_cosine E) ctx clock uniform11 3 queries pos s1
                   in (bench_report_of (map snd timed), s1))))"

section \<open>Laws\<close>

text \<open>Every chunk finds its parent among the documents that were made, and its vector fits the column.\<close>

lemma parent_exists: "i < n \<Longrightarrow> i div per_doc < parents n"
  by (simp add: parents_def per_doc_def div_less_iff_less_mult)

lemma bench_rows_laws:
  assumes "bench_rows org parent_ids uniform digits5 is pos = (rows, pos')"
  shows "map c_text rows = map (\<lambda>i. ascii ''synthetic chunk '' @ dec_digits i) is"
    and "\<forall>c\<in>set rows. length (c_embedding c) = EMBED_DIM"
  using assms by (induction "is" arbitrary: rows pos) (auto simp: rand_vec_def Let_def split: prod.splits)

lemma bench_rows_draws:
  "snd (bench_rows org parent_ids uniform digits5 is pos) = pos + EMBED_DIM * length is"
  by (induction "is" arbitrary: pos) (simp_all add: rand_vec_def Let_def case_prod_beta)

lemma bench_rows_keys:
  assumes "bench_rows org parent_ids uniform digits5 is pos = (rows, pos')"
  shows "map (\<lambda>c. (c_doc c, c_ordinal c)) rows = map (\<lambda>i. (parent_ids ! (i div per_doc), i mod per_doc)) is"
  using assms by (induction "is" arbitrary: rows pos) (auto simp: rand_vec_def Let_def split: prod.splits)

lemma bench_keys_distinct:
  assumes "distinct parent_ids" "length parent_ids = parents n"
  shows "distinct (map (\<lambda>i. (parent_ids ! (i div per_doc), i mod per_doc)) [0..<n])"
proof -
  have "i = j" if "i < n" "j < n" "parent_ids ! (i div per_doc) = parent_ids ! (j div per_doc)" "i mod per_doc = j mod per_doc" for i j
  proof -
    have "i div per_doc = j div per_doc"
      using that(1-3) assms parent_exists by (metis nth_eq_iff_index_eq)
    with that(4) show ?thesis by (metis div_mult_mod_eq)
  qed
  then show ?thesis by (auto simp: distinct_map intro!: inj_onI)
qed

text \<open>One timing per query, and the draws of a query are its own.\<close>

lemma time_search_length:
  "length (fst (time_search cosine ctx clock uniform t queries pos s)) = queries"
  "snd (time_search cosine ctx clock uniform t queries pos s) = pos + EMBED_DIM * queries"
  by (induction queries arbitrary: t pos) (simp_all add: rand_vec_def Let_def case_prod_beta)

text \<open>No figure is above the maximum, and without a query there is no report.\<close>

lemma sort_nth_in: "j < length xs \<Longrightarrow> sort xs ! j \<in> set xs"
  by (metis length_sort nth_mem set_sort)

lemma py_index_member: "py_index xs i = Inr x \<Longrightarrow> x \<in> set xs"
  unfolding py_index_def Let_def by (auto split: if_splits intro!: nth_mem)

lemma p95_member: "p95 timings = Inr p \<Longrightarrow> p \<in> set timings"
  using py_index_member [of "sort timings"] by (simp add: p95_def)

lemma report_bounds:
  assumes "bench_report_of timings = Inr r"
  shows "br_p95 r \<le> br_max r" "br_p50 r \<le> br_max r" "timings \<noteq> []"
proof -
  obtain m p where m: "median timings = Inr m" and p: "p95 timings = Inr p"
    and r: "r = \<lparr>br_p50 = m, br_p95 = p, br_max = Max (set timings)\<rparr>"
    using assms by (auto simp: bench_report_of_def andthen_Inr)
  show nonempty: "timings \<noteq> []" using m by (auto simp: median_def Let_def)
  have le: "sort timings ! j \<le> Max (set timings)" if "j < length timings" for j
    using that sort_nth_in by (intro Max_ge) auto
  show "br_p95 r \<le> br_max r" using p95_member [OF p] r by simp
  have half: "length timings div 2 < length timings" using nonempty by simp
  then have "length timings div 2 - 1 < length timings" by linarith
  from le [OF half] le [OF this] m nonempty r show "br_p50 r \<le> br_max r"
    by (auto simp: median_def Let_def split: if_splits)
qed

text \<open>The rank is rounded down, so with two queries the figure printed as the 95th percentile is the smaller.\<close>

lemma p95_of_two: "a < b \<Longrightarrow> p95 [a, b] = Inr a \<and> median [a, b] = Inr ((a + b) / 2)"
  by (simp add: p95_def py_index_def median_def Let_def floor_eq_iff)

end
