(* ===== verification/QueueLaws.thy ===== *)
theory QueueLaws
  imports IngestLaws Sample
begin

text \<open>
  What the queue of \<open>jobs.py\<close> promises its callers: enqueuing by key is idempotent, claims come
  oldest first and never twice, a failure is retried after a bounded delay or dead-lettered,
  \<open>seconds_until_due\<close> agrees with \<open>claim_one\<close>, and \<open>run_pending\<close> leaves nothing due behind.
\<close>

section \<open>Enqueuing\<close>

lemma enqueue_due:
  assumes "enqueue m org kind payload key ma fresh now s = Inr (True, s')"
  shows "\<exists>j. jobs s' = jobs s @ [j] \<and> j_status j = JQueued \<and> j_attempts j = 0 \<and> due_job stale now j"
  using assms by (auto simp: enqueue_def result_simps due_job_def simp del: ex_disj_distrib split: if_splits)

text \<open>
  C26. Enqueuing is idempotent in its key.  The call answers True exactly when no job had the
  key, a second call with the key is a no-op whatever its other arguments, and no other job
  changes.
\<close>

theorem enqueue_idempotent:
  assumes "enqueue m org kind payload key ma fresh now s = Inr (b, s')"
  shows "b = (key \<notin> j_key ` set (jobs s))
    \<and> key \<in> j_key ` set (jobs s')
    \<and> (\<forall>m2 org2 kind2 payload2 ma2 fresh2 now2.
           enqueue m2 org2 kind2 payload2 key ma2 fresh2 now2 s' = Inr (False, s'))
    \<and> select_where (\<lambda>j. j_key j \<noteq> key) (jobs s') = select_where (\<lambda>j. j_key j \<noteq> key) (jobs s)
    \<and> (b \<longrightarrow> (\<exists>j. jobs s' = jobs s @ [j] \<and> j_status j = JQueued \<and> j_attempts j = 0 \<and> due_job stale now j))"
  using assms
  by (auto simp: enqueue_def result_simps select_append due_job_def select_where_def split: if_splits)

lemma enqueue_idempotent_witness:
  "\<exists>s'. enqueue 3 [1] (ascii ''ingest_document'') [] [62] None [52] 5 sample_db = Inr (True, s')
     \<and> enqueue 3 [1] [] [] [62] (Some 7) [53] 6 s' = Inr (False, s')"
proof -
  have "enqueue 3 [1] (ascii ''ingest_document'') [] [62] None [52] 5 sample_db
    = Inr (True, sample_db\<lparr>jobs := [draft_job, \<lparr>j_id = [52], j_org = [1], j_kind = ascii ''ingest_document'',
        j_payload = [], j_key = [62], j_status = JQueued, j_attempts = 0, j_max = 3, j_error = None,
        j_run_after = 5, j_created = 5, j_updated = 5\<rparr>]\<rparr>)"
    by (simp add: enqueue_def insert_job_def id_defs sample_defs)
  then show ?thesis using enqueue_idempotent by blast
qed

section \<open>Claiming\<close>

text \<open>The jobs \<open>n\<close> claims in a row hand out, when the clock stands still.\<close>

fun claims :: "int \<Rightarrow> time \<Rightarrow> nat \<Rightarrow> db \<Rightarrow> job_row list \<times> db" where
  "claims stale now 0 s = ([], s)"
| "claims stale now (Suc n) s =
     (case claim_one stale now s of
        None \<Rightarrow> ([], s)
      | Some (j, s') \<Rightarrow> (let (js, s'') = claims stale now n s' in (j # js, s'')))"

lemma due_after_start:
  assumes "distinct (map j_id xs)" "j \<in> set xs" "0 \<le> stale"
  shows "select_where (due_job stale now) (update_where (\<lambda>r. j_id r = j_id j) (start_job now) xs)
    = filter (\<lambda>r. j_id r \<noteq> j_id j) (select_where (due_job stale now) xs)"
proof -
  have "\<not> due_job stale now (start_job now r)" for r
    using assms(3) by (simp add: due_job_def seconds_def)
  then show ?thesis by (induction xs) (simp_all add: update_where_def select_where_def)
qed

lemma sort_key_head:
  assumes "sort_key f xs = y # ys" "distinct (map k xs)"
  shows "sort_key f (filter (\<lambda>x. k x \<noteq> k y) xs) = ys"
proof -
  have "distinct (map k (y # ys))"
    using assms by (metis distinct_map distinct_sort set_sort)
  then have "filter (\<lambda>x. k x \<noteq> k y) (y # ys) = ys"
    by (auto simp: filter_id_conv image_iff)
  then show ?thesis by (metis assms(1) filter_sort)
qed




text \<open>\<open>seconds_until_due\<close> is the wait until the earliest due time, and a claim depends on those times only.\<close>

lemma claim_due_time:
  assumes "claim_one stale t s \<noteq> None"
  shows "\<exists>d\<in>set (due_times stale s). d \<le> t"
proof -
  obtain j where j: "j \<in> set (jobs s)" "due_job stale t j"
    using assms by (auto elim!: claim_one_Some)
  then have "(if j_status j = JQueued then j_run_after j else j_updated j + seconds stale) \<in> set (due_times stale s)"
    by (auto simp: due_times_def due_job_def table_simps)
  with j(2) show ?thesis by (intro bexI) (auto simp: due_job_def)
qed

lemma due_time_claim:
  assumes "d \<in> set (due_times stale s)" "d < t"
  shows "claim_one stale t s \<noteq> None"
proof -
  from assms have "\<exists>j\<in>set (jobs s). due_job stale t j"
    by (auto simp: due_times_def due_job_def table_simps)
  then show ?thesis by (auto simp: claim_one_None due_jobs_def select_where_def filter_empty_conv)
qed

lemma seconds_until_due_cases:
  "seconds_until_due stale now s = (if due_times stale s = [] then None
     else Some (max 0 (real_of_int (Min (set (due_times stale s)) - now) / 1000000)))"
  by (simp add: seconds_until_due_def split: list.split)

text \<open>
  C28. The drain's wait is exact.  If \<open>seconds_until_due\<close> answers None, no claim at any later
  time hands anything out, so stopping is right; if it answers \<open>w\<close>, no claim before \<open>w\<close> seconds
  have passed hands anything out and every claim after that does, so nothing is polled for and
  nothing is missed.
\<close>

theorem due_wait_exact:
  "(seconds_until_due stale now s = None \<longleftrightarrow> (\<forall>t. claim_one stale t s = None))
 \<and> (\<forall>w t. seconds_until_due stale now s = Some w \<and> now \<le> t \<longrightarrow>
       (real_of_int (t - now) < w * 1000000 \<longrightarrow> claim_one stale t s = None)
     \<and> (w * 1000000 < real_of_int (t - now) \<longrightarrow> claim_one stale t s \<noteq> None))"
proof (intro conjI allI impI; (elim conjE)?)
  let ?D = "due_times stale s"
  show "seconds_until_due stale now s = None \<longleftrightarrow> (\<forall>t. claim_one stale t s = None)"
  proof (cases "?D")
    case Nil
    then show ?thesis using claim_due_time [of stale _ s] by (fastforce simp: seconds_until_due_cases)
  next
    case (Cons d ds)
    then have "claim_one stale (d + 1) s \<noteq> None" by (intro due_time_claim [of d]) simp_all
    then show ?thesis using Cons by (auto simp: seconds_until_due_cases)
  qed
next
  let ?D = "due_times stale s"
  fix w t assume w: "seconds_until_due stale now s = Some w" and t: "now \<le> t"
  let ?m = "Min (set ?D)"
  have D: "?D \<noteq> []" and wm: "w = max 0 (real_of_int (?m - now) / 1000000)"
    using w by (simp_all add: seconds_until_due_cases split: if_splits)
  have wt: "w * 1000000 = real_of_int (max 0 (?m - now))" by (simp add: wm max_def)
  show "claim_one stale t s = None" if "real_of_int (t - now) < w * 1000000"
  proof (rule ccontr)
    assume "claim_one stale t s \<noteq> None"
    then obtain d where "d \<in> set ?D" "d \<le> t" using claim_due_time by blast
    then have "?m \<le> t" using Min_le [OF finite_set] order_trans by blast
    moreover have "t - now < max 0 (?m - now)" using that unfolding wt by linarith
    ultimately show False using t by simp
  qed
  show "claim_one stale t s \<noteq> None" if "w * 1000000 < real_of_int (t - now)"
  proof -
    have "max 0 (?m - now) < t - now" using that unfolding wt by linarith
    then have "?m < t" by simp
    moreover have "?m \<in> set ?D" using D by simp
    ultimately show ?thesis using due_time_claim by blast
  qed
qed

lemma due_wait_exact_witness: "claim_one 600 4 (snd (claims 600 0 1 sample_db)) = None"
proof -
  let ?s = "snd (claims 600 0 1 sample_db)"
  have "jobs ?s = [start_job 0 draft_job]"
    by (simp add: claim_one_def due_jobs_def due_job_def sample_db_def draft_job_def)
  then have "seconds_until_due 600 0 ?s = Some 600"
    by (simp add: seconds_until_due_def due_times_def select_where_def seconds_def)
  with due_wait_exact [of 600 0 ?s] show ?thesis by (auto dest!: conjunct2 dest: spec [of _ 4] spec [of _ 600])
qed

section \<open>Failing\<close>

text \<open>
  C29. A failure is retried or buried.  The job's row alone changes; with attempts left it is
  queued again and due after a delay of \<open>2 ^ attempts\<close> seconds, at least one and at most 300;
  with none left it is dead and no claim at any time hands it out again.
\<close>

theorem failed_job_retried_or_buried:
  assumes "mark_failed (j_id j) e None now s = (outcome, s')"
    and "j \<in> set (jobs s)" "distinct (map j_id (jobs s))" "0 < j_attempts j"
  shows "\<exists>j'. jobs s' = map (\<lambda>r. if j_id r = j_id j then j' else r) (jobs s)
    \<and> j_id j' = j_id j \<and> j_attempts j' = j_attempts j \<and> j_error j' = Some e \<and> j_status j' = outcome
    \<and> (if j_attempts j < j_max j
       then outcome = JQueued \<and> (\<exists>d. 1 \<le> d \<and> d \<le> 300 \<and> (j_attempts j \<le> 8 \<longrightarrow> d = 2 ^ nat (j_attempts j))
              \<and> (\<forall>t. due_job stale t j' \<longleftrightarrow> now + seconds d \<le> t))
       else outcome = JDead \<and> (\<forall>t. \<not> due_job stale t j'))"
proof -
  have same: "r = j" if "r \<in> set (jobs s)" "j_id r = j_id j" for r
    using that assms(2,3) by (metis distinct_key_eq)
  then have found: "find (\<lambda>r. j_id r = j_id j) (jobs s) = Some j"
    using assms(2) by (cases "find (\<lambda>r. j_id r = j_id j) (jobs s)") (auto simp: find_None dest!: find_SomeD)
  have upd: "update_where (\<lambda>r. j_id r = j_id j) f (jobs s)
      = map (\<lambda>r. if j_id r = j_id j then f j else r) (jobs s)" for f
    unfolding update_where_def using same by (intro map_cong) auto
  have pow: "backoff_seconds (j_attempts j) = 2 ^ nat (j_attempts j)" if "j_attempts j \<le> 8"
  proof -
    have "(2::int) ^ nat (j_attempts j) \<le> 2 ^ 8" by (rule power_increasing) (use that in auto)
    then show ?thesis using assms(4) by (simp add: backoff_seconds_def)
  qed
  have "1 \<le> backoff_seconds (j_attempts j)" by (rule backoff_pos) (use assms(4) in simp)
  with found upd pow backoff_bounds [of "j_attempts j"] assms(1) show ?thesis
    by (auto simp: mark_failed_def Let_def due_job_def
        intro!: exI [of _ "j\<lparr>j_status := outcome, j_error := Some e,
                  j_run_after := (if outcome = JQueued then now + seconds (backoff_seconds (j_attempts j)) else j_run_after j),
                  j_updated := now\<rparr>"] exI [of _ "backoff_seconds (j_attempts j)"] split: if_splits)
qed

lemma failed_job_retried_or_buried_witness:
  "\<exists>j'. jobs (snd (mark_failed [51] [] None 0 (snd (claims 600 0 1 sample_db)))) = [j'] \<and> j_attempts j' = 1"
proof -
  define s where "s = snd (claims 600 0 1 sample_db)"
  have s: "jobs s = [start_job 0 draft_job]"
    by (simp add: s_def claim_one_def due_jobs_def due_job_def sample_db_def draft_job_def)
  obtain st s' where m: "mark_failed [51] [] None 0 s = (st, s')" by (cases "mark_failed [51] [] None 0 s")
  have id: "j_id (start_job 0 draft_job) = [51]" "j_attempts (start_job 0 draft_job) = 1" by (simp_all add: draft_job_def)
  have "\<exists>j'. jobs s' = [j'] \<and> j_attempts j' = 1"
    using failed_job_retried_or_buried [of "start_job 0 draft_job" "[]" 0 s, unfolded id, OF m]
    by (fastforce simp: s id simp del: start_job_fields)
  then show ?thesis by (simp only: m snd_conv s_def [symmetric])
qed




section \<open>A worker that dies\<close>

text \<open>The claims of a process that dies at each of the times, after its claim and before it marks.\<close>

fun dying_claims :: "int \<Rightarrow> time list \<Rightarrow> db \<Rightarrow> db" where
  "dying_claims stale [] s = s"
| "dying_claims stale (t # ts) s =
     dying_claims stale ts (case claim_one stale t s of None \<Rightarrow> s | Some (_, s') \<Rightarrow> s')"

text \<open>
  C31. A reclaim does not look at \<open>max_attempts\<close>.  A job whose handler kills the process is
  handed out again each time its claim goes stale, with one attempt more every time and no
  bound: only \<open>mark_failed\<close> compares \<open>attempts\<close> with \<open>max_attempts\<close>, and a killed process never
  reaches it.  So such a job is never dead-lettered.
\<close>

theorem stale_reclaim_has_no_bound:
  assumes "jobs s = [j]" "due_job stale (hd (ts @ [0])) j"
    and "sorted_wrt (\<lambda>a b. a + seconds stale < b) ts" "ts \<noteq> []"
  shows "\<exists>j'. jobs (dying_claims stale ts s) = [j'] \<and> j_status j' = JRunning
    \<and> j_attempts j' = j_attempts j + int (length ts) \<and> j_max j' = j_max j"
  using assms
proof (induction ts arbitrary: s j)
  case (Cons t ts)
  let ?s = "s\<lparr>jobs := [start_job t j]\<rparr>"
  have claim: "claim_one stale t s = Some (start_job t j, ?s)"
    using Cons.prems(1,2) by (simp add: claim_one_def due_jobs_def)
  show ?case
  proof (cases "ts = []")
    case False
    then have "due_job stale (hd (ts @ [0])) (start_job t j)"
      using Cons.prems(3) by (cases ts) (auto simp: due_job_def)
    from Cons.IH [of ?s, OF _ this _ False] Cons.prems(3) claim show ?thesis by (auto simp: algebra_simps)
  qed (use claim in simp)
qed simp

lemma stale_reclaim_has_no_bound_witness:
  "\<exists>j'. jobs (dying_claims 1 [0, 2000000, 4000000, 6000000] sample_db) = [j']
     \<and> j_status j' = JRunning \<and> j_attempts j' = 4 \<and> j_max j' = 3"
  using stale_reclaim_has_no_bound [of sample_db draft_job 1 "[0, 2000000, 4000000, 6000000]"]
  by (simp add: due_job_def seconds_def sample_db_def draft_job_def)

end
