(* ===== verification/Worker.thy ===== *)
theory Worker
  imports QueueLaws
begin

text \<open>
  \<open>worker.py\<close>: the drain thread of the web process as a state machine.  The module's globals
  \<open>_thread\<close> and \<open>_wake\<close> are fields of the process; a thread is its position in the list of the
  threads ever started, and its stage is the line of \<open>drain\<close> or \<open>_run\<close> it is about to run.  A
  block under \<open>_lock\<close> is one step, since no other locked block can run inside it.  Two fields
  are bookkeeping of the proof: how many requests have enqueued and not yet kicked, and whether
  a drain has raised.
\<close>

section \<open>The process\<close>

datatype stage = Sweeping | Clearing | Pending nat | Deciding | Waiting real | Dying | Ended

record process =
  pr_db :: db
  pr_now :: time
  pr_thread :: "nat option"
  pr_wake :: bool
  pr_stages :: "stage list"
  pr_owed :: nat
  pr_raised :: bool

definition MAX_JOBS :: nat where
  "MAX_JOBS = 1000"

text \<open>\<open>kick\<close>: the lock is held from setting the event to starting the thread.\<close>

definition kick :: "bool \<Rightarrow> process \<Rightarrow> process" where
  "kick drain_in_process p =
     (if \<not> drain_in_process then p
      else
        (case pr_thread p of
           None \<Rightarrow> p\<lparr>pr_wake := True, pr_thread := Some (length (pr_stages p)),
                      pr_stages := pr_stages p @ [Sweeping]\<rparr>
         | Some _ \<Rightarrow> p\<lparr>pr_wake := True\<rparr>))"

definition goto :: "nat \<Rightarrow> stage \<Rightarrow> process \<Rightarrow> process" where
  "goto me st p = p\<lparr>pr_stages := (pr_stages p)[me := st]\<rparr>"

text \<open>The exception reaches \<open>_run\<close>, which has yet to take the lock.\<close>

definition raise_in :: "nat \<Rightarrow> process \<Rightarrow> process" where
  "raise_in me p = goto me Dying (p\<lparr>pr_raised := True\<rparr>)"

text \<open>The block at the end of the loop: stop, or wait out the earliest retry.\<close>

definition decide :: "env \<Rightarrow> nat \<Rightarrow> process \<Rightarrow> process" where
  "decide E me p =
     (case seconds_until_due (e_job_stale_after_seconds E) (pr_now p) (pr_db p) of
        None \<Rightarrow> goto me Ended (p\<lparr>pr_thread := (if pr_thread p = Some me then None else pr_thread p)\<rparr>)
      | Some wait \<Rightarrow> goto me (Waiting (real_of_int (pr_now p) + wait * 1000000)) p)"

text \<open>One turn of the loop of \<open>run_pending\<close>.\<close>

definition pending_step :: "env \<Rightarrow> nat \<Rightarrow> nat \<Rightarrow> process \<Rightarrow> process" where
  "pending_step E me n p =
     (if MAX_JOBS \<le> n then goto me Deciding p
      else
        (case claim_one (e_job_stale_after_seconds E) (pr_now p) (pr_db p) of
           None \<Rightarrow> goto me Deciding p
         | Some (job, s1) \<Rightarrow>
             (case work_job (e_uuid E) (e_embed E) (e_show_exc E) (e_chunk_size E) (e_chunk_overlap E)
                     (pr_now p) job s1 of
                (Inl e, s2) \<Rightarrow> raise_in me (p\<lparr>pr_db := s2\<rparr>)
              | (Inr out, s2) \<Rightarrow> goto me (Pending (Suc n)) (p\<lparr>pr_db := s2\<rparr>))))"

fun drain_step :: "env \<Rightarrow> nat \<Rightarrow> stage \<Rightarrow> process \<Rightarrow> process" where
  "drain_step E me Sweeping p =
     goto me Clearing (p\<lparr>pr_db := snd (purge_expired_sessions (pr_now p) (pr_db p))\<rparr>)"
| "drain_step E me Clearing p = goto me (Pending 0) (p\<lparr>pr_wake := False\<rparr>)"
| "drain_step E me (Pending n) p = pending_step E me n p"
| "drain_step E me Deciding p = decide E me p"
| "drain_step E me (Waiting deadline) p =
     (if pr_wake p \<or> deadline \<le> real_of_int (pr_now p) then goto me Clearing p else p)"
| "drain_step E me Dying p = goto me Ended (p\<lparr>pr_thread := None\<rparr>)"
| "drain_step E me Ended p = p"

section \<open>Its steps\<close>

text \<open>
  Beside the drain's own steps: a request enqueues and later kicks; time passes; the database
  connection of a drain fails, at worst after a claim; and the rest of the service, or a drain
  on another machine, changes the database without making anything due sooner.
\<close>

inductive process_step :: "env \<Rightarrow> process \<Rightarrow> process \<Rightarrow> bool" for E where
  enqueued: "enqueue (e_job_max_attempts E) org kind payload key ma fresh (pr_now p) (pr_db p) = Inr (b, s') \<Longrightarrow>
     process_step E p (p\<lparr>pr_db := s', pr_owed := Suc (pr_owed p)\<rparr>)"
| kicked: "pr_owed p = Suc n \<Longrightarrow> process_step E p (kick True (p\<lparr>pr_owed := n\<rparr>))"
| drains: "me < length (pr_stages p) \<Longrightarrow> process_step E p (drain_step E me (pr_stages p ! me) p)"
| raises: "me < length (pr_stages p) \<Longrightarrow> pr_stages p ! me \<notin> {Dying, Ended} \<Longrightarrow>
     process_step E p (raise_in me p)"
| claim_raises: "me < length (pr_stages p) \<Longrightarrow> pr_stages p ! me = Pending n \<Longrightarrow>
     claim_one (e_job_stale_after_seconds E) (pr_now p) (pr_db p) = Some (job, s1) \<Longrightarrow>
     process_step E p (raise_in me (p\<lparr>pr_db := s1\<rparr>))"
| elsewhere: "set (due_times (e_job_stale_after_seconds E) s') \<subseteq> set (due_times (e_job_stale_after_seconds E) (pr_db p)) \<Longrightarrow>
     process_step E p (p\<lparr>pr_db := s'\<rparr>)"
| passes: "pr_now p \<le> t \<Longrightarrow> process_step E p (p\<lparr>pr_now := t\<rparr>)"

text \<open>The web process starts over whatever the last one left, and its \<open>lifespan\<close> owes the first kick.\<close>

definition started :: "db \<Rightarrow> time \<Rightarrow> process" where
  "started s now = \<lparr>pr_db = s, pr_now = now, pr_thread = None, pr_wake = False, pr_stages = [],
     pr_owed = 1, pr_raised = False\<rparr>"

inductive reachable :: "env \<Rightarrow> process \<Rightarrow> bool" for E where
  start: "reachable E (started s now)"
| move: "reachable E p \<Longrightarrow> process_step E p p' \<Longrightarrow> reachable E p'"

section \<open>The invariant\<close>

definition asleep_ok :: "env \<Rightarrow> process \<Rightarrow> real \<Rightarrow> bool" where
  "asleep_ok E p deadline \<longleftrightarrow>
     pr_wake p \<or> (\<forall>t\<in>set (due_times (e_job_stale_after_seconds E) (pr_db p)). deadline \<le> real_of_int (max t (pr_now p)))"

text \<open>
  At most the registered thread is alive; unless a kick is owed or a drain has raised, a waiting
  job has a registered thread, which does not sleep past the time the job is due.
\<close>

definition drain_ok :: "env \<Rightarrow> process \<Rightarrow> bool" where
  "drain_ok E p \<longleftrightarrow>
     (case pr_thread p of
        None \<Rightarrow> (\<forall>k<length (pr_stages p). pr_stages p ! k = Ended)
          \<and> (\<not> pr_raised p \<and> pr_owed p = 0 \<longrightarrow> due_times (e_job_stale_after_seconds E) (pr_db p) = [])
      | Some i \<Rightarrow> i < length (pr_stages p) \<and> pr_stages p ! i \<noteq> Ended
          \<and> (\<forall>k<length (pr_stages p). k \<noteq> i \<longrightarrow> pr_stages p ! k = Ended)
          \<and> (pr_stages p ! i = Dying \<longrightarrow> pr_raised p)
          \<and> (\<not> pr_raised p \<and> pr_owed p = 0 \<longrightarrow>
               (\<forall>d. pr_stages p ! i = Waiting d \<longrightarrow> asleep_ok E p d)))"

lemma drain_ok_start: "drain_ok E (started s now)"
  by (simp add: drain_ok_def started_def)

lemma goto_fields [simp]:
  "pr_db (goto me st p) = pr_db p" "pr_now (goto me st p) = pr_now p" "pr_thread (goto me st p) = pr_thread p"
  "pr_wake (goto me st p) = pr_wake p" "pr_stages (goto me st p) = (pr_stages p)[me := st]"
  "pr_owed (goto me st p) = pr_owed p" "pr_raised (goto me st p) = pr_raised p"
  by (simp_all add: goto_def)

lemma raise_in_fields [simp]:
  "pr_db (raise_in me p) = pr_db p" "pr_now (raise_in me p) = pr_now p" "pr_thread (raise_in me p) = pr_thread p"
  "pr_wake (raise_in me p) = pr_wake p" "pr_stages (raise_in me p) = (pr_stages p)[me := Dying]"
  "pr_owed (raise_in me p) = pr_owed p" "pr_raised (raise_in me p)"
  by (simp_all add: raise_in_def)

text \<open>Only the registered thread is alive, and as long as it moves on the invariant is kept.\<close>

lemma alive_registered:
  assumes "drain_ok E p" "me < length (pr_stages p)" "pr_stages p ! me \<noteq> Ended"
  shows "pr_thread p = Some me"
  using assms by (auto simp: drain_ok_def split: option.splits)

lemma drain_ok_moves:
  assumes "drain_ok E p" "pr_thread p = Some me"
    and "pr_thread p' = Some me" "pr_stages p' = (pr_stages p)[me := st]" "st \<noteq> Ended"
    and "st = Dying \<Longrightarrow> pr_raised p'" "\<And>d. st = Waiting d \<Longrightarrow> asleep_ok E p' d"
  shows "drain_ok E p'"
  using assms by (simp add: drain_ok_def)

lemma drain_ok_ends:
  assumes "drain_ok E p" "pr_thread p = Some me"
    and "pr_thread p' = None" "pr_stages p' = (pr_stages p)[me := Ended]"
    and "\<not> pr_raised p' \<Longrightarrow> due_times (e_job_stale_after_seconds E) (pr_db p') = []"
  shows "drain_ok E p'"
  using assms by (auto simp: drain_ok_def nth_list_update)

text \<open>The rest of the service only adds to the queue while it owes a kick.\<close>

lemma drain_ok_around:
  assumes "drain_ok E p" "pr_thread p' = pr_thread p" "pr_stages p' = pr_stages p" "pr_raised p' = pr_raised p"
    and "pr_wake p' = pr_wake p" "pr_now p \<le> pr_now p'"
    and "pr_owed p' = 0 \<Longrightarrow> pr_owed p = 0
      \<and> set (due_times (e_job_stale_after_seconds E) (pr_db p')) \<subseteq> set (due_times (e_job_stale_after_seconds E) (pr_db p))"
  shows "drain_ok E p'"
proof (cases "pr_thread p")
  case None
  with assms show ?thesis by (auto simp: drain_ok_def)
next
  case (Some i)
  have "asleep_ok E p' d" if "asleep_ok E p d" "pr_owed p' = 0" for d
  proof (cases "pr_wake p'")
    case False
    have "d \<le> real_of_int (max t (pr_now p'))" if t: "t \<in> set (due_times (e_job_stale_after_seconds E) (pr_db p'))" for t
    proof -
      have "d \<le> real_of_int (max t (pr_now p))" using \<open>asleep_ok E p d\<close> \<open>pr_owed p' = 0\<close> t False assms
        by (auto simp: asleep_ok_def)
      moreover have "max t (pr_now p) \<le> max t (pr_now p')" using assms(6) by simp
      ultimately show ?thesis by (meson of_int_le_iff order_trans)
    qed
    then show ?thesis by (simp add: asleep_ok_def)
  qed (simp add: asleep_ok_def)
  with Some assms show ?thesis by (auto simp: drain_ok_def)
qed

lemma kick_ok:
  assumes "drain_ok E p"
  shows "drain_ok E (kick True (p\<lparr>pr_owed := n\<rparr>))"
  using assms
  by (auto simp: drain_ok_def kick_def asleep_ok_def nth_append split: option.splits)

lemma decide_ok:
  assumes "drain_ok E p" "pr_thread p = Some me"
  shows "drain_ok E (decide E me p)"
proof (cases "seconds_until_due (e_job_stale_after_seconds E) (pr_now p) (pr_db p)")
  case None
  then have "due_times (e_job_stale_after_seconds E) (pr_db p) = []"
    by (simp add: seconds_until_due_cases split: if_splits)
  with None assms(2) show ?thesis by (intro drain_ok_ends [OF assms]) (simp_all add: decide_def)
next
  case (Some w)
  let ?D = "set (due_times (e_job_stale_after_seconds E) (pr_db p))"
  have w: "real_of_int (pr_now p) + w * 1000000 = real_of_int (max (Min ?D) (pr_now p))"
    using Some by (auto simp: seconds_until_due_cases max_def field_simps simp del: Min_le_iff Min_ge_iff Min_less_iff Min_gr_iff split: if_splits)
  have "real_of_int (max (Min ?D) (pr_now p)) \<le> real_of_int (max t (pr_now p))" if "t \<in> ?D" for t
    using Min_le [OF finite_set that] unfolding of_int_le_iff by (meson max.mono order_refl)
  then have "asleep_ok E p (real_of_int (pr_now p) + w * 1000000)" unfolding asleep_ok_def w by blast
  with Some assms(2) show ?thesis
    by (intro drain_ok_moves [OF assms, where st = "Waiting (real_of_int (pr_now p) + w * 1000000)"])
      (auto simp: decide_def asleep_ok_def)
qed

lemma pending_step_cases:
  "pending_step E me n p = goto me Deciding p
   \<or> (\<exists>s2. pending_step E me n p = raise_in me (p\<lparr>pr_db := s2\<rparr>))
   \<or> (\<exists>s2. pending_step E me n p = goto me (Pending (Suc n)) (p\<lparr>pr_db := s2\<rparr>))"
  unfolding pending_step_def by (auto split: option.split prod.split sum.split)

lemma pending_step_ok:
  assumes "drain_ok E p" "pr_thread p = Some me"
  shows "drain_ok E (pending_step E me n p)"
  using pending_step_cases [of E me n p]
proof (elim disjE exE)
qed (use assms(2) in \<open>auto intro: drain_ok_moves [OF assms, of _ Deciding] drain_ok_moves [OF assms, of _ Dying]
      drain_ok_moves [OF assms, of _ "Pending (Suc n)"]\<close>)

lemma drain_step_ok:
  assumes "drain_ok E p" "me < length (pr_stages p)"
  shows "drain_ok E (drain_step E me (pr_stages p ! me) p)"
proof (cases "pr_stages p ! me = Ended")
  case False
  then have me: "pr_thread p = Some me" using alive_registered assms by blast
  note moves = drain_ok_moves [OF assms(1) me, of _ Clearing] drain_ok_moves [OF assms(1) me, of _ "Pending 0"]
  note ends = drain_ok_ends [OF assms(1) me]
  show ?thesis
  proof (cases "pr_stages p ! me")
    case Dying
    then have "pr_raised p" using assms me by (simp add: drain_ok_def)
    with Dying me show ?thesis by (intro ends) simp_all
  qed (use False me assms(1) decide_ok [OF assms(1) me] pending_step_ok [OF assms(1) me] moves in simp_all)
qed (use assms in simp)

lemma process_step_ok:
  assumes "process_step E p p'" "drain_ok E p"
  shows "drain_ok E p'"
  using assms(1)
proof (cases rule: process_step.cases)
  case (raises me)
  then show ?thesis
    using alive_registered [OF assms(2), of me] by (intro drain_ok_moves [OF assms(2), of me]) auto
next
  case (claim_raises me n job s1)
  then show ?thesis
    using alive_registered [OF assms(2), of me] by (intro drain_ok_moves [OF assms(2), of me]) auto
next
  case (elsewhere s')
  then show ?thesis by (intro drain_ok_around [OF assms(2)]) auto
next
  case (enqueued org kind payload key ma fresh b s')
  then show ?thesis by (intro drain_ok_around [OF assms(2)]) auto
next
  case (passes t)
  then show ?thesis by (intro drain_ok_around [OF assms(2)]) auto
qed (use assms(2) drain_step_ok kick_ok in simp_all)

lemma reachable_ok: "reachable E p \<Longrightarrow> drain_ok E p"
  by (induction rule: reachable.induct) (simp_all add: drain_ok_start process_step_ok)


section \<open>Properties\<close>

lemma idle_no_claim: "due_times stale s = [] \<Longrightarrow> claim_one stale t s = None"
  using claim_due_time [of stale t s] by fastforce

text \<open>
  C32. One drain at a time, and none only when there is nothing to do.  In every reachable state
  of the web process at most one drain thread is alive, the registered one; and if no thread is
  registered, every kick owed has been given and no drain has raised, then no job in the table is
  or will become due.
\<close>

theorem one_drain_and_idle_means_empty:
  assumes "reachable E p"
  shows "(\<forall>i<length (pr_stages p). \<forall>j<length (pr_stages p).
      pr_stages p ! i \<noteq> Ended \<and> pr_stages p ! j \<noteq> Ended \<longrightarrow> i = j)
    \<and> (pr_thread p = None \<and> \<not> pr_raised p \<and> pr_owed p = 0 \<longrightarrow>
      (\<forall>t. claim_one (e_job_stale_after_seconds E) t (pr_db p) = None))"
proof -
  note ok = reachable_ok [OF assms]
  have "i = j" if "i < length (pr_stages p)" "j < length (pr_stages p)"
      "pr_stages p ! i \<noteq> Ended" "pr_stages p ! j \<noteq> Ended" for i j
    using alive_registered [OF ok that(1,3)] alive_registered [OF ok that(2,4)] by simp
  moreover have "claim_one (e_job_stale_after_seconds E) t (pr_db p) = None"
    if "pr_thread p = None" "\<not> pr_raised p" "pr_owed p = 0" for t
    using that ok by (intro idle_no_claim) (simp add: drain_ok_def)
  ultimately show ?thesis by blast
qed

text \<open>A drain that nothing disturbs, and where it is after a few steps.\<close>

definition own_step :: "env \<Rightarrow> nat \<Rightarrow> process \<Rightarrow> process" where
  "own_step E me p = drain_step E me (pr_stages p ! me) p"

definition about_to_claim :: "env \<Rightarrow> nat \<Rightarrow> process \<Rightarrow> bool" where
  "about_to_claim E me p \<longleftrightarrow> (\<exists>n<MAX_JOBS. pr_stages p ! me = Pending n)
     \<and> claim_one (e_job_stale_after_seconds E) (pr_now p) (pr_db p) \<noteq> None"

lemma claims_soon:
  assumes "me < length (pr_stages p)"
    and due: "claim_one (e_job_stale_after_seconds E) (pr_now p) (pr_db p) \<noteq> None"
  shows "pr_stages p ! me = Clearing \<Longrightarrow> about_to_claim E me ((own_step E me ^^ 1) p)"
    and "pr_stages p ! me = Sweeping \<Longrightarrow> about_to_claim E me ((own_step E me ^^ 2) p)"
    and "pr_stages p ! me = Waiting d \<Longrightarrow> pr_wake p \<or> d \<le> real_of_int (pr_now p) \<Longrightarrow>
           about_to_claim E me ((own_step E me ^^ 2) p)"
    and "pr_stages p ! me = Deciding \<Longrightarrow> about_to_claim E me ((own_step E me ^^ 3) p)"
proof -
  have jobs: "claim_one a b (snd (purge_expired_sessions c s)) = None \<longleftrightarrow> claim_one a b s = None" for a b c s
    by (simp add: claim_one_None due_jobs_def purge_expired_sessions_def)
  note defs = own_step_def about_to_claim_def eval_nat_numeral funpow_swap1 MAX_JOBS_def
  show "about_to_claim E me ((own_step E me ^^ 1) p)" if "pr_stages p ! me = Clearing"
    using that assms by (simp add: defs)
  show "about_to_claim E me ((own_step E me ^^ 2) p)" if "pr_stages p ! me = Sweeping"
    using that assms jobs by (simp add: defs)
  show "about_to_claim E me ((own_step E me ^^ 2) p)"
    if "pr_stages p ! me = Waiting d" "pr_wake p \<or> d \<le> real_of_int (pr_now p)"
    using that assms by (simp add: defs)
  show "about_to_claim E me ((own_step E me ^^ 3) p)" if "pr_stages p ! me = Deciding"
  proof -
    obtain t where "t \<in> set (due_times (e_job_stale_after_seconds E) (pr_db p))" "t \<le> pr_now p"
      using claim_due_time due by blast
    then have "due_times (e_job_stale_after_seconds E) (pr_db p) \<noteq> []"
      and "Min (set (due_times (e_job_stale_after_seconds E) (pr_db p))) \<le> pr_now p"
      using Min_le [OF finite_set] order_trans by (fastforce, blast)
    then have "seconds_until_due (e_job_stale_after_seconds E) (pr_now p) (pr_db p) = Some 0"
      by (simp add: seconds_until_due_cases max.absorb1 del: Min_le_iff)
    then show ?thesis using that assms by (simp add: defs decide_def)
  qed
qed



text \<open>
  C34. A kick can be lost after all.  When a drain raises, the thread stays registered until
  \<open>_run\<close> takes the lock.  A request that enqueues and kicks in between finds a registered thread,
  so its kick starts none; then the dying thread clears the registration and ends.  The job is
  due, nothing is owed, no thread is alive, and no step of a thread will change that.
\<close>

theorem kick_lost_while_dying:
  assumes "reachable E p" "pr_thread p = Some me" "pr_stages p ! me \<notin> {Dying, Ended}" "pr_owed p = 0"
    and "enqueue (e_job_max_attempts E) org kind payload key ma fresh (pr_now p) (pr_db p) = Inr (True, s')"
  shows "\<exists>q. reachable E q \<and> q = drain_step E me Dying (kick True ((raise_in me p)\<lparr>pr_db := s', pr_owed := 0\<rparr>))
    \<and> pr_owed q = 0 \<and> pr_thread q = None \<and> (\<forall>i<length (pr_stages q). own_step E i q = q)
    \<and> claim_one (e_job_stale_after_seconds E) (pr_now q) (pr_db q) \<noteq> None"
proof -
  have ok: "drain_ok E p" and me: "me < length (pr_stages p)"
    using reachable_ok [OF assms(1)] assms(2) by (simp_all add: drain_ok_def)
  let ?p1 = "raise_in me p" let ?p2 = "?p1\<lparr>pr_db := s', pr_owed := Suc 0\<rparr>"
  let ?p3 = "kick True ((raise_in me p)\<lparr>pr_db := s', pr_owed := 0\<rparr>)"
  let ?q = "drain_step E me Dying ?p3"
  have "reachable E ?p1" using move [OF assms(1) raises] me assms(3) by blast
  moreover have "process_step E ?p1 ?p2"
    using process_step.enqueued [where p = ?p1] assms(4,5) by simp
  moreover have "process_step E ?p2 ?p3" using process_step.kicked [of ?p2 0 E] by simp
  ultimately have r3: "reachable E ?p3" by (blast intro: move)
  have kicked: "?p3 = ?p1\<lparr>pr_db := s', pr_owed := 0, pr_wake := True\<rparr>" using assms(2) by (simp add: kick_def)
  have "reachable E ?q" using move [OF r3 process_step.drains [of me ?p3 E]] me by (simp add: kicked)
  moreover have "own_step E i ?q = ?q" if "i < length (pr_stages ?q)" for i
    using that ok assms(2) by (auto simp: kicked own_step_def drain_ok_def nth_list_update)
  moreover have "claim_one (e_job_stale_after_seconds E) (pr_now ?q) (pr_db ?q) \<noteq> None"
  proof -
    obtain j where "jobs s' = jobs (pr_db p) @ [j]" "due_job (e_job_stale_after_seconds E) (pr_now p) j"
      using enqueue_due [OF assms(5)] by blast
    then show ?thesis
      by (auto simp: kicked claim_one_None due_jobs_def select_where_def filter_empty_conv)
  qed
  ultimately show ?thesis by (intro exI [of _ ?q]) (simp add: kicked)
qed


section \<open>The sample process\<close>

definition kicked_sample :: "db \<Rightarrow> process" where
  "kicked_sample s = kick True ((started s 0)\<lparr>pr_owed := 0\<rparr>)"

lemma kicked_sample_simps [simp]:
  "pr_db (kicked_sample s) = s" "pr_now (kicked_sample s) = 0" "pr_thread (kicked_sample s) = Some 0"
  "pr_wake (kicked_sample s)" "pr_stages (kicked_sample s) = [Sweeping]" "pr_owed (kicked_sample s) = 0"
  "\<not> pr_raised (kicked_sample s)"
  by (simp_all add: kicked_sample_def kick_def started_def)

lemma kicked_sample_reachable: "reachable E (kicked_sample s)"
  unfolding kicked_sample_def
  by (rule move [OF reachable.start process_step.kicked]) (simp add: started_def)

lemma drain_step_length: "length (pr_stages (drain_step E me st q)) = length (pr_stages q)"
proof (cases st)
  case (Pending n)
  with pending_step_cases [of E me n q] show ?thesis by (elim disjE exE) simp_all
qed (auto simp: decide_def split: option.split)

lemma own_steps_reachable:
  "reachable E p \<Longrightarrow> me < length (pr_stages p) \<Longrightarrow>
     reachable E ((own_step E me ^^ k) p) \<and> me < length (pr_stages ((own_step E me ^^ k) p))"
proof (induction k)
  case (Suc k)
  then have q: "reachable E ((own_step E me ^^ k) p)" "me < length (pr_stages ((own_step E me ^^ k) p))" by simp_all
  have "(own_step E me ^^ Suc k) p = drain_step E me (pr_stages ((own_step E me ^^ k) p) ! me) ((own_step E me ^^ k) p)"
    by (simp add: own_step_def [of E me "(own_step E me ^^ k) p"])
  with move [OF q(1) process_step.drains [OF q(2)]] q(2) show ?case by (simp only: drain_step_length)
qed simp

lemma draft_due: "claim_one 600 0 sample_db \<noteq> None"
  by (simp add: claim_one_None due_jobs_def due_job_def sample_db_def draft_job_def)

lemma one_drain_and_idle_means_empty_witness:
  "\<exists>q. reachable sample_env q \<and> pr_stages q = [Ended] \<and> claim_one 600 7 (pr_db q) = None"
proof -
  let ?q = "(own_step sample_env 0 ^^ 4) (kicked_sample empty_db)"
  have "?q = (kicked_sample empty_db)\<lparr>pr_wake := False, pr_thread := None, pr_stages := [Ended]\<rparr>"
    by (simp add: eval_nat_numeral own_step_def goto_def pending_step_def MAX_JOBS_def claim_one_def due_jobs_def
        decide_def seconds_until_due_def due_times_def purge_expired_sessions_def empty_db_def)
  moreover have r: "reachable sample_env ?q"
    using own_steps_reachable [OF kicked_sample_reachable, of 0 empty_db sample_env 4] by simp
  ultimately show ?thesis
    using one_drain_and_idle_means_empty [OF r] by (intro exI [of _ ?q]) (simp add: sample_env_def)
qed


lemma kick_lost_while_dying_witness:
  "\<exists>q. reachable sample_env q \<and> pr_owed q = 0 \<and> pr_thread q = None
     \<and> claim_one (e_job_stale_after_seconds sample_env) (pr_now q) (pr_db q) \<noteq> None"
proof -
  have "\<exists>s'. enqueue 3 [1] [] [] [62] None [52] 0 sample_db = Inr (True, s')"
    by (simp add: enqueue_def insert_job_def id_defs sample_defs)
  then show ?thesis
    using kick_lost_while_dying [OF kicked_sample_reachable, of sample_db 0 sample_env "[1]" "[]" "[]" "[62]" None "[52]"]
    by (auto simp: sample_env_def)
qed

end
