(* ===== verification/Middleware.thy ===== *)
theory Middleware
  imports Prelude
begin

text \<open>
  The ASGI layer below the routes: \<open>bodylimit.py\<close> and \<open>securityheaders.py\<close>.  The application and
  the server are outside; a middleware is what it does to the messages that pass between them.
  A header block is the list of its name and value pairs, names in lower case as ASGI has them.
\<close>

section \<open>Messages\<close>

type_synonym header_list = "(pystr \<times> pystr) list"

datatype message =
    HttpRequest (msg_body: "nat list") (msg_more: bool)
  | HttpDisconnect
  | OtherMessage

record asgi_scope =
  sc_http :: bool
  sc_path :: pystr
  sc_headers :: header_list

definition header_of :: "pystr \<Rightarrow> header_list \<Rightarrow> pystr option" where
  "header_of name hs = map_option snd (find (\<lambda>h. fst h = name) hs)"

text \<open>
  \<open>int(text)\<close>, over the characters a header can carry: spaces around, one sign, and digits that
  single underscores may separate; more than 4300 digits raise as anything else does.
\<close>

fun digits_of :: "pystr \<Rightarrow> nat list option" where
  "digits_of [] = None"
| "digits_of [c] = (if 48 \<le> c \<and> c \<le> 57 then Some [c - 48] else None)"
| "digits_of (c # d # cs) =
     (if 48 \<le> c \<and> c \<le> 57
      then map_option ((#) (c - 48)) (digits_of (if d = 95 then cs else d # cs))
      else None)"

definition number_of :: "nat list \<Rightarrow> int" where
  "number_of ds = foldl (\<lambda>n d. 10 * n + int d) 0 ds"

definition py_int :: "pystr \<Rightarrow> int option" where
  "py_int s =
     (let t = strip s;
          neg = (case t of c # _ \<Rightarrow> c = 45 | [] \<Rightarrow> False);
          body = (case t of c # cs \<Rightarrow> (if c = 45 \<or> c = 43 then cs else t) | [] \<Rightarrow> t) in
      case digits_of body of
        None \<Rightarrow> None
      | Some ds \<Rightarrow> (if 4300 < length ds then None
                    else Some (if neg then - number_of ds else number_of ds)))"

section \<open>bodylimit.py\<close>

text \<open>\<open>counting_receive\<close>: its counter, and the message the application gets in place of the server's.\<close>

fun counting_receive :: "int \<Rightarrow> nat \<Rightarrow> message \<Rightarrow> nat \<times> message" where
  "counting_receive max_bytes received (HttpRequest body cont) =
     (let received' = received + length body in
      (received', if max_bytes < int received' then HttpDisconnect else HttpRequest body cont))"
| "counting_receive max_bytes received message = (received, message)"

fun counted :: "int \<Rightarrow> nat \<Rightarrow> message list \<Rightarrow> message list" where
  "counted max_bytes received [] = []"
| "counted max_bytes received (m # ms) =
     (let (received', m') = counting_receive max_bytes received m in m' # counted max_bytes received' ms)"

datatype served = Untouched | Rejected nat pystr | Counting

definition body_size_limit :: "int \<Rightarrow> asgi_scope \<Rightarrow> served" where
  "body_size_limit max_bytes scope =
     (if \<not> sc_http scope then Untouched
      else
        (case header_of (ascii ''content-length'') (sc_headers scope) of
           None \<Rightarrow> Counting
         | Some declared \<Rightarrow>
             (case py_int declared of
                None \<Rightarrow> Counting
              | Some n \<Rightarrow> (if max_bytes < n then Rejected 413 (ascii ''request body too large'') else Counting))))"

text \<open>What the application receives of the messages the server has, if it is called at all.\<close>

definition app_receives :: "int \<Rightarrow> asgi_scope \<Rightarrow> message list \<Rightarrow> message list option" where
  "app_receives max_bytes scope ms =
     (case body_size_limit max_bytes scope of
        Untouched \<Rightarrow> Some ms
      | Rejected code detail \<Rightarrow> None
      | Counting \<Rightarrow> Some (counted max_bytes 0 ms))"

section \<open>securityheaders.py\<close>

definition CSP_DIRECTIVES :: "pystr list" where
  "CSP_DIRECTIVES =
     [ascii ''default-src 'self'' @ [39],
      ascii ''script-src 'self'' @ [39],
      ascii ''style-src 'self' 'unsafe-inline'' @ [39],
      ascii ''img-src 'self' data:'',
      ascii ''font-src 'self'' @ [39],
      ascii ''connect-src 'self'' @ [39],
      ascii ''object-src 'none'' @ [39],
      ascii ''base-uri 'self'' @ [39],
      ascii ''frame-ancestors 'none'' @ [39],
      ascii ''form-action 'self'' @ [39]]"

definition CSP :: pystr where
  "CSP = join_text (ascii ''; '') CSP_DIRECTIVES"

definition HEADERS :: header_list where
  "HEADERS =
     [(ascii ''content-security-policy'', CSP),
      (ascii ''x-content-type-options'', ascii ''nosniff''),
      (ascii ''x-frame-options'', ascii ''DENY''),
      (ascii ''referrer-policy'', ascii ''no-referrer''),
      (ascii ''strict-transport-security'', ascii ''max-age=31536000; includeSubDomains'')]"

definition CSP_EXEMPT :: "pystr list" where
  "CSP_EXEMPT = [ascii ''/docs'', ascii ''/redoc'', ascii ''/docs/oauth2-redirect'']"

definition setdefault :: "pystr \<Rightarrow> pystr \<Rightarrow> header_list \<Rightarrow> header_list" where
  "setdefault name val hs = (if header_of name hs = None then hs @ [(name, val)] else hs)"

fun add_headers :: "bool \<Rightarrow> header_list \<Rightarrow> header_list \<Rightarrow> header_list" where
  "add_headers exempt [] hs = hs"
| "add_headers exempt ((name, val) # rest) hs =
     add_headers exempt rest
       (if name = ascii ''content-security-policy'' \<and> exempt then hs else setdefault name val hs)"

definition security_headers :: "asgi_scope \<Rightarrow> header_list \<Rightarrow> header_list" where
  "security_headers scope response =
     (if \<not> sc_http scope then response
      else add_headers (sc_path scope \<in> set CSP_EXEMPT) HEADERS response)"

section \<open>Laws\<close>

definition body_bytes :: "message list \<Rightarrow> nat" where
  "body_bytes ms = sum_list (map (\<lambda>m. case m of HttpRequest body cont \<Rightarrow> length body | _ \<Rightarrow> 0) ms)"

lemma body_bytes_Nil [simp]: "body_bytes [] = 0"
  by (simp add: body_bytes_def)

lemma body_bytes_Cons [simp]:
  "body_bytes (m # ms) = (case m of HttpRequest body cont \<Rightarrow> length body | _ \<Rightarrow> 0) + body_bytes ms"
  by (simp add: body_bytes_def)

lemma counted_cut: "max_bytes < int received \<Longrightarrow> body_bytes (counted max_bytes received ms) = 0"
proof (induction ms arbitrary: received)
  case (Cons m ms)
  then show ?case by (cases m) (auto simp: Let_def)
qed simp

lemma counted_bound:
  "int received \<le> max_bytes \<Longrightarrow> int (received + body_bytes (counted max_bytes received ms)) \<le> max_bytes"
proof (induction ms arbitrary: received)
  case (Cons m ms)
  show ?case
  proof (cases m)
    case (HttpRequest body cont)
    show ?thesis
    proof (cases "max_bytes < int (received + length body)")
      case True
      with HttpRequest Cons.prems counted_cut [OF True] show ?thesis by (simp add: Let_def)
    next
      case False
      with HttpRequest Cons.IH [of "received + length body"] show ?thesis by (simp add: Let_def)
    qed
  qed (use Cons in simp_all)
qed simp

lemma counted_same:
  "int (received + body_bytes ms) \<le> max_bytes \<Longrightarrow> counted max_bytes received ms = ms"
proof (induction ms arbitrary: received)
  case (Cons m ms)
  then show ?case by (cases m) (auto simp: Let_def)
qed simp


text \<open>
  C35. No request costs more memory than the limit.  Whatever length is declared, in whatever
  pieces the body arrives, the application receives at most \<open>max_bytes\<close> of it; it is not called
  at all exactly when the declared length is over the limit; a body within the limit arrives
  unchanged; and the application is never left waiting for a message the server sent.
\<close>

theorem body_limit_holds:
  assumes "sc_http scope" "0 \<le> max_bytes"
  shows "(case app_receives max_bytes scope ms of
        None \<Rightarrow> \<exists>declared n. header_of (ascii ''content-length'') (sc_headers scope) = Some declared
                  \<and> py_int declared = Some n \<and> max_bytes < n
      | Some ms' \<Rightarrow> int (body_bytes ms') \<le> max_bytes \<and> length ms' = length ms
          \<and> (int (body_bytes ms) \<le> max_bytes \<longrightarrow> ms' = ms)
          \<and> \<not> (\<exists>declared n. header_of (ascii ''content-length'') (sc_headers scope) = Some declared
                  \<and> py_int declared = Some n \<and> max_bytes < n))"
proof -
  let ?declared = "\<exists>declared n. header_of (ascii ''content-length'') (sc_headers scope) = Some declared
         \<and> py_int declared = Some n \<and> max_bytes < n"
  have called: "app_receives max_bytes scope ms = (if ?declared then None else Some (counted max_bytes 0 ms))"
    using assms(1)
    by (auto simp: app_receives_def body_size_limit_def simp del: ascii_Cons split: option.splits)
  have len: "length (counted max_bytes r ms) = length ms" for r
    by (induction ms arbitrary: r) (simp_all add: case_prod_beta)
  show ?thesis
    unfolding called using counted_bound [of 0 max_bytes ms] counted_same [of 0 ms max_bytes] assms(2) len
    by (cases ?declared) simp_all
qed

lemma body_limit_holds_witness:
  "int (body_bytes (counted 4 0 [HttpRequest [1, 2, 3] True, HttpRequest [4, 5] False])) \<le> 4"
  using body_limit_holds [of "\<lparr>sc_http = True, sc_path = [], sc_headers = []\<rparr>" 4
      "[HttpRequest [1, 2, 3] True, HttpRequest [4, 5] False]"]
  by (simp add: app_receives_def body_size_limit_def header_of_def)

lemma spaced_length_is_read: "py_int (ascii '' +1_0 '') = Some 10"
  by (simp add: py_int_def strip_def lstrip_def is_space_def number_of_def)

text \<open>Every header is on every response, and none that the application set is overruled.\<close>

lemma header_of_append:
  "header_of name (hs @ hs') = (case header_of name hs of None \<Rightarrow> header_of name hs' | Some v \<Rightarrow> Some v)"
  by (induction hs) (simp_all add: header_of_def)

lemma add_headers_keep: "header_of name hs = Some v \<Longrightarrow> header_of name (add_headers exempt rest hs) = Some v"
  by (induction exempt rest hs rule: add_headers.induct) (simp_all add: setdefault_def header_of_append del: ascii_Cons)

lemma add_headers_other:
  "name \<notin> fst ` set rest \<Longrightarrow> header_of name (add_headers exempt rest hs) = header_of name hs"
proof (induction exempt rest hs rule: add_headers.induct)
  case (2 exempt n v rest hs)
  have "header_of name (setdefault n v hs) = header_of name hs"
    using 2(2) by (auto simp: setdefault_def header_of_append header_of_def [of name "[(n, v)]"] split: option.split)
  with 2 show ?case by simp
qed simp

lemma add_headers_set:
  assumes "(name, v) \<in> set rest" "distinct (map fst rest)"
    and "\<not> (name = ascii ''content-security-policy'' \<and> exempt)"
  shows "header_of name (add_headers exempt rest hs) = (case header_of name hs of None \<Rightarrow> Some v | Some w \<Rightarrow> Some w)"
  using assms
proof (induction exempt rest hs rule: add_headers.induct)
  case (2 exempt n w rest hs)
  show ?case
  proof (cases "n = name")
    case True
    then have "w = v" using 2(2,3) by (force simp: image_iff)
    have "header_of name (setdefault name v hs) = (case header_of name hs of None \<Rightarrow> Some v | Some w \<Rightarrow> Some w)"
      by (auto simp: setdefault_def header_of_append header_of_def [of name "[(name, v)]"] split: option.split)
    moreover have "add_headers exempt ((n, w) # rest) hs = add_headers exempt rest (setdefault name v hs)"
      using True \<open>w = v\<close> 2(4) by (simp only: add_headers.simps if_False simp_thms)
    ultimately show ?thesis using add_headers_keep by (metis option.case_eq_if option.collapse)
  next
    case False
    then have "header_of name (if n = ascii ''content-security-policy'' \<and> exempt then hs else setdefault n w hs)
        = header_of name hs"
      by (auto simp: setdefault_def header_of_append header_of_def [of name "[(n, w)]"] split: option.split)
    with False 2 show ?thesis by (simp del: ascii_Cons)
  qed
qed simp

lemma security_headers_present:
  assumes "sc_http scope" "(name, v) \<in> set HEADERS"
    and "name = ascii ''content-security-policy'' \<Longrightarrow> sc_path scope \<notin> set CSP_EXEMPT"
  shows "header_of name (security_headers scope response)
    = (case header_of name response of None \<Rightarrow> Some v | Some w \<Rightarrow> Some w)"
  unfolding security_headers_def
  using assms add_headers_set [of name v HEADERS "sc_path scope \<in> set CSP_EXEMPT" response]
  by (auto simp: HEADERS_def simp del: ascii_Cons)

end
