(* ===== verification/Migrate.thy ===== *)
theory Migrate
  imports Errors
begin

text \<open>
  \<open>migrate.py\<close>: the runner of the plain-SQL migrations and the provisioning of the app's role.
  The schema a migration changes is a type parameter and running its text is the argument
  \<open>run_sql\<close>: what Postgres does with a file is outside.  \<open>decode_utf8\<close> is \<open>bytes.decode\<close> with
  replacement.  The connection URLs arrive as \<open>urlsplit\<close> parsed them.
\<close>

section \<open>The app's role\<close>

record url_parts =
  url_username :: "pystr option"
  url_password :: "pystr option"

definition hex_digit :: "nat \<Rightarrow> nat option" where
  "hex_digit c =
     (if 48 \<le> c \<and> c \<le> 57 then Some (c - 48)
      else if 65 \<le> c \<and> c \<le> 70 then Some (c - 55)
      else if 97 \<le> c \<and> c \<le> 102 then Some (c - 87) else None)"

text \<open>\<open>unquote\<close>: percent escapes to bytes, byte runs decoded, everything beyond ASCII kept.\<close>

fun unquote_bytes :: "pystr \<Rightarrow> nat list" where
  "unquote_bytes (c # a # b # cs) =
     (if c = 37 then
        (case (hex_digit a, hex_digit b) of
           (Some x, Some y) \<Rightarrow> (16 * x + y) # unquote_bytes cs
         | _ \<Rightarrow> c # unquote_bytes (a # b # cs))
      else c # unquote_bytes (a # b # cs))"
| "unquote_bytes cs = cs"

function unquote :: "(nat list \<Rightarrow> pystr) \<Rightarrow> pystr \<Rightarrow> pystr" where
  "unquote decode_utf8 s =
     (case s of
        [] \<Rightarrow> []
      | c # cs \<Rightarrow>
          (if c < 128
           then decode_utf8 (unquote_bytes (takeWhile (\<lambda>x. x < 128) s))
                  @ unquote decode_utf8 (dropWhile (\<lambda>x. x < 128) s)
           else c # unquote decode_utf8 cs))"
  by pat_completeness auto
termination
  by (relation "measure (length \<circ> snd)") (auto simp: less_Suc_eq_le length_dropWhile_le)

declare unquote.simps [simp del]

type_synonym roles = "(pystr \<times> pystr) list"

definition or_empty :: "pystr option \<Rightarrow> pystr" where
  "or_empty x = (case x of None \<Rightarrow> [] | Some s \<Rightarrow> s)"

definition ensure_app_role ::
  "(nat list \<Rightarrow> pystr) \<Rightarrow> url_parts \<Rightarrow> url_parts \<Rightarrow> roles \<Rightarrow> pystr option \<times> roles" where
  "ensure_app_role decode_utf8 app owner rs =
     (let role = unquote decode_utf8 (or_empty (url_username app));
          password = unquote decode_utf8 (or_empty (url_password app)) in
      if role = [] \<or> role = or_empty (url_username owner) then (None, rs)
      else if exists_where (\<lambda>r. fst r = role) rs
           then (Some role, update_where (\<lambda>r. fst r = role) (\<lambda>r. (role, password)) rs)
           else (Some role, rs @ [(role, password)]))"

section \<open>The migrations\<close>

record migration_file =
  mf_name :: pystr
  mf_text :: pystr

record 'schema migrated =
  mg_roles :: roles
  mg_versions :: "pystr list"
  mg_schema :: 'schema

text \<open>\<open>Path.stem\<close>.\<close>

definition path_stem :: "pystr \<Rightarrow> pystr" where
  "path_stem name =
     (let ext = takeWhile (\<lambda>c. c \<noteq> 46) (rev name) in
      if ext = [] \<or> length name \<le> length ext + 1 then name else take (length name - length ext - 1) name)"

definition version_of :: "migration_file \<Rightarrow> pystr" where
  "version_of file = path_stem (mf_name file)"

definition migration_files :: "migration_file list \<Rightarrow> migration_file list" where
  "migration_files dir = sort_key mf_name dir"

text \<open>One file, its statements and its record in one transaction.\<close>

definition apply_file ::
  "(pystr \<Rightarrow> 'schema \<Rightarrow> exc + 'schema) \<Rightarrow> migration_file \<Rightarrow> 'schema migrated \<Rightarrow> exc + 'schema migrated" where
  "apply_file run_sql file s =
     andthen (run_sql (mf_text file) (mg_schema s)) (\<lambda>schema.
     andthen (check (version_of file \<notin> set (mg_versions s)) (DbError UniqueViolation)) (\<lambda>_.
       Inr (s\<lparr>mg_versions := mg_versions s @ [version_of file], mg_schema := schema\<rparr>)))"

fun apply_files ::
  "(pystr \<Rightarrow> 'schema \<Rightarrow> exc + 'schema) \<Rightarrow> pystr list \<Rightarrow> migration_file list \<Rightarrow> pystr list \<Rightarrow> 'schema migrated
     \<Rightarrow> (exc + pystr list) \<times> 'schema migrated" where
  "apply_files run_sql done_before [] applied_now s = (Inr applied_now, s)"
| "apply_files run_sql done_before (file # files) applied_now s =
     (if version_of file \<in> set done_before
      then apply_files run_sql done_before files applied_now s
      else
        (case apply_file run_sql file s of
           Inl e \<Rightarrow> (Inl e, s)
         | Inr s' \<Rightarrow> apply_files run_sql done_before files (applied_now @ [version_of file]) s'))"

definition apply_pending ::
  "(nat list \<Rightarrow> pystr) \<Rightarrow> url_parts \<Rightarrow> url_parts \<Rightarrow> (pystr \<Rightarrow> 'schema \<Rightarrow> exc + 'schema) \<Rightarrow> migration_file list
     \<Rightarrow> 'schema migrated \<Rightarrow> (exc + pystr list) \<times> 'schema migrated" where
  "apply_pending decode_utf8 app owner run_sql dir s =
     (let (role, rs) = ensure_app_role decode_utf8 app owner (mg_roles s) in
      apply_files run_sql (mg_versions s) (migration_files dir) [] (s\<lparr>mg_roles := rs\<rparr>))"

definition migration_status :: "migration_file list \<Rightarrow> 'schema migrated \<Rightarrow> (pystr \<times> pystr) list" where
  "migration_status dir s =
     map (\<lambda>file. (if version_of file \<in> set (mg_versions s) then ascii ''applied'' else ascii ''PENDING'',
                  version_of file))
       (migration_files dir)"

section \<open>What a run does\<close>

text \<open>The reference: run the files one after the other, and nothing else.\<close>

fun run_all :: "(pystr \<Rightarrow> 'schema \<Rightarrow> exc + 'schema) \<Rightarrow> migration_file list \<Rightarrow> 'schema \<Rightarrow> exc + 'schema" where
  "run_all run_sql [] schema = Inr schema"
| "run_all run_sql (file # files) schema = andthen (run_sql (mf_text file) schema) (run_all run_sql files)"

definition pending_files :: "migration_file list \<Rightarrow> 'schema migrated \<Rightarrow> migration_file list" where
  "pending_files dir s = filter (\<lambda>f. version_of f \<notin> set (mg_versions s)) (sort_key mf_name dir)"

lemma apply_files_skips:
  "apply_files run_sql before files now s
    = apply_files run_sql before (filter (\<lambda>f. version_of f \<notin> set before) files) now s"
  by (induction run_sql before files now s rule: apply_files.induct) (auto split: sum.split)

lemma apply_files_new:
  assumes "\<And>f. f \<in> set files \<Longrightarrow> version_of f \<notin> set before"
    and "distinct (map version_of files)"
    and "\<And>f. f \<in> set files \<Longrightarrow> version_of f \<notin> set (mg_versions s)"
    and "apply_files run_sql before files now s = (r, s')"
  shows "\<exists>k\<le>length files. mg_versions s' = mg_versions s @ map version_of (take k files)
    \<and> mg_roles s' = mg_roles s
    \<and> run_all run_sql (take k files) (mg_schema s) = Inr (mg_schema s')
    \<and> (case r of Inr vs \<Rightarrow> k = length files \<and> vs = now @ map version_of files
        | Inl e \<Rightarrow> k < length files \<and> run_sql (mf_text (files ! k)) (mg_schema s') = Inl e)"
  using assms
proof (induction files arbitrary: now s)
  case (Cons f files)
  show ?case
  proof (cases "apply_file run_sql f s")
    case (Inl e)
    then have "run_sql (mf_text f) (mg_schema s) = Inl e"
      using Cons.prems(3) by (auto simp: apply_file_def andthen_def check_def split: sum.splits if_splits)
    with Inl Cons.prems show ?thesis by (intro exI [of _ 0]) auto
  next
    case (Inr s1)
    then have s1: "mg_versions s1 = mg_versions s @ [version_of f]"
      "run_sql (mf_text f) (mg_schema s) = Inr (mg_schema s1)" "mg_roles s1 = mg_roles s"
      by (auto simp: apply_file_def result_simps)
    have run: "apply_files run_sql before files (now @ [version_of f]) s1 = (r, s')"
      using Cons.prems Inr by simp
    obtain k where k: "k \<le> length files"
      "mg_versions s' = mg_versions s1 @ map version_of (take k files)" "mg_roles s' = mg_roles s1"
      "run_all run_sql (take k files) (mg_schema s1) = Inr (mg_schema s')"
      "case r of Inr vs \<Rightarrow> k = length files \<and> vs = (now @ [version_of f]) @ map version_of files
        | Inl e \<Rightarrow> k < length files \<and> run_sql (mf_text (files ! k)) (mg_schema s') = Inl e"
    proof (rule Cons.IH [OF _ _ _ run, THEN exE])
      show "version_of g \<notin> set before" if "g \<in> set files" for g using Cons.prems(1) that by simp
      show "distinct (map version_of files)" using Cons.prems(2) by simp
      show "version_of g \<notin> set (mg_versions s1)" if g: "g \<in> set files" for g
      proof -
        have "version_of f \<noteq> version_of g" using Cons.prems(2) imageI [OF g, of version_of] by (metis distinct.simps(2) image_set list.simps(9))
        with Cons.prems(3) [of g] g show ?thesis by (simp add: s1(1))
      qed
    qed blast
    then show ?thesis by (intro exI [of _ "Suc k"]) (simp add: s1 split: sum.splits)
  qed
qed auto

text \<open>Provisioning the role twice is provisioning it once.\<close>

lemma ensure_app_role_twice:
  "ensure_app_role dec app owner (snd (ensure_app_role dec app owner rs)) = ensure_app_role dec app owner rs"
proof -
  let ?role = "unquote dec (or_empty (url_username app))" and ?pw = "unquote dec (or_empty (url_password app))"
  let ?set = "update_where (\<lambda>r. fst r = ?role) (\<lambda>r. (?role, ?pw))"
  have twice: "?set (?set xs) = ?set xs" for xs by (simp add: update_where_def)
  have all: "xs = ?set xs" if "\<not> exists_where (\<lambda>r. fst r = ?role) xs" for xs
    using that by (auto simp: update_where_def exists_where_iff intro!: map_idI [symmetric])
  have kept: "exists_where (\<lambda>r. fst r = ?role) (?set xs) = exists_where (\<lambda>r. fst r = ?role) xs" for xs
    by (induction xs) simp_all
  show ?thesis
  proof (cases "exists_where (\<lambda>r. fst r = ?role) rs")
    case True
    then show ?thesis by (simp add: ensure_app_role_def Let_def twice kept)
  next
    case False
    have "?set (rs @ [(?role, ?pw)]) = rs @ [(?role, ?pw)]"
      using all [OF False] by (simp add: update_where_def)
    moreover have "exists_where (\<lambda>r. fst r = ?role) (rs @ [(?role, ?pw)])"
      by (simp add: exists_where_iff)
    ultimately show ?thesis using False by (simp add: ensure_app_role_def Let_def)
  qed
qed


definition two_migrations :: "migration_file list" where
  "two_migrations = [\<lparr>mf_name = ascii ''0002_b.sql'', mf_text = [2]\<rparr>, \<lparr>mf_name = ascii ''0001_a.sql'', mf_text = [1]\<rparr>]"


end
