(* ===== verification/Tracing.thy ===== *)
theory Tracing
  imports Pii Errors
begin

text \<open>
  \<open>tracing.py\<close>: what one question sends to Langfuse.  The client is outside: \<open>accepts\<close> says of
  each call whether it returns or raises, and the calls that leave are recorded in the order they
  are made.  A method's \<open>try\<close> block is a sequence of calls that stops at the first that raises,
  with the tracer as it is then; \<open>redactor\<close> is \<open>pii.redact\<close> with its chance to raise.
\<close>

section \<open>The client\<close>

definition tracing_enabled :: "pystr option \<Rightarrow> pystr option \<Rightarrow> exc + bool \<Rightarrow> bool" where
  "tracing_enabled public_key secret_key auth_check =
     (public_key \<noteq> None \<and> public_key \<noteq> Some [] \<and> secret_key \<noteq> None \<and> secret_key \<noteq> Some []
      \<and> auth_check = Inr True)"

definition scrub :: "(pystr \<Rightarrow> exc + pystr) \<Rightarrow> pystr \<Rightarrow> pystr" where
  "scrub redactor s = (case redactor s of Inl e \<Rightarrow> ascii ''[REDACTION FAILED]'' | Inr t \<Rightarrow> t)"

type_synonym source = "pystr \<times> nat \<times> pystr"

definition scrub_sources :: "(pystr \<Rightarrow> exc + pystr) \<Rightarrow> source list \<Rightarrow> source list" where
  "scrub_sources redactor ss = map (\<lambda>(doc, ordinal, path). (doc, ordinal, scrub redactor path)) ss"

datatype trace_call =
    StartAsk (tc_user: pystr) pystr pystr pystr
  | StartRetrieval pystr
  | RetrievalOutput "source list" "(nat \<times> nat) option"
  | EndRetrieval
  | StartAnswer pystr pystr
  | AnswerOutput pystr int int real
  | EndAnswer
  | TraceIO pystr pystr
  | RootError pystr pystr
  | RootOutput pystr
  | EndRoot

record tracer =
  tr_root :: bool
  tr_retrieval :: bool
  tr_gen :: bool
  tr_answer :: "pystr list"
  tr_question :: pystr
  tr_model :: pystr
  tr_sent :: "trace_call list"

definition sending :: "(trace_call \<Rightarrow> bool) \<Rightarrow> trace_call \<Rightarrow> tracer \<Rightarrow> tracer + tracer" where
  "sending accepts call t = (if accepts call then Inr (t\<lparr>tr_sent := tr_sent t @ [call]\<rparr>) else Inl t)"

definition when_open :: "bool \<Rightarrow> (tracer \<Rightarrow> tracer + tracer) \<Rightarrow> tracer \<Rightarrow> tracer + tracer" where
  "when_open cond f t = (if cond then f t else Inr t)"

text \<open>The \<open>except\<close> that every method ends in: the failure is logged and the tracer stays as it is.\<close>

definition degrade :: "tracer + tracer \<Rightarrow> tracer" where
  "degrade r = (case r of Inl t \<Rightarrow> t | Inr t \<Rightarrow> t)"

section \<open>AskTracer\<close>

definition new_tracer ::
  "(pystr \<Rightarrow> exc + pystr) \<Rightarrow> (trace_call \<Rightarrow> bool) \<Rightarrow> bool \<Rightarrow> pystr \<Rightarrow> pystr \<Rightarrow> pystr \<Rightarrow> pystr \<Rightarrow> pystr \<Rightarrow> tracer" where
  "new_tracer redactor accepts enabled question org user provider_name model =
     (let q = scrub redactor question;
          t0 = \<lparr>tr_root = False, tr_retrieval = False, tr_gen = False, tr_answer = [], tr_question = q,
                tr_model = model, tr_sent = []\<rparr> in
      if \<not> enabled then t0
      else
        (case andthen (sending accepts (StartAsk user q org provider_name) t0)
                (\<lambda>t. sending accepts (StartRetrieval q) (t\<lparr>tr_root := True\<rparr>)) of
           Inr t \<Rightarrow> t\<lparr>tr_retrieval := True\<rparr>
         | Inl t \<Rightarrow> t\<lparr>tr_root := False\<rparr>))"

definition trace_sources ::
  "(pystr \<Rightarrow> exc + pystr) \<Rightarrow> (trace_call \<Rightarrow> bool) \<Rightarrow> source list \<Rightarrow> (nat \<times> nat) option \<Rightarrow> tracer \<Rightarrow> tracer" where
  "trace_sources redactor accepts ss stats t =
     (if \<not> tr_root t then t
      else degrade
        (andthen (when_open (tr_retrieval t)
            (\<lambda>t. andthen (sending accepts (RetrievalOutput (scrub_sources redactor ss) stats) t)
              (\<lambda>t. andthen (sending accepts EndRetrieval t)
                (\<lambda>t. Inr (t\<lparr>tr_retrieval := False\<rparr>)))) t)
          (\<lambda>t. andthen (sending accepts (StartAnswer (tr_model t) (tr_question t)) t)
            (\<lambda>t. Inr (t\<lparr>tr_gen := True\<rparr>)))))"

definition trace_token :: "pystr \<Rightarrow> tracer \<Rightarrow> tracer" where
  "trace_token text t = t\<lparr>tr_answer := tr_answer t @ [text]\<rparr>"

definition trace_done ::
  "(pystr \<Rightarrow> exc + pystr) \<Rightarrow> (trace_call \<Rightarrow> bool) \<Rightarrow> int \<Rightarrow> int \<Rightarrow> real \<Rightarrow> tracer \<Rightarrow> tracer" where
  "trace_done redactor accepts input_tokens output_tokens cost_usd t =
     (if \<not> tr_root t \<or> \<not> tr_gen t then t
      else degrade (sending accepts
        (AnswerOutput (scrub redactor (concat (tr_answer t))) input_tokens output_tokens cost_usd) t))"

definition trace_finish ::
  "(pystr \<Rightarrow> exc + pystr) \<Rightarrow> (trace_call \<Rightarrow> bool) \<Rightarrow> pystr option \<Rightarrow> tracer \<Rightarrow> tracer" where
  "trace_finish redactor accepts error t =
     (if \<not> tr_root t then t
      else degrade
        (andthen (when_open (tr_retrieval t) (sending accepts EndRetrieval) t)
          (\<lambda>t. andthen (when_open (tr_gen t) (sending accepts EndAnswer) t)
            (\<lambda>t.
              let out = (case error of Some e \<Rightarrow> e | None \<Rightarrow> scrub redactor (concat (tr_answer t))) in
              andthen (sending accepts (TraceIO (tr_question t) out) t)
                (\<lambda>t. andthen (sending accepts
                        (case error of Some e \<Rightarrow> RootError e out | None \<Rightarrow> RootOutput out) t)
                  (sending accepts EndRoot))))))"

section \<open>One question\<close>

datatype trace_event =
    SeeSources "source list" "(nat \<times> nat) option"
  | SeeToken pystr
  | SeeDone int int real
  | SeeFinish "pystr option"

fun trace_step :: "(pystr \<Rightarrow> exc + pystr) \<Rightarrow> (trace_call \<Rightarrow> bool) \<Rightarrow> trace_event \<Rightarrow> tracer \<Rightarrow> tracer" where
  "trace_step redactor accepts (SeeSources ss stats) t = trace_sources redactor accepts ss stats t"
| "trace_step redactor accepts (SeeToken text) t = trace_token text t"
| "trace_step redactor accepts (SeeDone i out cost) t = trace_done redactor accepts i out cost t"
| "trace_step redactor accepts (SeeFinish error) t = trace_finish redactor accepts error t"

definition trace_run :: "(pystr \<Rightarrow> exc + pystr) \<Rightarrow> (trace_call \<Rightarrow> bool) \<Rightarrow> trace_event list \<Rightarrow> tracer \<Rightarrow> tracer" where
  "trace_run redactor accepts steps t = fold (trace_step redactor accepts) steps t"

text \<open>The uploaded, asked or generated text in a call; what is left are ids, names and numbers.\<close>

fun texts_of :: "trace_call \<Rightarrow> pystr list" where
  "texts_of (StartAsk user question org provider_name) = [question]"
| "texts_of (StartRetrieval question) = [question]"
| "texts_of (RetrievalOutput ss stats) = map (snd \<circ> snd) ss"
| "texts_of (StartAnswer model question) = [question]"
| "texts_of (AnswerOutput out i n cost) = [out]"
| "texts_of (TraceIO question out) = [question, out]"
| "texts_of (RootError status out) = [status, out]"
| "texts_of (RootOutput out) = [out]"
| "texts_of call = []"

definition errors_of :: "trace_event list \<Rightarrow> pystr set" where
  "errors_of steps = {e. SeeFinish (Some e) \<in> set steps}"

text \<open>Every text sent so far satisfies \<open>P\<close>, and so does the question that later calls repeat.\<close>

definition traced :: "(pystr \<Rightarrow> bool) \<Rightarrow> tracer \<Rightarrow> bool" where
  "traced P t \<longleftrightarrow> P (tr_question t) \<and> (\<forall>call\<in>set (tr_sent t). \<forall>x\<in>set (texts_of call). P x)"

definition traces :: "(pystr \<Rightarrow> bool) \<Rightarrow> tracer + tracer \<Rightarrow> bool" where
  "traces P r = (case r of Inl t \<Rightarrow> traced P t | Inr t \<Rightarrow> traced P t)"

named_theorems trace_intros

lemma traces_Inr [trace_intros]: "traced P t \<Longrightarrow> traces P (Inr t)"
  by (simp add: traces_def)

lemma traces_andthen [trace_intros]:
  "traces P m \<Longrightarrow> (\<And>t. traced P t \<Longrightarrow> traces P (f t)) \<Longrightarrow> traces P (andthen m f)"
  by (cases m) (simp_all add: traces_def)

lemma traces_sending [trace_intros]:
  "traced P t \<Longrightarrow> (\<And>x. x \<in> set (texts_of call) \<Longrightarrow> P x) \<Longrightarrow> traces P (sending accepts call t)"
  by (auto simp: traces_def sending_def traced_def)

lemma traces_when_open [trace_intros]:
  "traced P t \<Longrightarrow> traces P (f t) \<Longrightarrow> traces P (when_open cond f t)"
  by (simp add: when_open_def traces_def)

lemma traced_degrade [trace_intros]: "traces P r \<Longrightarrow> traced P (degrade r)"
  by (simp add: traces_def degrade_def split: sum.splits)

lemma traced_fields [simp]:
  "traced P (t\<lparr>tr_root := a\<rparr>) = traced P t" "traced P (t\<lparr>tr_retrieval := b\<rparr>) = traced P t"
  "traced P (t\<lparr>tr_gen := c\<rparr>) = traced P t" "traced P (t\<lparr>tr_answer := d\<rparr>) = traced P t"
  by (simp_all add: traced_def)

lemma traced_question: "traced P t \<Longrightarrow> P (tr_question t)"
  by (simp add: traced_def)

lemma trace_step_traced:
  assumes "traced P t" "\<And>s. P (scrub redactor s)" "\<And>e. step = SeeFinish (Some e) \<Longrightarrow> P e"
  shows "traced P (trace_step redactor accepts step t)"
proof (cases step)
  case (SeeSources ss stats)
  then show ?thesis using assms(1,2)
    by (auto simp: trace_sources_def scrub_sources_def dest: traced_question intro!: trace_intros)
next
  case (SeeDone i out cost)
  then show ?thesis using assms(1,2) by (auto simp: trace_done_def intro!: trace_intros)
next
  case (SeeFinish error)
  then show ?thesis using assms
    by (cases error) (auto simp: trace_finish_def Let_def dest: traced_question intro!: trace_intros)
qed (use assms in \<open>simp add: trace_token_def\<close>)

lemma trace_run_traced:
  assumes "traced P t" "\<And>s. P (scrub redactor s)" "\<And>e. e \<in> errors_of steps \<Longrightarrow> P e"
  shows "traced P (trace_run redactor accepts steps t)"
  using assms(1,3) unfolding trace_run_def
proof (induction steps arbitrary: t)
  case (Cons step steps)
  have "traced P (trace_step redactor accepts step t)"
    by (rule trace_step_traced [OF Cons.prems(1) assms(2)]) (simp add: Cons.prems(2) errors_of_def)
  then show ?case using Cons.IH Cons.prems(2) by (simp add: errors_of_def)
qed simp

lemma new_tracer_traced:
  assumes "\<And>s. P (scrub redactor s)"
  shows "traced P (new_tracer redactor accepts enabled question org user provider_name model)"
  using assms by (auto simp: new_tracer_def Let_def sending_def traced_def andthen_def split: sum.splits if_splits)


section \<open>What leaves\<close>

lemma redacted_no_email:
  assumes "\<And>s t. redactor s = Inr t \<Longrightarrow> t = redact U s"
  shows "\<not> occurs_in (lang EMAIL) (scrub redactor s)"
proof (cases "redactor s")
  case (Inr t)
  with assms [OF Inr] redact_no_email show ?thesis by (simp add: scrub_def)
next
  case (Inl e)
  have "64 \<in> set s" if "occurs_in (lang EMAIL) s" for s
    using that email_word by (fastforce simp: occurs_in_def)
  then have "\<not> occurs_in (lang EMAIL) (ascii ''[REDACTION FAILED]'')" by fastforce
  with Inl show ?thesis by (simp add: scrub_def del: ascii_Cons)
qed

text \<open>
  C37. What reaches the tracer is redacted, except a failure.  Over any course of a question, with
  the client or the redaction failing at any call, no question, answer, path or streamed text in
  any call carries an e-mail address unless the error text given to \<open>finish\<close> does; that text
  leaves as it is: when the client accepts the calls it is sent verbatim, although the module
  promises that everything is redacted first.
\<close>

theorem traces_redacted_but_errors:
  assumes "\<And>s t. redactor s = Inr t \<Longrightarrow> t = redact U s"
  shows "(\<forall>call\<in>set (tr_sent (trace_run redactor accepts steps
            (new_tracer redactor accepts enabled question org user provider_name model))).
         \<forall>x\<in>set (texts_of call). x \<notin> errors_of steps \<longrightarrow> \<not> occurs_in (lang EMAIL) x)
    \<and> (\<forall>t e. tr_root t \<longrightarrow> RootError e e \<in> set (tr_sent (trace_run redactor (\<lambda>_. True) [SeeFinish (Some e)] t)))"
proof -
  let ?P = "\<lambda>x. x \<notin> errors_of steps \<longrightarrow> \<not> occurs_in (lang EMAIL) x"
  have scrubbed: "?P (scrub redactor s)" for s using redacted_no_email [OF assms] by blast
  have "traced ?P (trace_run redactor accepts steps
      (new_tracer redactor accepts enabled question org user provider_name model))"
    by (rule trace_run_traced [OF new_tracer_traced]) (use scrubbed in auto)
  moreover have "RootError e e \<in> set (tr_sent (trace_run redactor (\<lambda>_. True) [SeeFinish (Some e)] t))"
    if "tr_root t" for t e
    using that by (simp add: trace_run_def trace_finish_def sending_def when_open_def degrade_def)
  ultimately show ?thesis by (simp add: traced_def)
qed

lemma traces_redacted_but_errors_witness:
  "RootError (ascii ''a@b.co'') (ascii ''a@b.co'') \<in> set (tr_sent (trace_run (\<lambda>s. Inr (redact plain_tables s)) (\<lambda>_. True)
      [SeeFinish (Some (ascii ''a@b.co''))]
      (new_tracer (\<lambda>s. Inr (redact plain_tables s)) (\<lambda>_. True) True (ascii ''hi'') [1] [11] [] [])))
   \<and> \<not> occurs_in (lang EMAIL) (scrub (\<lambda>s. Inr (redact plain_tables s)) (ascii ''mail a@b.co''))"
proof
  let ?r = "\<lambda>s. Inr (redact plain_tables s) :: exc + pystr"
  let ?t = "new_tracer ?r (\<lambda>_. True) True (ascii ''hi'') [1] [11] [] []"
  show "RootError (ascii ''a@b.co'') (ascii ''a@b.co'') \<in> set (tr_sent (trace_run ?r (\<lambda>_. True)
      [SeeFinish (Some (ascii ''a@b.co''))] ?t))"
    using traces_redacted_but_errors [of ?r plain_tables "\<lambda>_. True" "[]" True "[]" "[]" "[]" "[]" "[]"]
    by (simp add: new_tracer_def sending_def Let_def del: ascii_Cons)
  show "\<not> occurs_in (lang EMAIL) (scrub ?r (ascii ''mail a@b.co''))"
    using traces_redacted_but_errors [of ?r plain_tables "\<lambda>_. True" "[]" True "ascii ''mail a@b.co''" "[]" "[]" "[]" "[]"]
    by (simp add: trace_run_def new_tracer_def sending_def errors_of_def Let_def del: ascii_Cons)
qed

end
