(* ===== verification/Anchors.thy ===== *)
theory Anchors
  imports Regex "HOL-Library.AList"
begin

text \<open>
  \<open>scripts/anchors.py\<close>: the line anchors of the documents, checked and repaired.  A document is its
  text, in which \<open>LINK\<close> finds the links; a module is the tree \<open>ast\<close> gives of it, cut down to the
  nodes the script looks at.  A repair says what it reports and, when it rewrites the link, the link
  it writes.
\<close>

section \<open>Where the symbols are\<close>

record span =
  sp_line :: nat
  sp_end :: "nat option"
  sp_decorators :: "nat list"

datatype node =
    FunctionNode pystr span
  | ClassNode pystr span "node list"
  | AssignNode "pystr option list" span
  | AnnAssignNode "pystr option" span
  | OtherNode

type_synonym lines = "nat \<times> nat"

definition span_of :: "span \<Rightarrow> lines" where
  "span_of sp =
     (let start = foldl min (sp_line sp) (sp_decorators sp) in
      (start, case sp_end sp of None \<Rightarrow> start | Some e \<Rightarrow> (if e = 0 then start else e)))"

definition line_span :: "span \<Rightarrow> lines" where
  "line_span sp = (sp_line sp, case sp_end sp of None \<Rightarrow> sp_line sp | Some e \<Rightarrow> (if e = 0 then sp_line sp else e))"

fun method_range :: "pystr \<Rightarrow> node \<Rightarrow> (pystr \<times> lines) list \<Rightarrow> (pystr \<times> lines) list" where
  "method_range cls (FunctionNode name sp) out = AList.update (cls @ ascii ''.'' @ name) (span_of sp) out"
| "method_range cls node out = out"

fun node_ranges :: "node \<Rightarrow> (pystr \<times> lines) list \<Rightarrow> (pystr \<times> lines) list" where
  "node_ranges (ClassNode name sp body) out =
     fold (method_range name) body (AList.update name (span_of sp) out)"
| "node_ranges (FunctionNode name sp) out = AList.update name (span_of sp) out"
| "node_ranges (AssignNode targets sp) out =
     fold (\<lambda>t out. case t of None \<Rightarrow> out | Some name \<Rightarrow> AList.update name (line_span sp) out) targets out"
| "node_ranges (AnnAssignNode target sp) out =
     (case target of None \<Rightarrow> out | Some name \<Rightarrow> AList.update name (line_span sp) out)"
| "node_ranges OtherNode out = out"

definition symbol_ranges :: "node list \<Rightarrow> (pystr \<times> lines) list" where
  "symbol_ranges tree = fold node_ranges tree []"

section \<open>The documents\<close>

text \<open>\<open>ln_end\<close> is 0 where the anchor has no second line.\<close>

record link =
  ln_text_range :: pystr
  ln_path :: pystr
  ln_mod :: pystr
  ln_start :: nat
  ln_end :: nat
  ln_symbol :: "pystr option"

definition SYMBOL_CHARS :: re where
  "SYMBOL_CHARS = many1 (Chr (\<lambda>c. (97 \<le> c \<and> c \<le> 122) \<or> c = 95))"

definition LINK :: "unicode \<Rightarrow> re" where
  "LINK U = seq_re
     [lit ''['', Grp (Seq SYMBOL_CHARS (lit ''.py'')), lit '':'', Grp (many1 (Chr (\<lambda>c. uc_decimal U c \<or> c = 45))),
      lit '']('', Grp (Seq (Rep False 0 None (Chr (\<lambda>c. c \<noteq> 41 \<and> \<not> is_space c)))
                     (Grp (Seq SYMBOL_CHARS (lit ''.py'')))),
      lit ''#L'', Grp (many1 (Chr (uc_decimal U))),
      maybe (Seq (lit ''-L'') (Grp (many1 (Chr (uc_decimal U))))),
      maybe (seq_re [many1 (Chr is_space), Chr (\<lambda>c. c = 34), Grp (many1 (Chr (\<lambda>c. c \<noteq> 34))), Chr (\<lambda>c. c = 34)]),
      lit '')'']"

definition decimal :: "unicode \<Rightarrow> pystr \<Rightarrow> nat" where
  "decimal U s = foldl (\<lambda>n c. 10 * n + (case uc_digit U c of None \<Rightarrow> 0 | Some d \<Rightarrow> d)) 0 s"

text \<open>
  The groups of a match in the order they close: the two of the text, the module, the path, the first
  line; then the last line if there is one, which follows an \<open>L\<close>, and the title, which follows a
  quotation mark.
\<close>

definition link_of :: "unicode \<Rightarrow> pystr \<Rightarrow> (nat \<times> nat) list \<Rightarrow> link" where
  "link_of U s caps =
     (let grp = (\<lambda>i. slice s (fst (caps ! i)) (snd (caps ! i)));
          optional = drop 5 caps in
      \<lparr>ln_text_range = grp 1, ln_path = grp 3, ln_mod = grp 2, ln_start = decimal U (grp 4),
       ln_end = (case find (\<lambda>(a, b). s ! (a - 1) = 76) optional of None \<Rightarrow> 0 | Some (a, b) \<Rightarrow> decimal U (slice s a b)),
       ln_symbol = map_option (\<lambda>(a, b). slice s a b) (find (\<lambda>(a, b). s ! (a - 1) = 34) optional)\<rparr>)"

datatype problem =
    NoSymbol pystr pystr
  | TextDisagrees pystr pystr pystr
  | BlankLines pystr "nat list"
  | Drifted pystr pystr lines lines

record package =
  pk_ranges :: "(pystr \<times> (pystr \<times> lines) list) list"
  pk_lines :: "(pystr \<times> pystr list) list"

text \<open>\<open>src[n - 1]\<close>, with Python's wrap to the last line for \<open>n = 0\<close>.\<close>

definition line_at :: "pystr list \<Rightarrow> nat \<Rightarrow> pystr" where
  "line_at src n = (if n = 0 then last src else src ! (n - 1))"

definition blank_line :: "pystr list \<Rightarrow> nat \<Rightarrow> bool" where
  "blank_line src n \<longleftrightarrow> strip (line_at src n) = []"

function shrink_start :: "pystr list \<Rightarrow> nat \<Rightarrow> nat \<Rightarrow> nat" where
  "shrink_start src start until =
     (if start < until \<and> blank_line src start then shrink_start src (Suc start) until else start)"
  by pat_completeness auto
termination
  by (relation "measure (\<lambda>(src, start, until). until - start)") auto

declare shrink_start.simps [simp del]

fun shrink_end :: "pystr list \<Rightarrow> nat \<Rightarrow> nat \<Rightarrow> nat" where
  "shrink_end src start 0 = 0"
| "shrink_end src start (Suc n) =
     (if start < Suc n \<and> Suc n \<le> length src \<and> blank_line src (Suc n) then shrink_end src start n else Suc n)"

definition shrink :: "pystr list \<Rightarrow> nat \<Rightarrow> nat \<Rightarrow> lines" where
  "shrink src start end0 =
     (let start' = shrink_start src start (if end0 = 0 then start else end0)
      in (start', shrink_end src start' end0))"

text \<open>\<open>_render\<close>, as the link it is read back as.\<close>

definition range_text :: "nat \<Rightarrow> nat \<Rightarrow> pystr" where
  "range_text a b = (if b \<noteq> 0 \<and> b \<noteq> a then dec_digits a @ ascii ''-'' @ dec_digits b else dec_digits a)"

definition render_link :: "link \<Rightarrow> pystr \<Rightarrow> nat \<Rightarrow> nat \<Rightarrow> pystr option \<Rightarrow> link" where
  "render_link m modname a b symbol =
     \<lparr>ln_text_range = range_text a b, ln_path = ln_path m, ln_mod = modname, ln_start = a,
      ln_end = (if b \<noteq> 0 \<and> b \<noteq> a then b else 0), ln_symbol = symbol\<rparr>"

record mode =
  fixing :: bool
  adopting :: bool
  tidying :: bool

text \<open>\<open>repair\<close> without a range to compare with, then with one.\<close>

definition unanchored :: "mode \<Rightarrow> pystr list \<Rightarrow> link \<Rightarrow> problem list \<times> link option" where
  "unanchored md src m =
     (let a = ln_start m; b = ln_end m;
          expect = (if b \<noteq> 0 then dec_digits a @ ascii ''-'' @ dec_digits b else dec_digits a);
          disagrees = ln_text_range m \<noteq> expect;
          told = (if disagrees then [TextDisagrees (ln_mod m) (ln_text_range m) expect] else []);
          blank = filter (\<lambda>n. n \<noteq> 0 \<and> n \<le> length src \<and> blank_line src n) [a, b]
      in if disagrees \<and> fixing md then (told, Some (render_link m (ln_mod m) a b None))
         else if blank = [] then (told, None)
         else (told @ [BlankLines (ln_mod m) blank],
               if tidying md then (let (a', b') = shrink src a b in Some (render_link m (ln_mod m) a' b' None)) else None))"

definition anchored :: "mode \<Rightarrow> link \<Rightarrow> pystr \<Rightarrow> lines \<Rightarrow> problem list \<times> link option" where
  "anchored md m symbol want =
     (let a = ln_start m; b = ln_end m; here = (a, if b = 0 then a else b);
          want_text = (if fst want \<noteq> snd want then dec_digits (fst want) @ ascii ''-'' @ dec_digits (snd want)
                       else dec_digits (fst want))
      in if here \<noteq> want \<or> ln_text_range m \<noteq> want_text
         then ([Drifted (ln_mod m) symbol want here],
               if fixing md \<or> adopting md then Some (render_link m (ln_mod m) (fst want) (snd want) (Some symbol))
               else None)
         else ([], if adopting md \<and> ln_symbol m = None
                   then Some (render_link m (ln_mod m) (fst want) (snd want) (Some symbol)) else None))"

definition ranges_of :: "package \<Rightarrow> pystr \<Rightarrow> (pystr \<times> lines) list" where
  "ranges_of pk modname = (case map_of (pk_ranges pk) modname of None \<Rightarrow> [] | Some rs \<Rightarrow> rs)"

definition repair :: "mode \<Rightarrow> package \<Rightarrow> link \<Rightarrow> problem list \<times> link option" where
  "repair md pk m =
     (case map_of (pk_lines pk) (ln_mod m) of
        None \<Rightarrow> ([], None)
      | Some src \<Rightarrow>
          (let ranges = ranges_of pk (ln_mod m);
               here = (ln_start m, if ln_end m = 0 then ln_start m else ln_end m)
           in case ln_symbol m of
                Some symbol \<Rightarrow>
                  (case map_of ranges symbol of
                     None \<Rightarrow> ([NoSymbol (ln_mod m) symbol], None)
                   | Some want \<Rightarrow> anchored md m symbol want)
              | None \<Rightarrow>
                  (case (if adopting md then find (\<lambda>(name, r). r = here) ranges else None) of
                     Some (name, want) \<Rightarrow> anchored md m name want
                   | None \<Rightarrow> unanchored md src m)))"

text \<open>\<open>LINK.sub(repair, text)\<close>: what is reported, and the text with the rewritten links.\<close>

definition link_text :: "link \<Rightarrow> pystr" where
  "link_text l = ascii ''['' @ ln_mod l @ ascii '':'' @ ln_text_range l @ ascii '']('' @ ln_path l @ ascii ''#L'' @
     dec_digits (ln_start l) @ (if ln_end l \<noteq> 0 then ascii ''-L'' @ dec_digits (ln_end l) else []) @
     (case ln_symbol l of None \<Rightarrow> [] | Some s \<Rightarrow> [32, 34] @ s @ [34]) @ ascii '')''"

fun repair_from ::
  "unicode \<Rightarrow> mode \<Rightarrow> package \<Rightarrow> pystr \<Rightarrow> nat \<Rightarrow> (nat \<times> nat \<times> (nat \<times> nat) list) list \<Rightarrow> problem list \<times> pystr" where
  "repair_from U md pk s i [] = ([], drop i s)"
| "repair_from U md pk s i ((a, b, caps) # rest) =
     (let (ps, rewritten) = repair md pk (link_of U s caps); (qs, tail) = repair_from U md pk s b rest
      in (ps @ qs, slice s i a @ (case rewritten of None \<Rightarrow> slice s a b | Some l \<Rightarrow> link_text l) @ tail))"

definition repair_document :: "unicode \<Rightarrow> mode \<Rightarrow> package \<Rightarrow> pystr \<Rightarrow> problem list \<times> pystr" where
  "repair_document U md pk s = repair_from U md pk s 0 (finditer (LINK U) U s)"

definition writes :: "mode \<Rightarrow> bool" where
  "writes md \<longleftrightarrow> fixing md \<or> adopting md \<or> tidying md"

text \<open>\<open>run\<close>: the exit code, what was reported, and the documents as they are left.\<close>

definition run_anchors :: "unicode \<Rightarrow> mode \<Rightarrow> package \<Rightarrow> pystr list \<Rightarrow> nat \<times> problem list \<times> pystr list" where
  "run_anchors U md pk docs =
     (let problems = concat (map (fst \<circ> repair_document U md pk) docs)
      in (if problems \<noteq> [] \<and> \<not> writes md then 1 else 0, problems,
          if writes md then map (snd \<circ> repair_document U md pk) docs else docs))"

definition relinked :: "link \<Rightarrow> problem list \<times> link option \<Rightarrow> link" where
  "relinked m r = (case snd r of None \<Rightarrow> m | Some l \<Rightarrow> l)"

section \<open>What a repair achieves\<close>

definition check_mode :: mode where
  "check_mode = \<lparr>fixing = False, adopting = False, tidying = False\<rparr>"

definition fix_mode :: mode where
  "fix_mode = \<lparr>fixing = True, adopting = False, tidying = False\<rparr>"

text \<open>What \<open>--fix\<close> cannot repair: a symbol that is gone, and a boundary on a blank line.\<close>

fun stubborn :: "problem \<Rightarrow> bool" where
  "stubborn (NoSymbol m s) = True"
| "stubborn (BlankLines m ns) = True"
| "stubborn p = False"

lemma anchored_fixed:
  assumes "snd want \<noteq> 0"
  shows "fst (anchored check_mode (relinked m (anchored fix_mode m symbol want)) symbol want) = []"
  using assms
  by (cases want) (auto simp: anchored_def fix_mode_def check_mode_def render_link_def range_text_def relinked_def Let_def)

lemma unanchored_fixed:
  "p \<in> set (fst (unanchored check_mode src (relinked m (unanchored fix_mode src m)))) \<Longrightarrow> stubborn p"
  by (auto simp: unanchored_def fix_mode_def check_mode_def render_link_def range_text_def relinked_def Let_def split: if_splits)

lemma anchored_keeps:
  "ln_mod (relinked m (anchored md m symbol want)) = ln_mod m"
  "ln_symbol m = Some symbol \<Longrightarrow> ln_symbol (relinked m (anchored md m symbol want)) = Some symbol"
  by (auto simp: anchored_def render_link_def relinked_def Let_def)

lemma unanchored_keeps:
  "ln_mod (relinked m (unanchored md src m)) = ln_mod m"
  "ln_symbol m = None \<Longrightarrow> ln_symbol (relinked m (unanchored md src m)) = None"
  by (auto simp: unanchored_def render_link_def relinked_def Let_def split: prod.split)

definition ranges_ok :: "package \<Rightarrow> bool" where
  "ranges_ok pk \<longleftrightarrow> (\<forall>(m, rs)\<in>set (pk_ranges pk). \<forall>(name, want)\<in>set rs. snd want \<noteq> 0)"

lemma ranges_okD:
  assumes "ranges_ok pk" "map_of (ranges_of pk modname) symbol = Some want"
  shows "snd want \<noteq> 0"
proof (cases "map_of (pk_ranges pk) modname")
  case (Some rs)
  then have "(modname, rs) \<in> set (pk_ranges pk)" "(symbol, want) \<in> set rs"
    using assms(2) by (auto simp: ranges_of_def dest: map_of_SomeD)
  with assms(1) show ?thesis unfolding ranges_ok_def by blast
qed (use assms(2) in \<open>simp add: ranges_of_def\<close>)

lemma repair_symbol:
  "map_of (pk_lines pk) (ln_mod m) = Some src \<Longrightarrow> ln_symbol m = Some symbol \<Longrightarrow>
     repair md pk m = (case map_of (ranges_of pk (ln_mod m)) symbol of
         None \<Rightarrow> ([NoSymbol (ln_mod m) symbol], None) | Some want \<Rightarrow> anchored md m symbol want)"
  by (simp add: repair_def)

lemma repair_plain:
  "map_of (pk_lines pk) (ln_mod m) = Some src \<Longrightarrow> ln_symbol m = None \<Longrightarrow> \<not> adopting md \<Longrightarrow>
     repair md pk m = unanchored md src m"
  by (simp add: repair_def)

lemma modes: "\<not> adopting check_mode" "\<not> adopting fix_mode"
  by (simp_all add: check_mode_def fix_mode_def)

text \<open>After \<open>--fix\<close>, a check finds no fault with a link that \<open>--fix\<close> could have repaired.\<close>

lemma repair_fixed:
  assumes "ranges_ok pk" "p \<in> set (fst (repair check_mode pk (relinked m (repair fix_mode pk m))))"
  shows "stubborn p"
proof (cases "map_of (pk_lines pk) (ln_mod m)")
  case None
  then have "repair md pk m = ([], None)" for md by (simp add: repair_def)
  with assms(2) show ?thesis by (simp add: relinked_def)
next
  case src: (Some src)
  show ?thesis
  proof (cases "ln_symbol m")
    case None
    note fixed = repair_plain [OF src None modes(2)]
    have "repair check_mode pk (relinked m (unanchored fix_mode src m)) = unanchored check_mode src (relinked m (unanchored fix_mode src m))"
      using src None modes(1) by (intro repair_plain) (simp_all add: unanchored_keeps)
    with assms(2) unanchored_fixed [of p src m] show ?thesis by (simp only: fixed)
  next
    case symbol: (Some symbol)
    note fixed = repair_symbol [OF src symbol]
    show ?thesis
    proof (cases "map_of (ranges_of pk (ln_mod m)) symbol")
      case None
      with assms(2) show ?thesis by (simp add: fixed relinked_def)
    next
      case want: (Some want)
      then have "snd want \<noteq> 0"
        by (rule ranges_okD [OF assms(1)])
      have "repair check_mode pk (relinked m (anchored fix_mode m symbol want)) =
          anchored check_mode (relinked m (anchored fix_mode m symbol want)) symbol want"
        using repair_symbol [of pk "relinked m (anchored fix_mode m symbol want)" src symbol check_mode] src symbol want
        by (simp only: anchored_keeps option.case)
      with assms(2) anchored_fixed [OF \<open>snd want \<noteq> 0\<close>, of m symbol] want show ?thesis by (simp only: fixed option.case) simp
    qed
  qed
qed

text \<open>A writing run reports success whatever it could not repair.\<close>

lemma writing_run_succeeds: "writes md \<Longrightarrow> fst (run_anchors U md pk docs) = 0"
  by (simp add: run_anchors_def)

end
