(* ===== verification/Config.thy ===== *)
theory Config
  imports Chunking Jobs
begin

text \<open>
  \<open>config.py\<close>: the settings with the defaults the service ships, and the provider they select.
  Reading them from the environment is outside.
\<close>

record settings =
  db_pool_min :: int
  db_pool_max :: int
  anthropic_api_key :: "pystr option"
  voyage_api_key :: "pystr option"
  provider_strict :: bool
  session_ttl_hours :: int
  cors_origins :: "pystr list"
  serve_static :: bool
  static_dir :: pystr
  embed_model :: pystr
  chunk_size :: int
  chunk_overlap :: int
  job_max_attempts :: int
  job_stale_after_seconds :: int
  drain_in_process :: bool
  answer_model :: pystr
  answer_max_tokens :: int
  retrieval_k :: int
  daily_budget_usd :: real
  platform_daily_budget_usd :: real
  monthly_question_cap :: int
  rate_burst :: int
  rate_per_min :: int
  auth_rate_burst :: int
  auth_rate_per_min :: int
  client_ip_header :: "pystr option"
  org_doc_cap :: int
  org_storage_bytes_cap :: int
  max_request_bytes :: int

definition default_settings :: settings where
  "default_settings = \<lparr>db_pool_min = 1, db_pool_max = 10, anthropic_api_key = None, voyage_api_key = None,
     provider_strict = False, session_ttl_hours = 720, cors_origins = [ascii ''http://localhost:5173''],
     serve_static = False, static_dir = ascii ''frontend/dist'', embed_model = ascii ''voyage-3'',
     chunk_size = 1000, chunk_overlap = 150, job_max_attempts = 3, job_stale_after_seconds = 600,
     drain_in_process = True, answer_model = ascii ''claude-sonnet-5'', answer_max_tokens = 2048,
     retrieval_k = 6, daily_budget_usd = 5, platform_daily_budget_usd = 25, monthly_question_cap = 1000,
     rate_burst = 5, rate_per_min = 30, auth_rate_burst = 10, auth_rate_per_min = 10,
     client_ip_header = None, org_doc_cap = 1000, org_storage_bytes_cap = 50000000,
     max_request_bytes = 16000000\<rparr>"

definition key_set :: "pystr option \<Rightarrow> bool" where
  "key_set key \<longleftrightarrow> key \<noteq> None \<and> key \<noteq> Some []"

definition provider_mode :: "settings \<Rightarrow> pystr" where
  "provider_mode st =
     (if key_set (anthropic_api_key st) \<and> key_set (voyage_api_key st) then ascii ''real'' else ascii ''mock'')"

text \<open>
  \<open>check_setup.py\<close>: the preflight's count of failures, from what the database answered.
\<close>

datatype preflight_db = Unreachable | NoVector | VectorError | VectorPresent

definition preflight_failures :: "settings \<Rightarrow> preflight_db \<Rightarrow> nat" where
  "preflight_failures st answer =
     (case answer of Unreachable \<Rightarrow> 1 | NoVector \<Rightarrow> 1 | VectorError \<Rightarrow> 1 | VectorPresent \<Rightarrow> 0) +
     (if provider_mode st = ascii ''real'' then 0 else if provider_strict st then 1 else 0)"

definition preflight_exit :: "settings \<Rightarrow> preflight_db \<Rightarrow> nat" where
  "preflight_exit st answer = (if preflight_failures st answer \<noteq> 0 then 1 else 0)"

section \<open>The defaults are usable\<close>

text \<open>With the shipped sizes no content makes \<open>chunk_text\<close> raise, and its windows overlap.\<close>

lemma default_chunking:
  "\<exists>chunks. chunk_text (chunk_size default_settings) (chunk_overlap default_settings) text None None = Inr chunks"
  by (simp add: default_settings_def chunk_text_def Let_def)

text \<open>A retry always falls due before the same claim could go stale.\<close>

lemma default_backoff: "seconds (backoff_seconds n) < seconds (job_stale_after_seconds default_settings)"
  using backoff_bounds [of n] by (simp add: default_settings_def seconds_def)

text \<open>An idle bucket is full again well before the limiter evicts it.\<close>

lemma default_refill:
  "rate_burst default_settings \<le> 60 * rate_per_min default_settings"
  "auth_rate_burst default_settings \<le> 60 * auth_rate_per_min default_settings"
  by (simp_all add: default_settings_def)

lemma default_provider_mode: "provider_mode default_settings = ascii ''mock''"
  by (simp add: provider_mode_def default_settings_def key_set_def)

end
