(* ===== verification/Scripts.thy ===== *)
theory Scripts
  imports Regex
begin

text \<open>
  The small command-line tools: the classifier of \<open>scripts/dependabot_update_type.py\<close>, the link
  check of \<open>check_links.py\<close>, and the answer printer of \<open>demo/render.py\<close>.  Files, subprocesses and the
  parsing of JSON are outside: a document is its text, a stream the events read from it.
\<close>

section \<open>dependabot_update_type.py\<close>

datatype verdict = Major | MinorOrPatch | Unknown

definition MAJOR_MARKER :: pystr where
  "MAJOR_MARKER = ascii ''update-type: version-update:semver-major''"

definition ANY_MARKER :: pystr where
  "ANY_MARKER = ascii ''update-type: version-update:semver-''"

definition classify :: "pystr \<Rightarrow> verdict" where
  "classify message =
     (if contains MAJOR_MARKER message then Major
      else if contains ANY_MARKER message then MinorOrPatch
      else Unknown)"

section \<open>check_links.py\<close>

definition SKIP_PREFIXES :: "pystr list" where
  "SKIP_PREFIXES = [ascii ''http://'', ascii ''https://'', ascii ''mailto:'', ascii ''#'']"

definition starts_with :: "pystr \<Rightarrow> pystr \<Rightarrow> bool" where
  "starts_with pre s \<longleftrightarrow> take (length pre) s = pre"

definition DOC_LINK :: re where
  "DOC_LINK = seq_re [lit ''['', Rep True 0 None (none_of '']''), lit '']('',
     Grp (many1 (Chr (\<lambda>c. c \<noteq> 41 \<and> \<not> is_space c))), lit '')'']"

text \<open>
  Fenced blocks and inline spans.  The two alternatives are tried in their order at each position;
  neither matches the empty text, so the scan goes on behind a match.
\<close>

definition FENCED :: re where
  "FENCED = seq_re [lit ''```'', Rep False 0 None (Chr (\<lambda>_. True)), lit ''```'']"

definition INLINE :: re where
  "INLINE = seq_re [lit ''`'', many (Chr (\<lambda>c. c \<noteq> 96 \<and> c \<noteq> 10)),
     maybe (seq_re [Chr (\<lambda>c. c = 10), many (Chr (\<lambda>c. c \<noteq> 96 \<and> c \<noteq> 10))]), lit ''`'']"

definition code_end :: "unicode \<Rightarrow> pystr \<Rightarrow> nat \<Rightarrow> nat option" where
  "code_end U text i =
     (case first_match FENCED U text i of
        Some (e, caps) \<Rightarrow> Some e
      | None \<Rightarrow> (case first_match INLINE U text i of Some (e, caps) \<Rightarrow> Some e | None \<Rightarrow> None))"

definition spaced :: "pystr \<Rightarrow> pystr" where
  "spaced s = map (\<lambda>c. if c = 10 then c else 32) s"

function blank_from :: "unicode \<Rightarrow> pystr \<Rightarrow> nat \<Rightarrow> pystr" where
  "blank_from U text i =
     (if length text \<le> i then []
      else case code_end U text i of
             Some e \<Rightarrow> (if i < e then spaced (slice text i e) @ blank_from U text e else text ! i # blank_from U text (Suc i))
           | None \<Rightarrow> text ! i # blank_from U text (Suc i))"
  by pat_completeness auto
termination by (relation "measure (\<lambda>(U, text, i). length text - i)") auto

declare blank_from.simps [simp del]

definition blank_code :: "unicode \<Rightarrow> pystr \<Rightarrow> pystr" where
  "blank_code U text = blank_from U text 0"

text \<open>A link is where its match starts in the text, and its target.\<close>

definition links_in :: "unicode \<Rightarrow> pystr \<Rightarrow> (nat \<times> pystr) list" where
  "links_in U text = map (\<lambda>(a, b, caps). (a, slice text (fst (caps ! 0)) (snd (caps ! 0)))) (finditer DOC_LINK U text)"

definition line_number :: "pystr \<Rightarrow> nat \<Rightarrow> nat" where
  "line_number text start = length (filter (\<lambda>c. c = 10) (take start text)) + 1"

definition broken_links :: "unicode \<Rightarrow> (pystr \<Rightarrow> bool) \<Rightarrow> pystr \<Rightarrow> (nat \<times> pystr) list" where
  "broken_links U file_exists text =
     map (\<lambda>(start, target). (line_number text start, target))
       (filter (\<lambda>(start, target).
            let file_part = takeWhile (\<lambda>c. c \<noteq> 35) target in
            \<not> list_ex (\<lambda>pre. starts_with pre target) SKIP_PREFIXES \<and> file_part \<noteq> [] \<and> \<not> file_exists file_part)
          (links_in U text))"

definition broken :: "unicode \<Rightarrow> (pystr \<Rightarrow> bool) \<Rightarrow> pystr \<Rightarrow> (nat \<times> pystr) list" where
  "broken U file_exists page = broken_links U file_exists (blank_code U page)"

definition check_links_exit :: "(nat \<times> pystr) list list \<Rightarrow> nat" where
  "check_links_exit misses = (if sum_list (map length misses) \<noteq> 0 then 1 else 0)"

section \<open>demo/render.py\<close>

datatype shown_event =
    ShownSources "pystr list"
  | ShownToken pystr
  | ShownDone "(int \<times> int) option" real
  | ShownError pystr
  | ShownOther

record shown =
  sh_answer :: "pystr list"
  sh_usage :: "(int \<times> int) option"
  sh_cost :: real
  sh_error :: "pystr option"

fun show_event :: "shown_event \<Rightarrow> shown \<Rightarrow> shown" where
  "show_event (ShownSources paths) st = st"
| "show_event (ShownToken text) st = st\<lparr>sh_answer := sh_answer st @ [text]\<rparr>"
| "show_event (ShownDone usage cost) st = st\<lparr>sh_usage := usage, sh_cost := cost\<rparr>"
| "show_event (ShownError message) st = st\<lparr>sh_error := Some message\<rparr>"
| "show_event ShownOther st = st"

definition WIDTH :: nat where
  "WIDTH = 74"

fun wrap_from :: "pystr \<Rightarrow> pystr list \<Rightarrow> pystr list" where
  "wrap_from buf [] = [buf]"
| "wrap_from buf (word # rest) =
     (if WIDTH < length buf + length word + 1 then buf # wrap_from word rest
      else wrap_from (strip (buf @ ascii '' '' @ word)) rest)"

definition render_exit :: "shown_event list \<Rightarrow> nat" where
  "render_exit events =
     (case sh_error (fold show_event events \<lparr>sh_answer = [], sh_usage = None, sh_cost = 0, sh_error = None\<rparr>) of
        None \<Rightarrow> 0
      | Some message \<Rightarrow> (if message = [] then 0 else 1))"

section \<open>Laws\<close>

lemma contains_prefix:
  assumes "contains (a @ b) s"
  shows "contains a s"
proof -
  have "take (length a) (drop i s) = a" if "take (length (a @ b)) (drop i s) = a @ b" for i
  proof -
    have "take (length a) (take (length (a @ b)) (drop i s)) = a" using that by simp
    then show ?thesis by (simp add: min_def)
  qed
  with assms show ?thesis unfolding contains_def list_ex_iff by blast
qed

text \<open>The classifier fails closed: only a message with an update type, and no major one, may merge.\<close>

lemma classify_cases:
  "classify message = MinorOrPatch \<longleftrightarrow> contains ANY_MARKER message \<and> \<not> contains MAJOR_MARKER message"
  "classify message = Unknown \<longleftrightarrow> \<not> contains ANY_MARKER message"
proof -
  have "MAJOR_MARKER = ANY_MARKER @ ascii ''major''" by (simp add: MAJOR_MARKER_def ANY_MARKER_def)
  then have "contains MAJOR_MARKER message \<Longrightarrow> contains ANY_MARKER message" by (metis contains_prefix)
  then show "classify message = MinorOrPatch \<longleftrightarrow> contains ANY_MARKER message \<and> \<not> contains MAJOR_MARKER message"
    "classify message = Unknown \<longleftrightarrow> \<not> contains ANY_MARKER message"
    by (auto simp: classify_def)
qed

text \<open>
  Blanking keeps the length of a page and every line break, so an offset in the blanked text has the
  line number it has in the page.
\<close>

lemma code_end_bounds: "code_end U page i = Some e \<Longrightarrow> i \<le> length page \<Longrightarrow> e \<le> length page"
  using first_match_sound by (fastforce simp: code_end_def split: option.splits prod.splits)

lemma spaced_breaks: "map (\<lambda>c. c = 10) (spaced s) = map (\<lambda>c. c = 10) s"
  by (simp add: spaced_def)

lemma blank_from_breaks: "map (\<lambda>c. c = 10) (blank_from U page i) = map (\<lambda>c. c = 10) (drop i page)"
proof (induction U page i rule: blank_from.induct)
  case (1 U page i)
  show ?case
  proof (cases "length page \<le> i")
    case True
    then show ?thesis by (simp add: blank_from.simps)
  next
    case False
    then have step: "drop i page = page ! i # drop (Suc i) page" by (simp add: Cons_nth_drop_Suc)
    show ?thesis
    proof (cases "\<exists>e. code_end U page i = Some e \<and> i < e")
      case True
      then obtain e where e: "code_end U page i = Some e" "i < e" by blast
      have "e \<le> length page" using code_end_bounds [OF e(1)] False by simp
      then have "slice page i e @ slice page e (length page) = slice page i (length page)"
        using e(2) by (intro slice_append) simp_all
      then have "drop i page = slice page i e @ drop e page" by (simp add: slice_all)
      with 1(2) [OF False e] show ?thesis
        using False e by (simp add: blank_from.simps [of U page i] spaced_breaks)
    next
      case no: False
      then have "map (\<lambda>c. c = 10) (blank_from U page (Suc i)) = map (\<lambda>c. c = 10) (drop (Suc i) page)"
        using 1(1,3) False by (cases "code_end U page i") auto
      with no False show ?thesis unfolding step
        by (cases "code_end U page i") (simp_all add: blank_from.simps [of U page i])
    qed
  qed
qed

lemma blank_code_lines:
  "length (blank_code U page) = length page" "line_number (blank_code U page) i = line_number page i"
proof -
  have breaks: "map (\<lambda>c. c = 10) (blank_code U page) = map (\<lambda>c. c = 10) page"
    unfolding blank_code_def using blank_from_breaks [of U page 0] by simp
  from arg_cong [OF this, of length] show "length (blank_code U page) = length page" by simp
  have "line_number t i = length (filter id (take i (map (\<lambda>c. c = 10) t))) + 1" for t
    by (simp add: line_number_def take_map filter_map comp_def)
  then show "line_number (blank_code U page) i = line_number page i" by (simp only: breaks)
qed

text \<open>A printed line is longer than the width only if it is a single word.\<close>

lemma wrap_bound:
  assumes "line \<in> set (wrap_from buf ws)" "length buf \<le> WIDTH \<or> buf \<in> W" "set ws \<subseteq> W"
  shows "length line \<le> WIDTH \<or> line \<in> W"
  using assms
proof (induction buf ws rule: wrap_from.induct)
  case (2 buf word rest)
  show ?case
  proof (cases "WIDTH < length buf + length word + 1")
    case True
    with 2 show ?thesis by auto
  next
    case False
    have "length (strip (buf @ ascii '' '' @ word)) \<le> length (buf @ ascii '' '' @ word)"
      using strip_infix [of "buf @ ascii '' '' @ word"] by (metis le_add1 le_add2 length_append order_trans)
    also have "\<dots> \<le> WIDTH" using False by simp
    finally have "length (strip (buf @ ascii '' '' @ word)) \<le> WIDTH" .
    with False 2 show ?thesis by auto
  qed
qed simp

end
