(* ===== verification/Spec2Isabelle.thy ===== *)
theory Spec2Isabelle
  imports Service AssistantLaws Pool Seed EvalGate Markers Bench Worker Middleware Migrate Tracing Anchors Config Scripts "HOL-Library.Multiset"
begin

text \<open>
  A model of Knowledge Desk, the multi-tenant question-answering service in \<open>src/knowledge_desk\<close>, and
  the properties that make it correct.  The service keeps organisations, their members, groups and
  documents in Postgres; an upload is reconciled with what is stored and queued; a background drain
  cuts and embeds the changed documents; a question is answered from the chunks its asker may read,
  streamed frame by frame, and billed.

  \<^bold>\<open>The state.\<close>  \<open>Database\<close> has one record per table of \<open>src/migrations\<close> and the record \<open>db\<close> of all of
  them; a table is the list of its rows.  \<open>keys_ok\<close> and \<open>refs_ok\<close> are the unique and foreign keys,
  the \<open>delete_*\<close> definitions the cascades, \<open>rls\<close> the row-level policy: a statement of a connection
  opened for an organisation sees that organisation's rows only.  \<open>db_ok\<close> (\<open>Access\<close>) adds that every
  row lies in the organisation of its parent and every organisation has an owner; \<open>view org\<close> is all
  that an organisation can read.

  \<^bold>\<open>The theories\<close>, in the order they build on each other:
  \<^item> \<open>Prelude\<close>, \<open>Errors\<close>, \<open>Config\<close>: Python text, results that may raise, the algebra of tables; the
    exceptions of \<open>errors.py\<close> with their HTTP statuses; the settings with their defaults.
  \<^item> \<open>Auth\<close>, \<open>Access\<close>, \<open>OrgGroups\<close>, \<open>Members\<close>, \<open>Accounts\<close>, \<open>Documents\<close>, \<open>Ledger\<close>: \<open>auth.py\<close>, \<open>accounts.py\<close>,
    \<open>retrieval.py\<close>, \<open>audit.py\<close> and \<open>TenantScope\<close> of \<open>tenancy.py\<close>, one definition per method.  Their
    lemmas say when each succeeds, that it keeps \<open>db_ok\<close> and that it leaves other views alone.
  \<^item> \<open>Chunking\<close>, \<open>Embeddings\<close>, \<open>Jobs\<close>, \<open>Ingest\<close>: \<open>chunking.py\<close>, \<open>embeddings.py\<close>, \<open>jobs.py\<close>, \<open>ingest.py\<close>.
    \<open>IngestLaws\<close> and \<open>SyncLaws\<close> keep \<open>index_ok\<close>, the contract between writing and retrieval;
    \<open>QueueLaws\<close> has what the queue promises.
  \<^item> \<open>Worker\<close>: \<open>worker.py\<close> as a step relation over the drain thread, its registration, the wake event
    and the requests that enqueue and kick, with the invariant \<open>drain_ok\<close>.
  \<^item> \<open>Regex\<close>, \<open>Pii\<close>, \<open>Normalize\<close>, \<open>Prompt\<close>, \<open>Providers\<close>, \<open>OutputChecks\<close>, \<open>Tracing\<close>: a backtracking
    matcher with its language semantics, and on it \<open>pii.py\<close>, \<open>normalize.py\<close>, the fence and the
    defusing of \<open>providers.py\<close> (\<open>PromptLaws\<close>), its prices and answer streams, \<open>outputchecks.py\<close> and what
    \<open>tracing.py\<close> sends out.
  \<^item> \<open>Api\<close>, \<open>Assistant\<close>, \<open>Desk\<close>: the routes that compose several transactions; the generator of
    \<open>assistant.py\<close> as a state machine that is resumed frame by frame (\<open>AssistantLaws\<close>); the service as
    a step relation, one step per call of a tenant, a signup, a login or a drain.
  \<^item> \<open>Ratelimit\<close>, \<open>Schemas\<close>, \<open>Deps\<close>, \<open>Middleware\<close>, \<open>Routes\<close>, \<open>Service\<close>: \<open>ratelimit.py\<close>, the request
    bodies, the dependencies, the two ASGI middlewares, every endpoint of \<open>main.py\<close>, and \<open>serve\<close>,
    which dispatches a request to its endpoint and is shown to refine the steps of \<open>Desk\<close>.
  \<^item> \<open>Pool\<close>, \<open>Migrate\<close>, \<open>DemoTexts\<close>, \<open>Seed\<close>, \<open>Bench\<close>, \<open>Anchors\<close>, \<open>Scripts\<close>: \<open>db.py\<close> over what
    psycopg's pool promises, \<open>migrate.py\<close>, \<open>seed.py\<close> with the texts of its demo documents,
    \<open>bench.py\<close>, \<open>scripts\<close>, \<open>check_links.py\<close> and \<open>demo/render.py\<close>.
  \<^item> \<open>Evals\<close>: \<open>evals/run.py\<close>, the merge gate, as a client of the endpoints.  \<open>EvalLaws\<close> carries what an
    eval knows of the service from call to call, \<open>EvalGate\<close> shows that the eval of leaks never reports
    one, \<open>Markers\<close> that the markers the gate counts are those of the fence.
  \<^item> \<open>Sample\<close>: a small deployment on which the properties are exercised.

  \<^bold>\<open>The interfaces\<close> are locales, each interpreted on the definitions that provide it: \<open>job_loop\<close> and
  \<open>draining_loop\<close> (the queue \<open>run_pending\<close> consumes), \<open>embedder\<close> (one vector of the column's dimension
  per text), \<open>paged_listing\<close> (the pages \<open>export\<close> sweeps), \<open>answer_provider\<close> (the event stream the
  assistant reads, interpreted on the mock and on the streaming client), \<open>role_order\<close> (the ranks the
  role checks of \<open>TenantScope\<close> rest on).

  \<^bold>\<open>Modelling decisions.\<close>  An operation in one transaction returns an error or a result with the new
  state, so a raise leaves the state as it was; an operation of several transactions returns its
  outcome together with the state it leaves.  Generated identifiers, nonces and clocks are
  arguments; hashing, password verification, collation, the distance, the embedder, the Anthropic and
  the Langfuse clients, the Unicode tables and what the SQL of a migration does are parameters, and a
  theorem that relies on them says so.  Floats are reals and the rounding of a price is a parameter.
  Rows that tie in an ORDER BY keep the order of the table.  Requests run one after the other, except
  that the generator of an answer may be interleaved with anything between two frames, the two phases
  of a sync and of an ingestion are separate transactions, and the drain runs beside the requests.
  In \<open>Worker\<close> a claim and the work on it are one step, and a process that dies between them is
  \<open>dying_claims\<close>.

  \<^bold>\<open>Loops and bounds.\<close>  \<open>run_pending\<close> carries the source's own bound of jobs; \<open>sweep\<close> is a partial
  function, proved to end on every listing; the drain is a step relation whose progress is bounded by
  four of its own steps; the matcher is total because the body of a repetition consumes a character
  and the text is finite; the other loops recurse on their data.

  \<^bold>\<open>Not modelled\<close>: the Postgres planner and its vector index (with the plan the benchmark
  explains), the ASGI server, CORS and static files, the wire formats of Voyage and Anthropic, printing
  and logging, the front end and the command-line parsing of the scripts.
\<close>

section \<open>The service\<close>

lemma sample_ok: "desk_ok sample_env sample_db"
proof -
  have "index_ok 10 2 sample_db"
    using sample_chunks by (simp add: index_ok_def indexed_def doc_chunks_def sample_defs)
  then show ?thesis by (simp add: desk_ok_def sample_db_ok) (simp add: sample_env_def)
qed

text \<open>
  C1.  Tenant isolation: whatever the other organisations do, in any order, an organisation's
  callers read the same search results, documents, listings and members as before.
\<close>

theorem tenant_isolation:
  assumes "desk_run E s ls s'" and "desk_ok E s"
    and "\<forall>l\<in>set ls. \<exists>other. l = Some other \<and> other \<noteq> ctx_org ctx"
  shows "search cosine ctx query k s' = search cosine ctx query k s
    \<and> get_document (e_uuid E) ctx i s' = get_document (e_uuid E) ctx i s
    \<and> list_documents coll ctx limit offset s' = list_documents coll ctx limit offset s
    \<and> list_members coll ctx limit offset s' = list_members coll ctx limit offset s"
proof -
  have view: "view (ctx_org ctx) s' = view (ctx_org ctx) s" by (rule desk_run_view [OF assms])
  have "search cosine ctx query k s' = search cosine ctx query k s" by (metis search_view view)
  moreover have "get_document (e_uuid E) ctx i s' = get_document (e_uuid E) ctx i s"
    by (metis get_document_view view)
  moreover have "list_documents coll ctx limit offset s' = list_documents coll ctx limit offset s"
    by (metis list_documents_def document_rows_view view)
  moreover have "list_members coll ctx limit offset s' = list_members coll ctx limit offset s"
    by (metis list_members_def member_rows_view view)
  ultimately show ?thesis by blast
qed

theorem tenant_isolation_witness:
  "search (\<lambda>_ _. 0) acme_member [] 5 (delete_session (e_hash_token sample_env) [93] sample_db)
     = search (\<lambda>_ _. 0) acme_member [] 5 sample_db"
proof -
  have "desk_step sample_env (Some [2]) sample_db (delete_session (e_hash_token sample_env) [93] sample_db)"
    by (rule logging_out) (simp add: sample_defs)
  then have "desk_run sample_env sample_db [Some [2]] (delete_session (e_hash_token sample_env) [93] sample_db)"
    using then_step [OF idle] by fastforce
  from tenant_isolation [OF this sample_ok, of acme_member] show ?thesis by (simp add: acme_member_def)
qed




section \<open>Reading\<close>





text \<open>
  C5.  A document the caller may not read and a document that does not exist give the same
  error, whatever the reason it is out of reach: another tenant's, not ingested, or not
  permitted by its access list.
\<close>

theorem get_document_hidden:
  assumes "e_uuid E i = Some d"
    and "\<not> (\<exists>x\<in>set (documents s). \<exists>c\<in>set (chunks s). d_id x = d \<and> c_doc c = d \<and> d_org x = ctx_org ctx
          \<and> c_org c = ctx_org ctx \<and> d_status x = DIngested \<and> acl_allows (c_acl c) (principals ctx s))"
  shows "get_document (e_uuid E) ctx i s = Inl (NotFound (ascii ''document not found: '' @ i))"
proof -
  have "join_where (\<lambda>x c. c_doc c = d_id x \<and> scoped ctx d_org (\<lambda>x. d_id x = d \<and> d_status x = DIngested) x
          \<and> rls (Some (ctx_org ctx)) (c_org c) \<and> acl_allows (c_acl c) (principals ctx s)) (documents s) (chunks s) = []"
    using assms(2) unfolding set_empty [symmetric] set_join_where by (auto simp: scoped_iff)
  then show ?thesis by (simp add: get_document_def assms(1) document_not_found_def Let_def)
qed

theorem get_document_hidden_witness:
  "get_document Some zeta_owner [41] sample_db = Inl (NotFound (ascii ''document not found: '' @ [41]))"
  using get_document_hidden [of sample_env "[41]" "[41]" sample_db zeta_owner] by (simp add: sample_defs)

text \<open>
  C6.  A change of access list is immediate: after it, a search returns text of the document
  only to callers whom the new list names by one of their principals, because the copies of the
  list on the document's chunks change with it.
\<close>

theorem acl_change_immediate:
  assumes "desk_ok E s" and "update_document_acl (e_uuid E) admin i acl now s = Inr s'"
    and "e_uuid E i = Some d" and "h \<in> set (search cosine ctx query k s')" and "h_doc h = d"
  shows "acl_allows acl (principals ctx s')"
proof -
  obtain c x where c: "c \<in> set (chunks s')" "x \<in> set (documents s')" "d_id x = c_doc c" "h_doc h = c_doc c"
    and allowed: "acl_allows (c_acl c) (principals ctx s')"
    using search_hits [OF assms(4)] by (metis hit.select_convs(1))
  have s': "documents s' = update_where (\<lambda>x. d_id x = d \<and> d_org x = ctx_org admin)
                     (\<lambda>x. x\<lparr>d_acl := acl, d_updated := now\<rparr>) (documents s)"
     "chunks s' = update_where (\<lambda>c. c_doc c = d \<and> c_org c = ctx_org admin) (\<lambda>c. c\<lparr>c_acl := acl\<rparr>) (chunks s)"
    and own: "\<exists>y\<in>set (documents s). d_id y = d \<and> d_org y = ctx_org admin"
    using assms(2,3) by (auto simp: update_document_acl_Inr)
  obtain c0 where c0: "c0 \<in> set (chunks s)"
      "c = (if c_doc c0 = d \<and> c_org c0 = ctx_org admin then c0\<lparr>c_acl := acl\<rparr> else c0)"
    using c(1) by (auto simp: s' set_update_where)
  then have "c_doc c0 = d" using c(4) assms(5) by (auto split: if_splits)
  with own chunk_home [of s c0] assms(1) c0(1) have "c_org c0 = ctx_org admin" by (auto simp: desk_ok_def)
  with c0 \<open>c_doc c0 = d\<close> allowed show ?thesis by simp
qed

theorem acl_change_immediate_witness:
  "acl_allows DEFAULT_ACL (principals acme_owner (sample_db\<lparr>documents := [handbook\<lparr>d_acl := DEFAULT_ACL, d_updated := 5\<rparr>, draft],
      chunks := map (\<lambda>c. c\<lparr>c_acl := DEFAULT_ACL\<rparr>) (chunks sample_db)\<rparr>))"
proof -
  let ?s' = "sample_db\<lparr>documents := [handbook\<lparr>d_acl := DEFAULT_ACL, d_updated := 5\<rparr>, draft],
      chunks := map (\<lambda>c. c\<lparr>c_acl := DEFAULT_ACL\<rparr>) (chunks sample_db)\<rparr>"
  let ?h = "\<lparr>h_doc = [41], h_ordinal = 0, h_text = [65, 66], h_path = [5], h_distance = 0\<rparr>"
  have upd: "update_document_acl (e_uuid sample_env) acme_owner [41] DEFAULT_ACL 5 sample_db = Inr ?s'"
    by (simp add: update_document_acl_def scoped_def sample_defs)
  have hit: "?h \<in> set (search (\<lambda>_ _. 0) acme_owner [] 5 ?s')"
    by (simp add: search_def principals_def public_principal_def join_where_def searchable_def scoped_def acl_allows_def
        sample_defs Let_def)
  show ?thesis
    using acl_change_immediate [OF sample_ok upd _ hit, of "[41]"] by (simp add: sample_env_def)
qed


section \<open>Members and groups\<close>

text \<open>
  C7.  A role change succeeds only for an admin or owner who is granting no more than their own
  role, on a member of their own organisation; it gives exactly that member the role, moves
  nobody else, and leaves the organisation an owner.
\<close>

theorem set_member_role_correct:
  assumes "set_member_role pg_uuid ctx uid role s = Inr s'" and "db_ok s" and "ctx_org ctx \<in> set (org_ids s)"
  shows "role_at_least (ctx_role ctx) r_admin \<and> role_at_least (ctx_role ctx) role \<and> uid \<noteq> ctx_user ctx
    \<and> (\<exists>u. pg_uuid uid = Some u \<and> is_member s u (ctx_org ctx)
         \<and> memberships s' = map (\<lambda>m. if m_user m = u \<and> m_org m = ctx_org ctx then m\<lparr>m_role := role\<rparr> else m) (memberships s))
    \<and> 1 \<le> owner_count ctx s'"
proof -
  obtain u m where um: "pg_uuid uid = Some u" "find_membership u (ctx_org ctx) s = Some m"
    and upd: "update_role u (ctx_org ctx) role s = Inr s'"
    and roles: "role_at_least (ctx_role ctx) r_admin" "role_at_least (ctx_role ctx) role" "uid \<noteq> ctx_user ctx"
    using assms(1) by (auto simp: set_member_role_Inr)
  from upd roles.closed [OF roles(2)] have s': "s' = s\<lparr>memberships := update_where (\<lambda>m. m_user m = u \<and> m_org m = ctx_org ctx)
                    (\<lambda>m. m\<lparr>m_role := role\<rparr>) (memberships s)\<rparr>"
    by (simp add: update_role_Inr)
  have "0 < owner_count ctx s'"
    using set_member_role_db_ok [OF assms(1,2)] assms(3)
    by (intro owner_count_pos) (simp_all add: db_ok_def s' org_ids_def)
  moreover have "is_member s u (ctx_org ctx)" using um(2) find_membership_ex by blast
  ultimately show ?thesis using um roles by (auto simp: s' update_where_def)
qed

theorem set_member_role_correct_witness:
  "1 \<le> owner_count acme_owner (sample_db\<lparr>memberships := update_where (\<lambda>m. m_user m = [12] \<and> m_org m = [1])
      (\<lambda>m. m\<lparr>m_role := r_admin\<rparr>) (memberships sample_db)\<rparr>)"
proof -
  have "set_member_role Some acme_owner [12] r_admin sample_db = Inr (sample_db\<lparr>memberships :=
      update_where (\<lambda>m. m_user m = [12] \<and> m_org m = [1]) (\<lambda>m. m\<lparr>m_role := r_admin\<rparr>) (memberships sample_db)\<rparr>)"
    by (simp add: set_member_role_Inr find_membership_def update_role_def known_role_def sample_defs)
  from set_member_role_correct [OF this sample_db_ok] show ?thesis by (simp add: sample_defs org_ids_def)
qed

text \<open>
  C8.  A removed member leaves nothing behind: no account, membership, group membership,
  session, answer or feedback names the user, no audit entry names the user as its actor, and
  the e-mail address is free for a new account.
\<close>

theorem remove_member_erases:
  assumes "remove_member pg_uuid ctx uid s = Inr s'" and "db_ok s" and "pg_uuid uid = Some u"
  shows "u \<notin> u_id ` set (users s') \<and> u \<notin> m_user ` set (memberships s') \<and> u \<notin> gm_user ` set (group_members s')
    \<and> u \<notin> s_user ` set (sessions s') \<and> u \<notin> a_user ` set (answers s') \<and> u \<notin> f_user ` set (feedback s')
    \<and> Some u \<notin> l_actor ` set (audit_log s')
    \<and> (\<forall>x\<in>set (users s). u_id x = u \<longrightarrow> u_email x \<notin> u_email ` set (users s'))"
proof -
  obtain m where m: "m \<in> set (memberships s)" "m_user m = u" and s': "s' = delete_users (\<lambda>x. u_id x = u) s"
    using remove_member_state [OF assms(1,2)] assms(3) by (metis option.inject)
  have gone: "u \<notin> u_id ` set (users s')" by (auto simp: s' delete_users_fields table_simps)
  have ok: "refs_ok s'" using remove_member_db_ok [OF assms(1,2)] by (rule db_okD)
  have emails: "u_email x \<notin> u_email ` set (users s')" if x: "x \<in> set (users s)" "u_id x = u" for x
  proof
    assume "u_email x \<in> u_email ` set (users s')"
    then obtain y where y: "y \<in> set (users s)" "u_id y \<noteq> u" "u_email y = u_email x"
      by (auto simp: s' delete_users_fields table_simps)
    with x assms(2) show False by (auto simp: db_ok_def keys_ok_def dest: distinct_key_eq)
  qed
  have owned: "u \<notin> f ` set xs" if "refs f xs u_id (users s')" for f and xs :: "'z list"
    using that gone by (auto simp: refs_def image_iff)
  have named: "Some u \<notin> f ` set xs" if "refs_opt f xs u_id (users s')" for f and xs :: "'z list"
    using that gone by (auto simp: refs_opt_def image_iff) metis
  from ok show ?thesis
    using gone emails by (auto simp only: refs_ok_def intro!: owned named)
qed

theorem remove_member_erases_witness:
  "[12] \<notin> u_id ` set (users (delete_users (\<lambda>x. u_id x = [12]) sample_db))"
proof -
  have rm: "remove_member Some acme_owner [12] sample_db
      = Inr (snd (purge_stranded_users [[12]] (delete_membership [12] [1] sample_db)))"
    by (simp add: remove_member_Inr find_membership_def sample_defs)
  also have "\<dots> = Inr (delete_users (\<lambda>x. u_id x = [12]) sample_db)"
    by (subst purge_after_removal [OF sample_db_ok]) (simp_all add: is_member_def sample_defs)
  finally show ?thesis using remove_member_erases [OF _ sample_db_ok, of Some acme_owner "[12]"] by simp
qed

text \<open>
  C9.  Adding a group member by e-mail is not an account oracle: for an address that is not a
  member of the caller's organisation the answer is one and the same error, whether the address
  has an account in another organisation or none at all.
\<close>

theorem add_by_email_no_oracle:
  assumes "role_at_least (ctx_role ctx) r_admin"
    and "\<forall>u\<in>set (users s). u_email u = lower (strip email) \<longrightarrow> \<not> is_member s (u_id u) (ctx_org ctx)"
  shows "add_group_member_by_email pg_uuid lower ctx gid email s
    = Inl (NotFound (ascii ''no member of this org with email: '' @ email))"
proof -
  have "org_user_by_email (ctx_org ctx) (lower (strip email)) s = None"
    using assms(2) by (auto simp: org_user_by_email_def find_None)
  then show ?thesis by (simp add: add_group_member_by_email_def assms(1))
qed

theorem add_by_email_no_oracle_witness:
  "add_group_member_by_email Some (\<lambda>x. x) acme_owner [31] [121] sample_db
     = Inl (NotFound (ascii ''no member of this org with email: '' @ [121]))"
  by (rule add_by_email_no_oracle)
    (simp_all add: sample_defs is_member_def strip_def lstrip_def is_space_def)

text \<open>
  The two checks that keep a caller from changing their own membership compare the identifier as it
  was spelled, while the database compares identifiers as values: a second spelling of the caller's
  own identifier passes the check, and the role change goes through.
\<close>

lemma self_role_change_by_respelling:
  assumes "pg_uuid spelled = Some (ctx_user ctx)" and "spelled \<noteq> ctx_user ctx"
    and "role_at_least (ctx_role ctx) r_admin" "role_at_least (ctx_role ctx) role"
    and "acting s ctx" and "2 \<le> owner_count ctx s"
  shows "\<exists>s'. set_member_role pg_uuid ctx spelled role s = Inr s'
    \<and> (\<exists>m\<in>set (memberships s'). m_user m = ctx_user ctx \<and> m_org m = ctx_org ctx \<and> m_role m = role)"
proof -
  let ?u = "ctx_user ctx" let ?hit = "\<lambda>m. m_user m = ?u \<and> m_org m = ctx_org ctx"
  have "is_member s ?u (ctx_org ctx)" by (rule acting_member [OF assms(5)])
  then obtain m where m: "find_membership ?u (ctx_org ctx) s = Some m" using find_membership_ex by blast
  let ?s' = "s\<lparr>memberships := update_where ?hit (\<lambda>m. m\<lparr>m_role := role\<rparr>) (memberships s)\<rparr>"
  have "set_member_role pg_uuid ctx spelled role s = Inr ?s'"
    unfolding set_member_role_Inr using assms m roles.closed [OF assms(4)] by (auto simp: update_role_Inr)
  moreover have "m\<lparr>m_role := role\<rparr> \<in> set (memberships ?s')"
    using find_membership_Some [OF m] by (auto simp: table_simps)
  moreover have "m_user (m\<lparr>m_role := role\<rparr>) = ?u \<and> m_org (m\<lparr>m_role := role\<rparr>) = ctx_org ctx"
    using find_membership_Some [OF m] by simp
  moreover have "m_role (m\<lparr>m_role := role\<rparr>) = role" by simp
  ultimately show ?thesis by (intro exI [of _ ?s'] conjI bexI [of _ "m\<lparr>m_role := role\<rparr>"]) simp_all
qed

lemma self_role_change_example:
  "\<exists>s'. set_member_role (\<lambda>x. if x = [110] then Some [11] else Some x) acme_owner [110] r_member
     (sample_db\<lparr>memberships := \<lparr>m_user = [13], m_org = [1], m_role = r_owner, m_created = 0\<rparr> # memberships sample_db\<rparr>) = Inr s'"
  using self_role_change_by_respelling [of "\<lambda>x. if x = [110] then Some [11] else Some x" "[110]" acme_owner r_member
      "sample_db\<lparr>memberships := \<lparr>m_user = [13], m_org = [1], m_role = r_owner, m_created = 0\<rparr> # memberships sample_db\<rparr>"]
  by (auto simp: acting_def owner_count_def sample_defs)

end
